(* ===== verification/Errors.thy ===== *)
theory Errors
  imports Prelude
begin

text \<open>
  The error values of the API (\<open>src/src/error.rs\<close>): an error code with a message, one constructor
  function per error of the source, and the HTTP status derived from the code.  \<open>http\<close>'s
  \<open>StatusCode::from_u16\<close> accepts 100..999; anything else falls back to 500.
\<close>

record api_error =
  err_code :: nat
  err_message :: string

type_synonym 'a api_result = "api_error + 'a"

definition api_error_new :: "nat \<Rightarrow> string \<Rightarrow> api_error" where
  "api_error_new c m = \<lparr>err_code = c, err_message = m\<rparr>"

function first_three :: "nat \<Rightarrow> nat" where
  "first_three c = (if 1000 \<le> c then first_three (c div 10) else c)"
  by auto
termination
  by (relation "measure id") auto

declare first_three.simps [simp del]

definition status :: "api_error \<Rightarrow> nat" where
  "status e = (let s = (if 1000 \<le> err_code e then first_three (err_code e) else err_code e)
     in if 100 \<le> s \<and> s \<le> 999 then s else 500)"

definition unauthorized :: api_error where
  "unauthorized = api_error_new 401 ''Unauthorized''"

definition forbidden :: "string \<Rightarrow> api_error" where
  "forbidden msg = api_error_new 403 msg"

definition subject_not_found :: "string \<Rightarrow> api_error" where
  "subject_not_found subject = api_error_new 40401 (''Subject '' @ quoted subject @ '' not found.'')"

definition version_not_found :: "string \<Rightarrow> api_error" where
  "version_not_found version = api_error_new 40402 (''Version '' @ version @ '' not found.'')"

definition schema_not_found :: api_error where
  "schema_not_found = api_error_new 40403 ''Schema not found''"

definition schema_id_not_found :: "string \<Rightarrow> api_error" where
  "schema_id_not_found i = api_error_new 40403 (''Schema '' @ i @ '' not found'')"

definition subject_soft_deleted :: "string \<Rightarrow> api_error" where
  "subject_soft_deleted subject = api_error_new 40404
     (''Subject '' @ quoted subject @ '' was soft deleted.Set permanent=true to delete permanently'')"

definition subject_not_soft_deleted :: "string \<Rightarrow> api_error" where
  "subject_not_soft_deleted subject = api_error_new 40405
     (''Subject '' @ quoted subject @ '' was not deleted first before being permanently deleted'')"

definition version_soft_deleted :: "string \<Rightarrow> u32 \<Rightarrow> api_error" where
  "version_soft_deleted subject version = api_error_new 40406
     (''Subject '' @ quoted subject @ '' Version '' @ show_u32 version
      @ '' was soft deleted.Set permanent=true to delete permanently'')"

definition version_not_soft_deleted :: "string \<Rightarrow> u32 \<Rightarrow> api_error" where
  "version_not_soft_deleted subject version = api_error_new 40407
     (''Subject '' @ quoted subject @ '' Version '' @ show_u32 version
      @ '' was not deleted first before being permanently deleted'')"

definition subject_compat_not_configured :: "string \<Rightarrow> api_error" where
  "subject_compat_not_configured subject = api_error_new 40408
     (''Subject '' @ quoted subject @ '' does not have subject-level compatibility configured'')"

definition subject_mode_not_configured :: "string \<Rightarrow> api_error" where
  "subject_mode_not_configured subject = api_error_new 40409
     (''Subject '' @ quoted subject @ '' does not have subject-level mode configured'')"

definition exporter_not_found :: "string \<Rightarrow> api_error" where
  "exporter_not_found name = api_error_new 40450 (''Exporter '' @ quoted name @ '' not found.'')"

definition incompatible :: "string \<Rightarrow> string list \<Rightarrow> api_error" where
  "incompatible subject messages = api_error_new 409
     (''Schema being registered is incompatible with an earlier schema for subject \"'' @ subject
      @ ''\", details: ['' @ join '', '' messages @ '']'')"

definition exporter_exists :: "string \<Rightarrow> api_error" where
  "exporter_exists name = api_error_new 40950 (''Exporter '' @ quoted name @ '' already exists.'')"

definition invalid_schema :: "string \<Rightarrow> api_error" where
  "invalid_schema msg = api_error_new 42201 (''Invalid schema: '' @ msg)"

definition invalid_version :: "string \<Rightarrow> api_error" where
  "invalid_version v = api_error_new 42202
     (''The specified version '' @ quoted v @ '' is not a valid version id. Allowed values are between [1, 2^31-1] and the string \"latest\"'')"

definition invalid_compatibility :: "string \<Rightarrow> api_error" where
  "invalid_compatibility level = api_error_new 42203
     ''Invalid compatibility level. Valid values are none, backward, forward, full, backward_transitive, forward_transitive, and full_transitive''"

definition invalid_mode :: "string \<Rightarrow> api_error" where
  "invalid_mode m = api_error_new 42204 ''Invalid mode. Valid values are READWRITE, READONLY, and IMPORT.''"

definition operation_not_permitted :: "string \<Rightarrow> api_error" where
  "operation_not_permitted msg = api_error_new 42205 msg"

definition reference_exists :: "string \<Rightarrow> api_error" where
  "reference_exists msg = api_error_new 42206 msg"

definition invalid_subject :: "string \<Rightarrow> api_error" where
  "invalid_subject subject = api_error_new 42208 (''The specified subject '' @ quoted subject @ '' is not a valid.'')"

definition context_not_empty :: "string \<Rightarrow> api_error" where
  "context_not_empty ctx = api_error_new 42211 (''The specified context '' @ quoted ctx @ '' is not empty.'')"

definition invalid_exporter :: "string \<Rightarrow> api_error" where
  "invalid_exporter msg = api_error_new 42250 msg"

definition unprocessable :: "string \<Rightarrow> api_error" where
  "unprocessable msg = api_error_new 422 msg"

definition store_error :: "string \<Rightarrow> api_error" where
  "store_error msg = api_error_new 50001 (''Error in the backend data store - '' @ msg)"

definition internal_error :: "string \<Rightarrow> api_error" where
  "internal_error msg = api_error_new 500 (''Internal error - '' @ msg)"

lemmas error_defs [model_defs] = api_error_new_def unauthorized_def forbidden_def
  subject_not_found_def version_not_found_def schema_not_found_def schema_id_not_found_def
  subject_soft_deleted_def subject_not_soft_deleted_def version_soft_deleted_def
  version_not_soft_deleted_def subject_compat_not_configured_def subject_mode_not_configured_def
  exporter_not_found_def incompatible_def exporter_exists_def invalid_schema_def invalid_version_def
  invalid_compatibility_def invalid_mode_def operation_not_permitted_def reference_exists_def
  invalid_subject_def context_not_empty_def invalid_exporter_def unprocessable_def
  store_error_def internal_error_def

lemma show_nat_nonempty [simp]: "show_nat n \<noteq> []"
  by (subst show_nat.simps) simp

lemma show_nat_small: "n < 10 \<Longrightarrow> show_nat n = [digit_char n]"
  by (subst show_nat.simps) simp

lemma show_nat_large: "10 \<le> n \<Longrightarrow> show_nat n = show_nat (n div 10) @ [digit_char (n mod 10)]"
  by (subst show_nat.simps) simp

lemma length_show_nat_ge3: "100 \<le> n \<Longrightarrow> 3 \<le> length (show_nat n)"
  using show_nat_large [of n] show_nat_large [of "n div 10"] show_nat_nonempty [of "n div 10 div 10"]
  by (cases "show_nat (n div 10 div 10)") auto

lemma length_show_nat_3: "100 \<le> n \<Longrightarrow> n < 1000 \<Longrightarrow> length (show_nat n) = 3"
  using show_nat_large [of n] show_nat_large [of "n div 10"] show_nat_small [of "n div 10 div 10"]
  by simp

lemma first_three_bounds: "100 \<le> c \<Longrightarrow> 100 \<le> first_three c \<and> first_three c \<le> 999"
proof (induction c rule: first_three.induct)
  case (1 c)
  then show ?case
    by (cases "1000 \<le> c") (simp_all add: first_three.simps [of c])
qed

lemma first_three_digits: "100 \<le> c \<Longrightarrow> show_nat (first_three c) = take 3 (show_nat c)"
proof (induction c rule: first_three.induct)
  case (1 c)
  show ?case
  proof (cases "1000 \<le> c")
    case True
    then have IH: "show_nat (first_three (c div 10)) = take 3 (show_nat (c div 10))"
      using 1 by simp
    have "show_nat c = show_nat (c div 10) @ [digit_char (c mod 10)]"
      using True by (intro show_nat_large) simp
    moreover have "3 \<le> length (show_nat (c div 10))"
      using True by (intro length_show_nat_ge3) simp
    ultimately show ?thesis
      using True IH by (simp add: first_three.simps [of c])
  next
    case False
    then show ?thesis
      using length_show_nat_3 [of c] 1(2) by (simp add: first_three.simps [of c])
  qed
qed

text \<open>The HTTP status of an error is always the first three decimal digits of its error code,
  for every code of at least three digits: what clients read off the code is what the
  response line says.\<close>

theorem status_first_three_digits:
  assumes "100 \<le> err_code e"
  shows "show_nat (status e) = take 3 (show_nat (err_code e))"
  using assms first_three_bounds [OF assms] first_three_digits [OF assms]
  by (auto simp: status_def Let_def first_three.simps [of "err_code e"])

theorem status_first_three_digits_witness:
  "show_nat (status (subject_not_found ''orders'')) = ''404''"
proof -
  have code: "err_code (subject_not_found ''orders'') = 40401"
    by (simp add: subject_not_found_def api_error_new_def)
  then have "show_nat (status (subject_not_found ''orders'')) = take 3 (show_nat 40401)"
    using status_first_three_digits [of "subject_not_found ''orders''"] by simp
  also have "\<dots> = ''404''" by (simp add: show_nat.simps)
  finally show ?thesis .
qed

end
