(* ===== verification/Contexts.thy ===== *)
theory Contexts
  imports Errors
begin

text \<open>
  Context-qualified subject names (\<open>src/src/context.rs\<close>): a subject string carries its context as a
  \<open>:.ctx:\<close> prefix.  The theory models parsing, printing and validation, and shows in which cases
  printing and parsing are inverse.
\<close>

definition DEFAULT_CONTEXT :: string where
  "DEFAULT_CONTEXT = ''.''"

definition WILDCARD_CONTEXT :: string where
  "WILDCARD_CONTEXT = ''*''"

record qualified_subject =
  qs_context :: string
  qs_subject :: string

definition qs_new :: "string \<Rightarrow> string \<Rightarrow> qualified_subject" where
  "qs_new ctx s = \<lparr>qs_context = ctx, qs_subject = s\<rparr>"

definition normalize_parsed :: "string \<Rightarrow> string" where
  "normalize_parsed ctx = (if ctx = [] then DEFAULT_CONTEXT else ctx)"

text \<open>\<open>QualifiedSubject::parse\<close> never fails in the source; the model returns the value itself.\<close>

definition qs_parse :: "string \<Rightarrow> qualified_subject" where
  "qs_parse raw =
    (case strip_prefix '':.'' raw of
       Some rest \<Rightarrow>
         (case find_char (CHR '':'') rest of
            Some ix \<Rightarrow> qs_new (normalize_parsed (take (1 + ix) (drop 1 raw))) (drop (ix + 1) rest)
          | None \<Rightarrow> qs_new (normalize_parsed (drop 1 raw)) [])
     | None \<Rightarrow>
         (case strip_prefix '':*:'' raw of
            Some rest \<Rightarrow> qs_new WILDCARD_CONTEXT rest
          | None \<Rightarrow> qs_new DEFAULT_CONTEXT raw))"

definition is_wildcard :: "qualified_subject \<Rightarrow> bool" where
  "is_wildcard q = (qs_context q = WILDCARD_CONTEXT)"

definition is_context_only :: "qualified_subject \<Rightarrow> bool" where
  "is_context_only q = (qs_subject q = [])"

definition qualify :: "string \<Rightarrow> string \<Rightarrow> string" where
  "qualify ctx s = (if ctx = DEFAULT_CONTEXT then s else '':'' @ ctx @ '':'' @ s)"

definition qs_qualified :: "qualified_subject \<Rightarrow> string" where
  "qs_qualified q = qualify (qs_context q) (qs_subject q)"

definition context_char :: "char \<Rightarrow> bool" where
  "context_char c = (is_ascii_alphanumeric c \<or> c = CHR ''.'' \<or> c = CHR ''-'' \<or> c = CHR ''_'')"

definition normalize_context :: "string \<Rightarrow> string option" where
  "normalize_context ctx =
    (if ctx = [] \<or> ctx = DEFAULT_CONTEXT then Some DEFAULT_CONTEXT
     else if ctx = WILDCARD_CONTEXT then Some WILDCARD_CONTEXT
     else let name = (if starts_with ctx ''.'' then ctx else ''.'' @ ctx)
       in if length name > 1 \<and> length name \<le> 256 \<and> list_all context_char (drop 1 name)
          then Some name else None)"

definition is_valid_subject :: "string \<Rightarrow> bool" where
  "is_valid_subject raw =
    (if has_control raw then False
     else let q = qs_parse raw in qs_subject q \<noteq> ''__GLOBAL'' \<and> qs_subject q \<noteq> ''__EMPTY'')"

lemmas context_defs [model_defs] = DEFAULT_CONTEXT_def WILDCARD_CONTEXT_def qs_new_def
  normalize_parsed_def

section \<open>Parsing and printing\<close>

lemma qs_parse_context:
  assumes "CHR '':'' \<notin> set c"
  shows "qs_parse ('':.'' @ c @ '':'' @ s) = qs_new (''.'' @ c) s"
  using assms by (simp add: qs_parse_def strip_prefix_def starts_with_def normalize_parsed_def)

lemma qs_parse_context_end:
  assumes "CHR '':'' \<notin> set c"
  shows "qs_parse ('':.'' @ c) = qs_new (''.'' @ c) []"
proof -
  have "find_char (CHR '':'') c = None" using assms by (simp add: find_char_None_iff)
  then show ?thesis
    by (simp add: qs_parse_def strip_prefix_def starts_with_def normalize_parsed_def)
qed

lemma qs_parse_wildcard: "qs_parse ('':*:'' @ s) = qs_new WILDCARD_CONTEXT s"
  by (simp add: qs_parse_def strip_prefix_def starts_with_def)

lemma qs_parse_plain:
  assumes "\<not> starts_with raw '':.''" and "\<not> starts_with raw '':*:''"
  shows "qs_parse raw = qs_new DEFAULT_CONTEXT raw"
  using assms by (simp add: qs_parse_def strip_prefix_def)

text \<open>Every string falls into one of the four shapes.\<close>

lemma qs_parse_shapes:
  obtains (ctx) c s where "raw = '':.'' @ c @ '':'' @ s" "CHR '':'' \<notin> set c"
      "qs_parse raw = qs_new (''.'' @ c) s"
  | (ctx_end) c where "raw = '':.'' @ c" "CHR '':'' \<notin> set c" "qs_parse raw = qs_new (''.'' @ c) []"
  | (wild) s where "raw = '':*:'' @ s" "qs_parse raw = qs_new WILDCARD_CONTEXT s"
  | (plain) "\<not> starts_with raw '':.''" "\<not> starts_with raw '':*:''"
      "qs_parse raw = qs_new DEFAULT_CONTEXT raw"
proof (cases "starts_with raw '':.''")
  case True
  then obtain rest where raw: "raw = '':.'' @ rest" by (auto simp: starts_with_iff)
  show ?thesis
  proof (cases "split_once (CHR '':'') rest")
    case None
    then have "CHR '':'' \<notin> set rest" by (simp add: split_once_None_iff)
    then show ?thesis using ctx_end raw qs_parse_context_end by blast
  next
    case (Some p)
    obtain c s where "rest = c @ CHR '':'' # s" "CHR '':'' \<notin> set c"
      using split_once_SomeD Some by (cases p) blast
    then show ?thesis using ctx [of c s] raw qs_parse_context [of c s] by simp
  qed
next
  case False
  show ?thesis
  proof (cases "starts_with raw '':*:''")
    case True
    then obtain s where "raw = '':*:'' @ s" by (auto simp: starts_with_iff)
    then show ?thesis using wild qs_parse_wildcard by blast
  next
    case F2: False
    then show ?thesis using plain False qs_parse_plain by blast
  qed
qed

text \<open>The contexts parsing can produce: the wildcard, or a name with a leading dot and no colon.\<close>

definition wf_context :: "string \<Rightarrow> bool" where
  "wf_context c = (c = WILDCARD_CONTEXT \<or> (starts_with c ''.'' \<and> CHR '':'' \<notin> set c))"

lemma wf_context_default [simp]: "wf_context DEFAULT_CONTEXT"
  by (simp add: wf_context_def DEFAULT_CONTEXT_def starts_with_def)

lemma qs_parse_wf_context: "wf_context (qs_context (qs_parse raw))"
  by (cases raw rule: qs_parse_shapes)
    (auto simp: qs_new_def wf_context_def starts_with_def DEFAULT_CONTEXT_def)

lemma parse_qualify:
  assumes "wf_context c" and "c \<noteq> DEFAULT_CONTEXT"
  shows "qs_parse (qualify c s) = qs_new c s"
proof (cases "c = WILDCARD_CONTEXT")
  case True
  then have "qualify c s = '':*:'' @ s"
    by (simp add: qualify_def WILDCARD_CONTEXT_def DEFAULT_CONTEXT_def)
  then show ?thesis using True by (simp only: qs_parse_wildcard)
next
  case False
  then obtain d where c: "c = ''.'' @ d" and d: "CHR '':'' \<notin> set d"
    using assms by (auto simp: wf_context_def starts_with_iff)
  have "qualify c s = '':.'' @ d @ '':'' @ s" using assms c by (simp add: qualify_def)
  then show ?thesis using qs_parse_context [OF d] c by simp
qed


lemma normalize_context_dot_unchanged:
  assumes "starts_with c ''.''" "length c > 1" "length c \<le> 256" "list_all context_char (drop 1 c)"
  shows "normalize_context c = Some c"
  using assms by (auto simp: normalize_context_def Let_def context_defs starts_with_def)

lemma normalize_context_cases:
  assumes "normalize_context c = Some d"
  shows "d = DEFAULT_CONTEXT \<or> d = WILDCARD_CONTEXT
    \<or> (starts_with d ''.'' \<and> length d > 1 \<and> length d \<le> 256 \<and> list_all context_char (drop 1 d))"
  using assms by (auto simp: normalize_context_def Let_def starts_with_def split: if_splits)

lemma normalize_context_idem:
  assumes "normalize_context c = Some d"
  shows "normalize_context d = Some d"
  using normalize_context_cases [OF assms]
  by (elim disjE conjE) (auto simp: normalize_context_dot_unchanged, auto simp: normalize_context_def context_defs)

lemma context_char_not_colon: "list_all context_char s \<Longrightarrow> CHR '':'' \<notin> set s"
  by (induction s) (auto simp: context_char_def is_ascii_alphanumeric_def)

lemma context_char_not_NUL: "list_all context_char s \<Longrightarrow> CHR 0x00 \<notin> set s"
  by (induction s) (auto simp: context_char_def is_ascii_alphanumeric_def)

lemma normalize_context_wf:
  assumes "normalize_context c = Some d"
  shows "wf_context d"
  using normalize_context_cases [OF assms]
proof (elim disjE)
  assume d: "starts_with d ''.'' \<and> length d > 1 \<and> length d \<le> 256 \<and> list_all context_char (drop 1 d)"
  then obtain e where "d = CHR ''.'' # e" by (auto simp: starts_with_iff)
  with d show ?thesis by (auto simp: wf_context_def starts_with_def dest: context_char_not_colon)
qed (auto simp: wf_context_def starts_with_def context_defs)

text \<open>A context name the registry accepts (\<open>normalize_context\<close>) is canonical and unambiguous:
  normalizing it again changes nothing, it contains no separator byte, and for a context other
  than the default one every subject printed in it parses back to that context and that subject.\<close>

theorem normalized_context_unambiguous:
  assumes "normalize_context c = Some d"
  shows "normalize_context d = Some d \<and> CHR 0x00 \<notin> set d
    \<and> (d \<noteq> DEFAULT_CONTEXT \<longrightarrow> qs_parse (qualify d s) = qs_new d s)"
proof -
  have "CHR 0x00 \<notin> set d"
    using normalize_context_cases [OF assms]
  proof (elim disjE)
    assume d: "starts_with d ''.'' \<and> length d > 1 \<and> length d \<le> 256 \<and> list_all context_char (drop 1 d)"
    then obtain e where "d = CHR ''.'' # e" by (auto simp: starts_with_iff)
    with d show ?thesis by (auto dest: context_char_not_NUL)
  qed (auto simp: context_defs)
  then show ?thesis
    using normalize_context_idem [OF assms] parse_qualify [OF normalize_context_wf [OF assms]] by blast
qed

theorem normalized_context_unambiguous_witness:
  "normalize_context ''.staging'' = Some ''.staging'' \<and> CHR 0x00 \<notin> set ''.staging''
    \<and> qs_parse (qualify ''.staging'' ''orders'') = qs_new ''.staging'' ''orders''"
proof -
  have "normalize_context ''staging'' = Some ''.staging''"
    by (simp add: normalize_context_def context_defs starts_with_def context_char_def
        is_ascii_alphanumeric_def)
  moreover have "''.staging'' \<noteq> DEFAULT_CONTEXT" by (simp add: DEFAULT_CONTEXT_def)
  ultimately show ?thesis using normalized_context_unambiguous [of "''staging''" "''.staging''" "''orders''"] by blast
qed


text \<open>A subject name that passes the write-side validation holds no byte 0, in either its raw
  form or its parsed context and subject, so it can never forge the separators of a storage key;
  and the reserved names are refused in every context.\<close>

theorem valid_subject_safe_in_keys:
  assumes "is_valid_subject raw"
  shows "CHR 0x00 \<notin> set raw \<and> CHR 0x00 \<notin> set (qs_context (qs_parse raw))
    \<and> CHR 0x00 \<notin> set (qs_subject (qs_parse raw))
    \<and> qs_subject (qs_parse raw) \<notin> {''__GLOBAL'', ''__EMPTY''}"
proof -
  have raw: "CHR 0x00 \<notin> set raw"
    using assms not_control_no_NUL by (auto simp: is_valid_subject_def split: if_splits)
  moreover have "CHR 0x00 \<notin> set (qs_context (qs_parse raw)) \<and> CHR 0x00 \<notin> set (qs_subject (qs_parse raw))"
    using raw by (cases raw rule: qs_parse_shapes) (auto simp: context_defs)
  ultimately show ?thesis
    using assms by (auto simp: is_valid_subject_def Let_def split: if_splits)
qed

theorem valid_subject_safe_in_keys_witness:
  "CHR 0x00 \<notin> set '':.c:a'' \<and> CHR 0x00 \<notin> set (qs_context (qs_parse '':.c:a''))
    \<and> CHR 0x00 \<notin> set (qs_subject (qs_parse '':.c:a''))
    \<and> qs_subject (qs_parse '':.c:a'') \<notin> {''__GLOBAL'', ''__EMPTY''}"
proof -
  have "is_valid_subject '':.c:a''"
    by (simp add: is_valid_subject_def qs_parse_def strip_prefix_def starts_with_def context_defs)
  then show ?thesis by (rule valid_subject_safe_in_keys)
qed

end
