(* ===== verification/Tenant.thy ===== *)
theory Tenant
  imports Contexts
begin

text \<open>
  Host containers (\<open>src/src/tenant.rs\<close>): validated container names and the key prefix that
  separates the rows of one container from those of every other.
\<close>

datatype tenant_id = TenantId (tenant_name: string)

definition DEFAULT_TENANT :: string where
  "DEFAULT_TENANT = ''default''"

definition default_tenant :: tenant_id where
  "default_tenant = TenantId DEFAULT_TENANT"

definition tenant_parse :: "string \<Rightarrow> tenant_id api_result" where
  "tenant_parse name =
    (if name \<noteq> [] \<and> length name \<le> 64 \<and> \<not> starts_with name ''.'' \<and> list_all context_char name
     then Inr (TenantId name)
     else Inl (unprocessable (''Invalid host container name '' @ quoted name
       @ '': 1-64 characters of [A-Za-z0-9._-], not starting with '' @ quoted ''.'')))"

definition key_prefix :: "tenant_id \<Rightarrow> bytes" where
  "key_prefix t = tenant_name t @ [CHR 0x00]"

text \<open>The names \<^const>\<open>tenant_parse\<close> lets through.\<close>

definition wf_tenant :: "tenant_id \<Rightarrow> bool" where
  "wf_tenant t = is_ok (tenant_parse (tenant_name t))"

lemma wf_tenant_parse: "tenant_parse name = Inr t \<Longrightarrow> wf_tenant t \<and> tenant_name t = name"
  by (auto simp: wf_tenant_def tenant_parse_def split: if_splits)

lemma wf_tenant_no_NUL [name_simps]: "wf_tenant t \<Longrightarrow> CHR 0x00 \<notin> set (tenant_name t)"
  by (auto simp: wf_tenant_def tenant_parse_def dest: context_char_not_NUL split: if_splits)

lemma wf_default_tenant [simp]: "wf_tenant default_tenant"
  by (simp add: wf_tenant_def tenant_parse_def default_tenant_def DEFAULT_TENANT_def starts_with_def
      context_char_def is_ascii_alphanumeric_def)

lemma key_prefix_disjoint:
  assumes "wf_tenant t" and "wf_tenant t'"
  shows "key_prefix t @ r = key_prefix t' @ r' \<longleftrightarrow> t = t' \<and> r = r'"
proof -
  have "tenant_name t @ CHR 0x00 # r = tenant_name t' @ CHR 0x00 # r'
      \<longleftrightarrow> tenant_name t = tenant_name t' \<and> r = r'"
    using assms by (intro separated_eq_iff wf_tenant_no_NUL)
  then show ?thesis by (auto simp: key_prefix_def tenant_id.expand)
qed

lemma key_prefix_not_reserved:
  assumes "wf_tenant t"
  shows "key_prefix t @ r \<noteq> CHR 0x00 # s"
  using assms wf_tenant_no_NUL [OF assms]
  by (cases "tenant_name t") (auto simp: key_prefix_def wf_tenant_def tenant_parse_def)

text \<open>Container isolation at the level of keys: for any two distinct valid container names,
  no key of one starts with the prefix of the other (so a prefix scan of one container can never
  return a row of the other, whatever follows the prefix), and no container key can be one of the
  store's reserved keys, which start with byte 0.\<close>

theorem container_keys_disjoint:
  assumes "tenant_parse n = Inr t" and "tenant_parse n' = Inr t'" and "n \<noteq> n'"
  shows "\<not> starts_with (key_prefix t @ rest) (key_prefix t')
    \<and> \<not> starts_with (key_prefix t @ rest) [CHR 0x00]"
proof -
  have wf: "wf_tenant t" "wf_tenant t'" "t \<noteq> t'"
    using assms wf_tenant_parse by blast+
  show ?thesis
    using key_prefix_disjoint [OF wf(1,2)] wf(3) key_prefix_not_reserved [OF wf(1)]
    by (fastforce simp: starts_with_iff)
qed

theorem container_keys_disjoint_witness:
  "\<not> starts_with (key_prefix (TenantId ''prod-eu'') @ ''x'') (key_prefix (TenantId ''prod''))
    \<and> \<not> starts_with (key_prefix (TenantId ''prod-eu'') @ ''x'') [CHR 0x00]"
proof (rule container_keys_disjoint)
  show "tenant_parse ''prod-eu'' = Inr (TenantId ''prod-eu'')"
    and "tenant_parse ''prod'' = Inr (TenantId ''prod'')"
    by (simp_all add: tenant_parse_def starts_with_def context_char_def is_ascii_alphanumeric_def)
qed simp

end
