(* ===== verification/Model.thy ===== *)
theory Model
  imports Tenant
begin

text \<open>
  The wire types and persisted records (\<open>src/src/model.rs\<close>): enumerations with their parsers,
  schema references, stored records, configuration records and their merge, log events and
  exporter records.  \<open>json\<close> stands for \<open>serde_json::Value\<close> with \<open>preserve_order\<close>: an object is the
  list of its members in insertion order.
\<close>

datatype json =
    JNull
  | JBool bool
  | JInt int
  | JFloat string
  | JString (json_str: string)
  | JArray "json list"
  | JObject "(string \<times> json) list"

fun json_is_null :: "json \<Rightarrow> bool" where
  "json_is_null JNull = True"
| "json_is_null _ = False"

datatype schema_type = Avro | Json | Protobuf

fun schema_type_parse :: "string option \<Rightarrow> schema_type api_result" where
  "schema_type_parse None = Inr Avro"
| "schema_type_parse (Some s) =
    (if s = ''AVRO'' then Inr Avro
     else if s = ''JSON'' then Inr Json
     else if s = ''PROTOBUF'' then Inr Protobuf
     else Inl (api_error_new 42201 (''Invalid schema type '' @ s)))"

fun schema_type_as_str :: "schema_type \<Rightarrow> string" where
  "schema_type_as_str Avro = ''AVRO''"
| "schema_type_as_str Json = ''JSON''"
| "schema_type_as_str Protobuf = ''PROTOBUF''"

definition is_avro :: "schema_type \<Rightarrow> bool" where
  "is_avro t = (t = Avro)"

datatype compatibility_level =
    CompatNone | Backward | BackwardTransitive | Forward | ForwardTransitive | Full | FullTransitive

definition compat_parse :: "string \<Rightarrow> compatibility_level api_result" where
  "compat_parse s = (let u = to_ascii_uppercase s in
     if u = ''NONE'' then Inr CompatNone
     else if u = ''BACKWARD'' then Inr Backward
     else if u = ''BACKWARD_TRANSITIVE'' then Inr BackwardTransitive
     else if u = ''FORWARD'' then Inr Forward
     else if u = ''FORWARD_TRANSITIVE'' then Inr ForwardTransitive
     else if u = ''FULL'' then Inr Full
     else if u = ''FULL_TRANSITIVE'' then Inr FullTransitive
     else Inl (invalid_compatibility s))"

fun compat_as_str :: "compatibility_level \<Rightarrow> string" where
  "compat_as_str CompatNone = ''NONE''"
| "compat_as_str Backward = ''BACKWARD''"
| "compat_as_str BackwardTransitive = ''BACKWARD_TRANSITIVE''"
| "compat_as_str Forward = ''FORWARD''"
| "compat_as_str ForwardTransitive = ''FORWARD_TRANSITIVE''"
| "compat_as_str Full = ''FULL''"
| "compat_as_str FullTransitive = ''FULL_TRANSITIVE''"

definition transitive :: "compatibility_level \<Rightarrow> bool" where
  "transitive l = (l \<in> {BackwardTransitive, ForwardTransitive, FullTransitive})"

definition backward :: "compatibility_level \<Rightarrow> bool" where
  "backward l = (l \<in> {Backward, BackwardTransitive, Full, FullTransitive})"

definition forward :: "compatibility_level \<Rightarrow> bool" where
  "forward l = (l \<in> {Forward, ForwardTransitive, Full, FullTransitive})"

datatype mode = Readwrite | Readonly | ReadonlyOverride | Import

definition mode_parse :: "string \<Rightarrow> mode api_result" where
  "mode_parse s = (let u = to_ascii_uppercase s in
     if u = ''READWRITE'' then Inr Readwrite
     else if u = ''READONLY'' then Inr Readonly
     else if u = ''READONLY_OVERRIDE'' then Inr ReadonlyOverride
     else if u = ''IMPORT'' then Inr Import
     else Inl (invalid_mode s))"

fun mode_as_str :: "mode \<Rightarrow> string" where
  "mode_as_str Readwrite = ''READWRITE''"
| "mode_as_str Readonly = ''READONLY''"
| "mode_as_str ReadonlyOverride = ''READONLY_OVERRIDE''"
| "mode_as_str Import = ''IMPORT''"

section \<open>References and requests\<close>

record schema_reference =
  ref_name :: string
  ref_subject :: string
  ref_version :: i32

record ref_in =
  rin_null :: bool
  rin_name :: "string option"
  rin_subject :: "string option"
  rin_version :: "i32 option"

definition ref_in_default :: ref_in where
  "ref_in_default = \<lparr>rin_null = False, rin_name = None, rin_subject = None, rin_version = None\<rparr>"

definition ref_in_of :: "schema_reference \<Rightarrow> ref_in" where
  "ref_in_of r = \<lparr>rin_null = False, rin_name = Some (ref_name r), rin_subject = Some (ref_subject r),
     rin_version = Some (ref_version r)\<rparr>"

definition show_ref_in :: "ref_in \<Rightarrow> string" where
  "show_ref_in r =
    (if rin_null r then ''null''
     else ''{name='' @ quoted (unwrap_or (rin_name r) ''null'')
       @ '', subject='' @ quoted (unwrap_or (rin_subject r) ''null'')
       @ '', version='' @ (case rin_version r of None \<Rightarrow> ''null'' | Some v \<Rightarrow> show_int v) @ ''}'')"

record register_request =
  rr_schema :: "string option"
  rr_schema_type :: "string option"
  rr_references :: "ref_in list option"
  rr_metadata :: "json option"
  rr_rule_set :: "json option"
  rr_version :: "i32 option"
  rr_id :: "i32 option"

section \<open>Persisted records\<close>

record schema_record =
  sr_type :: schema_type
  sr_schema :: string
  sr_references :: "schema_reference list"
  sr_metadata :: "json option"
  sr_rule_set :: "json option"
  sr_fingerprint :: string
  sr_schema_fingerprint :: string
  sr_guid :: string

record version_record =
  vr_id :: u32
  vr_deleted :: bool
  vr_ts :: i64

record config_record =
  cf_compatibility_level :: "compatibility_level option"
  cf_alias :: "string option"
  cf_normalize :: "bool option"
  cf_validate_fields :: "bool option"
  cf_validate_rules :: "bool option"
  cf_compatibility_group :: "string option"
  cf_default_metadata :: "json option"
  cf_override_metadata :: "json option"
  cf_default_rule_set :: "json option"
  cf_override_rule_set :: "json option"

definition config_default :: config_record where
  "config_default = \<lparr>cf_compatibility_level = None, cf_alias = None, cf_normalize = None,
     cf_validate_fields = None, cf_validate_rules = None, cf_compatibility_group = None,
     cf_default_metadata = None, cf_override_metadata = None,
     cf_default_rule_set = None, cf_override_rule_set = None\<rparr>"

definition has_defaults_or_overrides :: "config_record \<Rightarrow> bool" where
  "has_defaults_or_overrides c =
    (cf_default_metadata c \<noteq> None \<or> cf_override_metadata c \<noteq> None
     \<or> cf_default_rule_set c \<noteq> None \<or> cf_override_rule_set c \<noteq> None)"

definition merged_with :: "config_record \<Rightarrow> config_record \<Rightarrow> config_record" where
  "merged_with self other = \<lparr>
     cf_compatibility_level = opt_or (cf_compatibility_level other) (cf_compatibility_level self),
     cf_alias = opt_or (cf_alias other) (cf_alias self),
     cf_normalize = opt_or (cf_normalize other) (cf_normalize self),
     cf_validate_fields = opt_or (cf_validate_fields other) (cf_validate_fields self),
     cf_validate_rules = opt_or (cf_validate_rules other) (cf_validate_rules self),
     cf_compatibility_group = opt_or (cf_compatibility_group other) (cf_compatibility_group self),
     cf_default_metadata = opt_or (cf_default_metadata other) (cf_default_metadata self),
     cf_override_metadata = opt_or (cf_override_metadata other) (cf_override_metadata self),
     cf_default_rule_set = opt_or (cf_default_rule_set other) (cf_default_rule_set self),
     cf_override_rule_set = opt_or (cf_override_rule_set other) (cf_override_rule_set self)\<rparr>"

record config_update_request =
  cur_alias :: "string option"
  cur_normalize :: "bool option"
  cur_validate_fields :: "bool option"
  cur_validate_rules :: "bool option"
  cur_compatibility :: "string option"
  cur_compatibility_group :: "string option"
  cur_default_metadata :: "json option"
  cur_override_metadata :: "json option"
  cur_default_rule_set :: "json option"
  cur_override_rule_set :: "json option"

definition into_record :: "config_update_request \<Rightarrow> config_record api_result" where
  "into_record self =
    and_then (case cur_compatibility self of
        None \<Rightarrow> Inr None
      | Some s \<Rightarrow> map_ok Some (compat_parse s)) (\<lambda>level.
    Inr \<lparr>cf_compatibility_level = level, cf_alias = cur_alias self, cf_normalize = cur_normalize self,
     cf_validate_fields = cur_validate_fields self, cf_validate_rules = cur_validate_rules self,
     cf_compatibility_group = cur_compatibility_group self,
     cf_default_metadata = cur_default_metadata self, cf_override_metadata = cur_override_metadata self,
     cf_default_rule_set = cur_default_rule_set self, cf_override_rule_set = cur_override_rule_set self\<rparr>)"

datatype log_event_kind = Register | SoftDelete | HardDelete

record log_event =
  ev_ctx :: string
  ev_subject :: string
  ev_version :: u32
  ev_id :: u32
  ev_kind :: log_event_kind

section \<open>Exporters\<close>

record exporter_info =
  ei_name :: string
  ei_subjects :: "string list"
  ei_context_type :: string
  ei_context :: "string option"
  ei_subject_rename_format :: "string option"
  ei_config :: "(string \<times> json) list"

record exporter_update_request =
  eu_name :: "string option"
  eu_subjects :: "string list option"
  eu_context_type :: "string option"
  eu_context :: "string option"
  eu_subject_rename_format :: "string option"
  eu_config :: "(string \<times> json) list option"

datatype exporter_state = Starting | Running | Paused | Error | Failed

record exporter_record =
  er_info :: exporter_info
  er_state :: exporter_state
  er_offset :: u64
  er_ts :: i64
  er_trace :: string

section \<open>Laws\<close>

lemma schema_type_roundtrip: "schema_type_parse (Some (schema_type_as_str t)) = Inr t"
  by (cases t) simp_all

lemma merged_with_default_right [simp]: "merged_with c config_default = c"
  by (simp add: merged_with_def config_default_def)

lemma merged_with_default_left [simp]: "merged_with config_default c = c"
  by (simp add: merged_with_def config_default_def)

lemma merged_with_idem [simp]: "merged_with c c = c"
  by (simp add: merged_with_def)

lemma merged_with_assoc: "merged_with (merged_with a b) c = merged_with a (merged_with b c)"
  by (simp add: merged_with_def opt_or_assoc)

end
