(* ===== verification/Tables.thy ===== *)
theory Tables
  imports Prelude "HOL-Library.AList"
begin

text \<open>
  Ordered tables: association lists with strictly increasing keys.  They stand for the ordered
  containers of the program: \<open>imbl::OrdMap\<close>, a RocksDB column family (byte-ordered keys), and the
  sorted vectors of \<open>src/src/snapshot.rs\<close>.  The locale \<open>sorted_table\<close> is the contract an insertion
  and a removal have to meet; its consequences hold for the reference operations here and for the
  binary-search versions of the snapshot.
\<close>

definition wf_table :: "('k::linorder \<times> 'v) list \<Rightarrow> bool" where
  "wf_table t = sorted_wrt (<) (map fst t)"

fun om_update :: "'k::linorder \<Rightarrow> 'v \<Rightarrow> ('k \<times> 'v) list \<Rightarrow> ('k \<times> 'v) list" where
  "om_update k v [] = [(k, v)]"
| "om_update k v ((k', v') # t) =
    (if k < k' then (k, v) # (k', v') # t
     else if k = k' then (k, v) # t
     else (k', v') # om_update k v t)"

fun om_delete :: "'k::linorder \<Rightarrow> ('k \<times> 'v) list \<Rightarrow> ('k \<times> 'v) list" where
  "om_delete k [] = []"
| "om_delete k ((k', v') # t) = (if k = k' then t else (k', v') # om_delete k t)"

text \<open>Binary search as the standard library documents it: \<open>Inr i\<close> is a matching index, \<open>Inl i\<close> the
  index where the key belongs.\<close>

function bsearch :: "'k::linorder list \<Rightarrow> 'k \<Rightarrow> nat \<Rightarrow> nat \<Rightarrow> nat + nat" where
  "bsearch ks k lo hi =
    (if hi \<le> lo then Inl lo
     else let mid = (lo + hi) div 2 in
       if ks ! mid = k then Inr mid
       else if ks ! mid < k then bsearch ks k (mid + 1) hi
       else bsearch ks k lo mid)"
  by pat_completeness auto
termination
  by (relation "measure (\<lambda>(ks, k, lo, hi). hi - lo)") auto

declare bsearch.simps [simp del]

definition binary_search :: "'k::linorder list \<Rightarrow> 'k \<Rightarrow> nat + nat" where
  "binary_search ks k = bsearch ks k 0 (length ks)"

section \<open>Well-formed tables\<close>

lemma wf_table_Nil [simp]: "wf_table []"
  by (simp add: wf_table_def)

lemma wf_table_Cons:
  "wf_table ((k, v) # t) \<longleftrightarrow> (\<forall>k' \<in> fst ` set t. k < k') \<and> wf_table t"
  by (simp add: wf_table_def)

lemma wf_table_distinct: "wf_table t \<Longrightarrow> distinct (map fst t)"
  unfolding wf_table_def by (rule strict_sorted_iff [THEN iffD1, THEN conjunct2])

lemma wf_table_sorted: "wf_table t \<Longrightarrow> sorted (map fst t)"
  unfolding wf_table_def by (rule strict_sorted_iff [THEN iffD1, THEN conjunct1])

lemma wf_table_map_of_iff: "wf_table t \<Longrightarrow> map_of t k = Some v \<longleftrightarrow> (k, v) \<in> set t"
  by (simp add: wf_table_distinct)

lemma wf_table_below: "wf_table ((k, v) # t) \<Longrightarrow> k' \<le> k \<Longrightarrow> map_of t k' = None"
  by (auto simp: wf_table_Cons map_of_eq_None_iff)

text \<open>Well-formed tables are determined by their lookups.\<close>

lemma wf_table_ext:
  assumes "wf_table t" and "wf_table t'" and "map_of t = map_of t'"
  shows "t = t'"
proof -
  have "set t = set t'"
    using assms wf_table_map_of_iff by (metis (no_types, lifting) set_eqI surj_pair)
  moreover have "inj_on fst (set t)" using assms(1) wf_table_distinct by (auto simp: distinct_map)
  moreover have "map fst t = map fst t'"
    using \<open>set t = set t'\<close> assms(1,2) unfolding wf_table_def
    by (metis image_set strict_sorted_equal)
  ultimately show ?thesis
    by (metis Un_absorb inj_on_map_eq_map)
qed

lemma om_update_keys: "fst ` set (om_update k v t) = insert k (fst ` set t)"
  by (induction k v t rule: om_update.induct) auto

lemma om_delete_keys_subset: "fst ` set (om_delete k t) \<subseteq> fst ` set t"
  by (induction k t rule: om_delete.induct) auto

lemma om_update_wf: "wf_table t \<Longrightarrow> wf_table (om_update k v t)"
  by (induction k v t rule: om_update.induct) (auto simp: wf_table_Cons om_update_keys)

lemma om_delete_wf: "wf_table t \<Longrightarrow> wf_table (om_delete k t)"
proof (induction k t rule: om_delete.induct)
  case (2 k k' v' t)
  then show ?case using om_delete_keys_subset [of k t] by (fastforce simp: wf_table_Cons)
qed simp

lemma map_of_om_update: "map_of (om_update k v t) = (map_of t)(k \<mapsto> v)"
  by (induction k v t rule: om_update.induct) (auto simp: fun_eq_iff)

lemma map_of_om_delete: "wf_table t \<Longrightarrow> map_of (om_delete k t) = (map_of t)(k := None)"
proof (induction k t rule: om_delete.induct)
  case (2 k k' v' t)
  then show ?case
    using wf_table_below [of k' v' t k'] by (auto simp: wf_table_Cons fun_eq_iff)
qed simp

section \<open>The contract\<close>

locale sorted_table =
  fixes ins :: "'k::linorder \<Rightarrow> 'v \<Rightarrow> ('k \<times> 'v) list \<Rightarrow> ('k \<times> 'v) list"
    and del :: "'k \<Rightarrow> ('k \<times> 'v) list \<Rightarrow> ('k \<times> 'v) list"
  assumes ins_wf: "wf_table t \<Longrightarrow> wf_table (ins k v t)"
    and del_wf: "wf_table t \<Longrightarrow> wf_table (del k t)"
    and ins_lookup: "wf_table t \<Longrightarrow> map_of (ins k v t) = (map_of t)(k \<mapsto> v)"
    and del_lookup: "wf_table t \<Longrightarrow> map_of (del k t) = (map_of t)(k := None)"
begin

lemma ins_reference: "wf_table t \<Longrightarrow> ins k v t = om_update k v t"
  by (rule wf_table_ext) (auto simp: ins_wf om_update_wf ins_lookup map_of_om_update)

lemma del_reference: "wf_table t \<Longrightarrow> del k t = om_delete k t"
  by (rule wf_table_ext) (auto simp: del_wf om_delete_wf del_lookup map_of_om_delete)

lemma ins_ins_same: "wf_table t \<Longrightarrow> ins k v (ins k w t) = ins k v t"
  by (rule wf_table_ext) (auto simp: ins_wf ins_lookup)

lemma ins_commute: "wf_table t \<Longrightarrow> k \<noteq> k' \<Longrightarrow> ins k v (ins k' v' t) = ins k' v' (ins k v t)"
  by (rule wf_table_ext) (auto simp: ins_wf ins_lookup fun_upd_twist)

lemma del_absent: "wf_table t \<Longrightarrow> map_of t k = None \<Longrightarrow> del k t = t"
  by (rule wf_table_ext) (auto simp: del_wf del_lookup fun_upd_idem)

lemma del_ins: "wf_table t \<Longrightarrow> map_of t k = None \<Longrightarrow> del k (ins k v t) = t"
  by (rule wf_table_ext) (auto simp: del_wf ins_wf del_lookup ins_lookup fun_upd_idem)

lemma ins_nonempty: "wf_table t \<Longrightarrow> ins k v t \<noteq> []"
  using ins_lookup [of t k v] by (metis fun_upd_same map_of.simps(1) option.distinct(1))

lemma ins_set: "wf_table t \<Longrightarrow> (k', v') \<in> set (ins k v t) \<longleftrightarrow>
    (if k' = k then v' = v else (k', v') \<in> set t)"
  by (subst wf_table_map_of_iff [symmetric]) (auto simp: ins_wf ins_lookup wf_table_map_of_iff)

lemma del_set: "wf_table t \<Longrightarrow> (k', v') \<in> set (del k t) \<longleftrightarrow> k' \<noteq> k \<and> (k', v') \<in> set t"
  by (subst wf_table_map_of_iff [symmetric]) (auto simp: del_wf del_lookup wf_table_map_of_iff)

end

interpretation om: sorted_table om_update om_delete
  by unfold_locales (simp_all add: om_update_wf om_delete_wf map_of_om_update map_of_om_delete)

section \<open>Binary search\<close>

definition found_or_gap :: "'k::linorder list \<Rightarrow> 'k \<Rightarrow> nat + nat \<Rightarrow> bool" where
  "found_or_gap ks k r = (case r of
      Inr i \<Rightarrow> i < length ks \<and> ks ! i = k
    | Inl i \<Rightarrow> i \<le> length ks \<and> (\<forall>j<i. ks ! j < k) \<and> (\<forall>j. i \<le> j \<and> j < length ks \<longrightarrow> k < ks ! j))"

lemma bsearch_spec:
  assumes "sorted_wrt (<) ks" and "hi \<le> length ks" and "lo \<le> hi"
    and "\<forall>i<lo. ks ! i < k" and "\<forall>i. hi \<le> i \<and> i < length ks \<longrightarrow> k < ks ! i"
  shows "found_or_gap ks k (bsearch ks k lo hi)"
  using assms
proof (induction ks k lo hi rule: bsearch.induct)
  case (1 ks k lo hi)
  note less = sorted_wrt_nth_less [OF 1(3)]
  show ?case
  proof (cases "hi \<le> lo")
    case True
    then show ?thesis using 1 by (simp add: bsearch.simps found_or_gap_def)
  next
    case False
    define mid where "mid = (lo + hi) div 2"
    have mid: "lo \<le> mid" "mid < hi" using False by (auto simp: mid_def)
    have unfold: "bsearch ks k lo hi = (if ks ! mid = k then Inr mid
        else if ks ! mid < k then bsearch ks k (mid + 1) hi else bsearch ks k lo mid)"
      using False by (subst bsearch.simps) (simp add: mid_def Let_def)
    consider (eq) "ks ! mid = k" | (lt) "ks ! mid < k" | (gt) "k < ks ! mid"
      by (meson linorder_less_linear)
    then show ?thesis
    proof cases
      case eq
      with mid \<open>hi \<le> length ks\<close> show ?thesis by (simp add: unfold found_or_gap_def)
    next
      case lt
      have "\<forall>i<mid + 1. ks ! i < k"
        using lt less mid \<open>hi \<le> length ks\<close>
        by (metis Suc_eq_plus1 less_SucE less_trans order_less_le_trans)
      then have "found_or_gap ks k (bsearch ks k (mid + 1) hi)"
        using 1(1) [OF False mid_def] lt 1 mid by auto
      then show ?thesis using lt by (auto simp: unfold)
    next
      case gt
      have "\<forall>i. mid \<le> i \<and> i < length ks \<longrightarrow> k < ks ! i"
        using gt less by (metis less_trans nat_less_le)
      then have "found_or_gap ks k (bsearch ks k lo mid)"
        using 1(2) [OF False mid_def] gt 1 mid by auto
      then show ?thesis using gt by (auto simp: unfold)
    qed
  qed
qed

lemma binary_search_spec:
  assumes "sorted_wrt (<) ks"
  shows "found_or_gap ks k (binary_search ks k)"
  unfolding binary_search_def using assms by (intro bsearch_spec) auto

lemma binary_search_Inr:
  assumes "sorted_wrt (<) ks" and "binary_search ks k = Inr i"
  shows "i < length ks \<and> ks ! i = k"
  using binary_search_spec [OF assms(1), of k] assms(2) by (simp add: found_or_gap_def)

lemma binary_search_Inl:
  assumes "sorted_wrt (<) ks" and "binary_search ks k = Inl i"
  shows "i \<le> length ks \<and> (\<forall>x \<in> set (take i ks). x < k) \<and> (\<forall>x \<in> set (drop i ks). k < x)"
proof -
  have *: "i \<le> length ks \<and> (\<forall>j<i. ks ! j < k) \<and> (\<forall>j. i \<le> j \<and> j < length ks \<longrightarrow> k < ks ! j)"
    using binary_search_spec [OF assms(1), of k] assms(2) by (simp add: found_or_gap_def)
  then show ?thesis by (auto simp: in_set_conv_nth)
qed

text \<open>The same contract for a sorted vector used as a set.\<close>

locale sorted_set =
  fixes ins :: "'a::linorder \<Rightarrow> 'a list \<Rightarrow> 'a list" and del :: "'a \<Rightarrow> 'a list \<Rightarrow> 'a list"
  assumes ins_sorted: "sorted_wrt (<) v \<Longrightarrow> sorted_wrt (<) (ins x v)"
    and del_sorted: "sorted_wrt (<) v \<Longrightarrow> sorted_wrt (<) (del x v)"
    and ins_elems: "sorted_wrt (<) v \<Longrightarrow> set (ins x v) = insert x (set v)"
    and del_elems: "sorted_wrt (<) v \<Longrightarrow> set (del x v) = set v - {x}"
begin

lemma ins_present: "sorted_wrt (<) v \<Longrightarrow> x \<in> set v \<Longrightarrow> ins x v = v"
  by (rule strict_sorted_equal) (auto simp: ins_sorted ins_elems)

lemma del_not_member: "sorted_wrt (<) v \<Longrightarrow> x \<notin> set v \<Longrightarrow> del x v = v"
  by (rule strict_sorted_equal) (auto simp: del_sorted del_elems)

lemma del_ins_elem: "sorted_wrt (<) v \<Longrightarrow> x \<notin> set v \<Longrightarrow> del x (ins x v) = v"
  by (rule strict_sorted_equal) (auto simp: ins_sorted del_sorted ins_elems del_elems)

lemma del_empty_iff: "sorted_wrt (<) v \<Longrightarrow> del x v = [] \<longleftrightarrow> set v \<subseteq> {x}"
  using del_elems [of v x] by (metis Diff_eq_empty_iff set_empty)

end

lemma wf_table_append:
  "wf_table (a @ b) \<longleftrightarrow> wf_table a \<and> wf_table b \<and> (\<forall>x \<in> fst ` set a. \<forall>y \<in> fst ` set b. x < y)"
  by (auto simp: wf_table_def sorted_wrt_append)

lemma map_of_insert_at:
  "k \<notin> fst ` set a \<Longrightarrow> map_of (a @ (k, v) # b) = (map_of (a @ b))(k \<mapsto> v)"
  by (induction a) (auto simp: fun_eq_iff)

lemma wf_table_split:
  assumes "wf_table t" and "i < length t"
  obtains a b where "t = a @ t ! i # b" "a = take i t" "b = drop (Suc i) t"
    "\<forall>x \<in> fst ` set a. x < fst (t ! i)" "\<forall>x \<in> fst ` set b. fst (t ! i) < x"
    "wf_table a" "wf_table b" "\<forall>x \<in> fst ` set a. \<forall>y \<in> fst ` set b. x < y"
proof -
  have t: "t = take i t @ t ! i # drop (Suc i) t" using assms(2) by (rule id_take_nth_drop)
  obtain k v where kv: "t ! i = (k, v)" by fastforce
  have "wf_table (take i t @ (k, v) # drop (Suc i) t)" using assms(1) t kv by simp
  then show ?thesis
    using that [OF t refl refl] kv by (auto simp: wf_table_append wf_table_Cons)
qed

lemma binary_search_gap:
  assumes "wf_table v" and "binary_search (map fst v) key = Inl i"
  shows "\<forall>x \<in> fst ` set (take i v). x < key" and "\<forall>x \<in> fst ` set (drop i v). key < x"
  using binary_search_Inl [of "map fst v" key i] assms
  by (auto simp: wf_table_def take_map drop_map)

end
