(* ===== verification/Snapshot.thy ===== *)
theory Snapshot
  imports Model Tables
begin

text \<open>
  The in-memory read model (\<open>src/src/snapshot.rs\<close>): sorted vectors kept by binary search, the
  operations a committed batch applies, and the queries.  An \<open>OrdMap\<close> is an ordered table of
  theory \<open>Tables\<close>, an \<open>OrdSet\<close> a strictly sorted list, a \<open>HashMap\<close> an association list used only
  through its lookups (\<open>AList.update\<close>, \<open>AList.delete\<close>, \<^const>\<open>map_of\<close>).

  The invariant \<open>snap_inv\<close> says that the index by id is exactly the inverse of the version table;
  the section on operations shows that every operation keeps it.
\<close>

datatype scope = ScGlobal | ScContext string | ScSubject string string

section \<open>Sorted vectors\<close>

definition small_insert :: "'k::linorder \<Rightarrow> 'v \<Rightarrow> ('k \<times> 'v) list \<Rightarrow> ('k \<times> 'v) list" where
  "small_insert key val v =
    (case binary_search (map fst v) key of
       Inr i \<Rightarrow> v[i := (fst (v ! i), val)]
     | Inl i \<Rightarrow> take i v @ (key, val) # drop i v)"

definition small_remove :: "'k::linorder \<Rightarrow> ('k \<times> 'v) list \<Rightarrow> ('k \<times> 'v) list" where
  "small_remove key v =
    (case binary_search (map fst v) key of
       Inr i \<Rightarrow> take i v @ drop (i + 1) v
     | Inl _ \<Rightarrow> v)"

definition set_insert :: "'a::linorder \<Rightarrow> 'a list \<Rightarrow> 'a list" where
  "set_insert x v =
    (case binary_search v x of Inr _ \<Rightarrow> v | Inl i \<Rightarrow> take i v @ x # drop i v)"

definition set_remove :: "'a::linorder \<Rightarrow> 'a list \<Rightarrow> 'a list" where
  "set_remove x v =
    (case binary_search v x of Inr i \<Rightarrow> take i v @ drop (i + 1) v | Inl _ \<Rightarrow> v)"

section \<open>State and operations\<close>

datatype op =
    OpPutSchema string u32 schema_record bool
  | OpDeleteSchema string u32
  | OpPutVersion string string u32 version_record
  | OpDeleteVersion string string u32 u32
  | OpPutRefby string string u32 u32
  | OpDeleteRefby string string u32 u32
  | OpSetNextId string u32
  | OpDeleteContext string
  | OpPutConfig scope config_record
  | OpDeleteConfig scope
  | OpPutMode scope mode
  | OpDeleteMode scope
  | OpSetLogSeq u64

record ctx_state =
  subjects :: "(string \<times> (u32 \<times> version_record) list) list"
  usages :: "(u32 \<times> (string \<times> u32) list) list"
  fingerprints :: "(string \<times> u32) list"
  refby :: "((string \<times> u32) \<times> u32 list) list"
  cs_next_id :: "u32 option"

definition ctx_default :: ctx_state where
  "ctx_default = \<lparr>subjects = [], usages = [], fingerprints = [], refby = [], cs_next_id = None\<rparr>"

record snapshot =
  ctxs :: "(string \<times> ctx_state) list"
  known_contexts :: "string list"
  config :: "(scope \<times> config_record) list"
  has_aliases :: bool
  modes :: "(scope \<times> mode) list"
  snap_log_seq :: u64

definition snapshot_default :: snapshot where
  "snapshot_default = \<lparr>ctxs = [], known_contexts = [], config = [], has_aliases = False,
     modes = [], snap_log_seq = 0\<rparr>"

text \<open>\<open>ctx_mut\<close>: the context's state, created empty when missing, updated in place.\<close>

definition ctx_state_of :: "snapshot \<Rightarrow> string \<Rightarrow> ctx_state" where
  "ctx_state_of s ctx = unwrap_or (map_of (ctxs s) ctx) ctx_default"

definition ctx_mut :: "string \<Rightarrow> (ctx_state \<Rightarrow> ctx_state) \<Rightarrow> snapshot \<Rightarrow> snapshot" where
  "ctx_mut ctx f s = s\<lparr>ctxs := om_update ctx (f (ctx_state_of s ctx)) (ctxs s)\<rparr>"

definition names_alias :: "config_record \<Rightarrow> bool" where
  "names_alias c = is_some_and (cf_alias c) (\<lambda>a. a \<noteq> [])"

definition find_version :: "u32 \<Rightarrow> (u32 \<times> version_record) list \<Rightarrow> version_record option" where
  "find_version v vs = map_option snd (find (\<lambda>p. fst p = v) vs)"

definition put_version_ctx :: "string \<Rightarrow> u32 \<Rightarrow> version_record \<Rightarrow> ctx_state \<Rightarrow> ctx_state" where
  "put_version_ctx subject version rec c =
    (let old = (case map_of (subjects c) subject of
           None \<Rightarrow> None
         | Some vs \<Rightarrow> (case find_version version vs of
             None \<Rightarrow> None
           | Some r \<Rightarrow> if vr_id r \<noteq> vr_id rec then Some (vr_id r) else None));
       us = (case old of
           None \<Rightarrow> usages c
         | Some old_id \<Rightarrow> (case map_of (usages c) old_id of
             None \<Rightarrow> usages c
           | Some u \<Rightarrow> AList.update old_id (set_remove (subject, version) u) (usages c)));
       vs = unwrap_or (map_of (subjects c) subject) [];
       u = unwrap_or (map_of us (vr_id rec)) []
     in c\<lparr>subjects := om_update subject (small_insert version rec vs) (subjects c),
         usages := AList.update (vr_id rec) (set_insert (subject, version) u) us\<rparr>)"

definition delete_version_ctx :: "string \<Rightarrow> u32 \<Rightarrow> u32 \<Rightarrow> ctx_state \<Rightarrow> ctx_state" where
  "delete_version_ctx subject version i c =
    c\<lparr>subjects := (case map_of (subjects c) subject of
          None \<Rightarrow> subjects c
        | Some vs \<Rightarrow> (let vs' = small_remove version vs in
            if vs' = [] then om_delete subject (subjects c)
            else om_update subject vs' (subjects c))),
      usages := (case map_of (usages c) i of
          None \<Rightarrow> usages c
        | Some u \<Rightarrow> (let u' = set_remove (subject, version) u in
            if u' = [] then AList.delete i (usages c)
            else AList.update i u' (usages c)))\<rparr>"

definition put_refby_ctx :: "string \<Rightarrow> u32 \<Rightarrow> u32 \<Rightarrow> ctx_state \<Rightarrow> ctx_state" where
  "put_refby_ctx subject version i c =
    c\<lparr>refby := AList.update (subject, version)
        (set_insert i (unwrap_or (map_of (refby c) (subject, version)) [])) (refby c)\<rparr>"

definition delete_refby_ctx :: "string \<Rightarrow> u32 \<Rightarrow> u32 \<Rightarrow> ctx_state \<Rightarrow> ctx_state" where
  "delete_refby_ctx subject version i c =
    c\<lparr>refby := (case map_of (refby c) (subject, version) of
          None \<Rightarrow> refby c
        | Some rs \<Rightarrow> (let rs' = set_remove i rs in
            if rs' = [] then AList.delete (subject, version) (refby c)
            else AList.update (subject, version) rs' (refby c)))\<rparr>"

fun apply_op :: "op \<Rightarrow> snapshot \<Rightarrow> snapshot" where
  "apply_op (OpDeleteSchema ctx i) s = s"
| "apply_op (OpPutSchema ctx i rec index) s =
    (if index
     then ctx_mut ctx (\<lambda>c. c\<lparr>fingerprints := AList.update (sr_fingerprint rec) i (fingerprints c)\<rparr>) s
     else s)"
| "apply_op (OpPutVersion ctx subject version rec) s =
    ctx_mut ctx (put_version_ctx subject version rec)
      (s\<lparr>known_contexts := set_insert ctx (known_contexts s)\<rparr>)"
| "apply_op (OpDeleteVersion ctx subject version i) s =
    ctx_mut ctx (delete_version_ctx subject version i) s"
| "apply_op (OpPutRefby ctx subject version i) s = ctx_mut ctx (put_refby_ctx subject version i) s"
| "apply_op (OpDeleteRefby ctx subject version i) s = ctx_mut ctx (delete_refby_ctx subject version i) s"
| "apply_op (OpSetNextId ctx next) s = ctx_mut ctx (\<lambda>c. c\<lparr>cs_next_id := Some next\<rparr>) s"
| "apply_op (OpDeleteContext ctx) s = s\<lparr>known_contexts := set_remove ctx (known_contexts s)\<rparr>"
| "apply_op (OpPutConfig sc rec) s =
    s\<lparr>has_aliases := has_aliases s \<or> names_alias rec, config := AList.update sc rec (config s)\<rparr>"
| "apply_op (OpDeleteConfig sc) s =
    (let cfg = AList.delete sc (config s) in
     s\<lparr>config := cfg,
       has_aliases := (if has_aliases s then list_ex (\<lambda>p. names_alias (snd p)) cfg else has_aliases s)\<rparr>)"
| "apply_op (OpPutMode sc m) s = s\<lparr>modes := AList.update sc m (modes s)\<rparr>"
| "apply_op (OpDeleteMode sc) s = s\<lparr>modes := AList.delete sc (modes s)\<rparr>"
| "apply_op (OpSetLogSeq seq) s = s\<lparr>snap_log_seq := seq\<rparr>"

section \<open>Queries\<close>

definition snap_get_version :: "snapshot \<Rightarrow> string \<Rightarrow> string \<Rightarrow> u32 \<Rightarrow> version_record option" where
  "snap_get_version s ctx subject version =
    (case map_of (ctxs s) ctx of
       None \<Rightarrow> None
     | Some c \<Rightarrow> (case map_of (subjects c) subject of
         None \<Rightarrow> None
       | Some vs \<Rightarrow> find_version version vs))"

definition snap_list_versions :: "snapshot \<Rightarrow> string \<Rightarrow> string \<Rightarrow> (u32 \<times> version_record) list" where
  "snap_list_versions s ctx subject =
    (case map_of (ctxs s) ctx of
       None \<Rightarrow> []
     | Some c \<Rightarrow> unwrap_or (map_of (subjects c) subject) [])"

definition snap_list_subject_names :: "snapshot \<Rightarrow> string \<Rightarrow> string list" where
  "snap_list_subject_names s ctx =
    (case map_of (ctxs s) ctx of None \<Rightarrow> [] | Some c \<Rightarrow> map fst (subjects c))"

definition snap_id_usages :: "snapshot \<Rightarrow> string \<Rightarrow> u32 \<Rightarrow> (string \<times> u32) list" where
  "snap_id_usages s ctx i =
    (case map_of (ctxs s) ctx of None \<Rightarrow> [] | Some c \<Rightarrow> unwrap_or (map_of (usages c) i) [])"

definition snap_referenced_by :: "snapshot \<Rightarrow> string \<Rightarrow> string \<Rightarrow> u32 \<Rightarrow> u32 list" where
  "snap_referenced_by s ctx subject version =
    (case map_of (ctxs s) ctx of
       None \<Rightarrow> []
     | Some c \<Rightarrow> unwrap_or (map_of (refby c) (subject, version)) [])"

definition snap_id_for_fingerprint :: "snapshot \<Rightarrow> string \<Rightarrow> string \<Rightarrow> u32 option" where
  "snap_id_for_fingerprint s ctx fp =
    (case map_of (ctxs s) ctx of None \<Rightarrow> None | Some c \<Rightarrow> map_of (fingerprints c) fp)"

definition snap_next_id :: "snapshot \<Rightarrow> string \<Rightarrow> u32" where
  "snap_next_id s ctx =
    unwrap_or (case map_of (ctxs s) ctx of None \<Rightarrow> None | Some c \<Rightarrow> cs_next_id c) 1"

definition snap_list_contexts :: "snapshot \<Rightarrow> string list" where
  "snap_list_contexts s =
    (let out = known_contexts s;
         out = (if list_ex (\<lambda>c. c = DEFAULT_CONTEXT) out then out else DEFAULT_CONTEXT # out)
     in sort out)"

definition snap_get_config :: "snapshot \<Rightarrow> scope \<Rightarrow> config_record option" where
  "snap_get_config s sc = map_of (config s) sc"

definition snap_get_mode :: "snapshot \<Rightarrow> scope \<Rightarrow> mode option" where
  "snap_get_mode s sc = map_of (modes s) sc"

lemmas snap_query_defs [model_defs] = snap_get_version_def snap_list_versions_def
  snap_list_subject_names_def snap_id_usages_def snap_referenced_by_def snap_id_for_fingerprint_def
  snap_next_id_def snap_get_config_def snap_get_mode_def

section \<open>The invariant\<close>

definition version_of :: "ctx_state \<Rightarrow> string \<Rightarrow> u32 \<Rightarrow> version_record option" where
  "version_of c subject version =
    (case map_of (subjects c) subject of None \<Rightarrow> None | Some vs \<Rightarrow> map_of vs version)"

definition usages_of :: "ctx_state \<Rightarrow> u32 \<Rightarrow> (string \<times> u32) list" where
  "usages_of c i = unwrap_or (map_of (usages c) i) []"

definition refby_of :: "ctx_state \<Rightarrow> string \<times> u32 \<Rightarrow> u32 list" where
  "refby_of c k = unwrap_or (map_of (refby c) k) []"

definition ctx_inv :: "ctx_state \<Rightarrow> bool" where
  "ctx_inv c \<longleftrightarrow>
     wf_table (subjects c)
     \<and> (\<forall>s vs. map_of (subjects c) s = Some vs \<longrightarrow> wf_table vs \<and> vs \<noteq> [])
     \<and> (\<forall>i. sorted_wrt (<) (usages_of c i))
     \<and> (\<forall>i s v. (s, v) \<in> set (usages_of c i) \<longleftrightarrow> (\<exists>r. version_of c s v = Some r \<and> vr_id r = i))
     \<and> (\<forall>k. sorted_wrt (<) (refby_of c k))"

definition snap_inv :: "snapshot \<Rightarrow> bool" where
  "snap_inv s \<longleftrightarrow>
     wf_table (ctxs s)
     \<and> (\<forall>ctx. ctx_inv (ctx_state_of s ctx))
     \<and> sorted_wrt (<) (known_contexts s)
     \<and> (\<forall>ctx. subjects (ctx_state_of s ctx) \<noteq> [] \<longrightarrow> ctx \<in> set (known_contexts s))
     \<and> (\<forall>sc r. map_of (config s) sc = Some r \<and> names_alias r \<longrightarrow> has_aliases s)"

text \<open>An operation carries what it removes: the id of a deleted version is the one stored, and a
  context is only forgotten when it has no subject left.\<close>

fun op_ok :: "op \<Rightarrow> snapshot \<Rightarrow> bool" where
  "op_ok (OpDeleteVersion ctx subject version i) s =
    (case snap_get_version s ctx subject version of None \<Rightarrow> True | Some r \<Rightarrow> vr_id r = i)"
| "op_ok (OpDeleteContext ctx) s = (snap_list_subject_names s ctx = [])"
| "op_ok _ s = True"

fun apply_ops :: "op list \<Rightarrow> snapshot \<Rightarrow> snapshot" where
  "apply_ops [] s = s"
| "apply_ops (x # xs) s = apply_ops xs (apply_op x s)"

fun ops_ok :: "op list \<Rightarrow> snapshot \<Rightarrow> bool" where
  "ops_ok [] s = True"
| "ops_ok (x # xs) s = (op_ok x s \<and> ops_ok xs (apply_op x s))"

text \<open>A small history used by the examples.\<close>

definition sample_ops :: "op list" where
  "sample_ops =
    [OpPutVersion ''.'' ''b'' 1 \<lparr>vr_id = 7, vr_deleted = False, vr_ts = 0\<rparr>,
     OpPutVersion ''.'' ''a'' 2 \<lparr>vr_id = 7, vr_deleted = False, vr_ts = 0\<rparr>,
     OpPutVersion ''.'' ''a'' 1 \<lparr>vr_id = 8, vr_deleted = True, vr_ts = 0\<rparr>,
     OpDeleteVersion ''.'' ''b'' 1 7]"

section \<open>The vectors meet the table contract\<close>

lemma small_insert_Inr:
  assumes "wf_table v" and "binary_search (map fst v) key = Inr i"
  shows "small_insert key val v = take i v @ (key, val) # drop (Suc i) v"
    and "i < length v" and "fst (v ! i) = key"
proof -
  have "i < length (map fst v) \<and> map fst v ! i = key"
    using assms binary_search_Inr [of "map fst v" key i] by (simp add: wf_table_def)
  then show i: "i < length v" and k: "fst (v ! i) = key" by auto
  show "small_insert key val v = take i v @ (key, val) # drop (Suc i) v"
    using assms(2) i k by (simp add: small_insert_def upd_conv_take_nth_drop)
qed

lemma small_insert_spec:
  assumes "wf_table v"
  shows "wf_table (small_insert key val v) \<and> map_of (small_insert key val v) = (map_of v)(key \<mapsto> val)"
proof (cases "binary_search (map fst v) key")
  case (Inr i)
  note ins = small_insert_Inr [OF assms Inr]
  obtain a b where v: "v = a @ v ! i # b" and ab: "a = take i v" "b = drop (Suc i) v"
    "\<forall>x \<in> fst ` set a. x < fst (v ! i)" "\<forall>x \<in> fst ` set b. fst (v ! i) < x"
    "wf_table a" "wf_table b" "\<forall>x \<in> fst ` set a. \<forall>y \<in> fst ` set b. x < y"
    using wf_table_split [OF assms ins(2)] by blast
  obtain w where "v ! i = (key, w)" using ins(3) by (cases "v ! i") auto
  moreover have "key \<notin> fst ` set a" using ab ins(3) by auto
  ultimately have "map_of v = (map_of (a @ b))(key \<mapsto> w)"
    using v map_of_insert_at by metis
  moreover have "map_of (a @ (key, val) # b) = (map_of (a @ b))(key \<mapsto> val)"
    using \<open>key \<notin> fst ` set a\<close> by (rule map_of_insert_at)
  moreover have "wf_table (a @ (key, val) # b)"
    using ab ins(3) by (auto simp: wf_table_append wf_table_Cons)
  ultimately show ?thesis using ins(1) ab by simp
next
  case (Inl i)
  have eq: "small_insert key val v = take i v @ (key, val) # drop i v"
    using Inl by (simp add: small_insert_def)
  note gap = binary_search_gap [OF assms Inl]
  have "wf_table (take i v)" "wf_table (drop i v)"
    using assms wf_table_append [of "take i v" "drop i v"] by auto
  then have "wf_table (take i v @ (key, val) # drop i v)"
    using gap by (fastforce simp: wf_table_append wf_table_Cons)
  moreover have "map_of (take i v @ (key, val) # drop i v) = (map_of (take i v @ drop i v))(key \<mapsto> val)"
    using gap by (intro map_of_insert_at) auto
  ultimately show ?thesis using eq by simp
qed

lemma small_remove_spec:
  assumes "wf_table v"
  shows "wf_table (small_remove key v) \<and> map_of (small_remove key v) = (map_of v)(key := None)"
proof (cases "binary_search (map fst v) key")
  case (Inr i)
  note ins = small_insert_Inr [OF assms Inr]
  obtain a b where v: "v = a @ v ! i # b" and ab: "a = take i v" "b = drop (Suc i) v"
    "\<forall>x \<in> fst ` set a. x < fst (v ! i)" "\<forall>x \<in> fst ` set b. fst (v ! i) < x"
    "wf_table a" "wf_table b" "\<forall>x \<in> fst ` set a. \<forall>y \<in> fst ` set b. x < y"
    using wf_table_split [OF assms ins(2)] by blast
  obtain w where "v ! i = (key, w)" using ins(3) by (cases "v ! i") auto
  moreover have key: "key \<notin> fst ` set a" "key \<notin> fst ` set b" using ab ins(3) by auto
  ultimately have "map_of v = (map_of (a @ b))(key \<mapsto> w)"
    using v map_of_insert_at by metis
  moreover have "map_of (a @ b) key = None" using key by (simp add: map_of_eq_None_iff image_Un del: map_of_append)
  moreover have "small_remove key v = a @ b" using Inr ab by (simp add: small_remove_def)
  ultimately show ?thesis using ab by (auto simp: wf_table_append fun_eq_iff)
next
  case (Inl i)
  have "v = take i v @ drop i v" by simp
  then have "key \<notin> fst ` set v"
    using binary_search_gap [OF assms Inl] by (metis UnE image_Un less_irrefl set_append)
  then have "map_of v key = None" by (simp add: map_of_eq_None_iff)
  moreover have "small_remove key v = v" using Inl by (simp add: small_remove_def)
  ultimately show ?thesis using assms by (auto simp: fun_eq_iff)
qed

interpretation small: sorted_table small_insert small_remove
  by unfold_locales (simp_all add: small_insert_spec small_remove_spec)

lemma set_insert_spec:
  assumes "sorted_wrt (<) v"
  shows "sorted_wrt (<) (set_insert x v) \<and> set (set_insert x v) = insert x (set v)"
proof (cases "binary_search v x")
  case (Inr i)
  then show ?thesis
    using binary_search_Inr [OF assms Inr] assms by (auto simp: set_insert_def)
next
  case (Inl i)
  have parts: "sorted_wrt (<) (take i v)" "sorted_wrt (<) (drop i v)"
    using assms sorted_wrt_append [of "(<)" "take i v" "drop i v"] by auto
  have "set v = set (take i v) \<union> set (drop i v)"
    by (metis append_take_drop_id set_append)
  then show ?thesis
    using binary_search_Inl [OF assms Inl] Inl parts
    by (fastforce simp: set_insert_def sorted_wrt_append)
qed

lemma set_remove_spec:
  assumes "sorted_wrt (<) v"
  shows "sorted_wrt (<) (set_remove x v) \<and> set (set_remove x v) = set v - {x}"
proof (cases "binary_search v x")
  case (Inr i)
  have i: "i < length v" "v ! i = x" using binary_search_Inr [OF assms Inr] by auto
  then have v: "v = take i v @ x # drop (Suc i) v" using id_take_nth_drop by metis
  then have "sorted_wrt (<) (take i v @ x # drop (Suc i) v)" using assms by simp
  then have s: "sorted_wrt (<) (take i v @ drop (Suc i) v)"
    "x \<notin> set (take i v)" "x \<notin> set (drop (Suc i) v)"
    by (auto simp: sorted_wrt_append)
  moreover have "set v = insert x (set (take i v) \<union> set (drop (Suc i) v))"
    by (subst v) simp
  ultimately show ?thesis using Inr by (auto simp: set_remove_def)
next
  case (Inl i)
  have "set v = set (take i v) \<union> set (drop i v)"
    by (metis append_take_drop_id set_append)
  then have "x \<notin> set v" using binary_search_Inl [OF assms Inl] by auto
  then show ?thesis using Inl assms by (simp add: set_remove_def)
qed

interpretation small_set: sorted_set set_insert set_remove
  by unfold_locales (simp_all add: set_insert_spec set_remove_spec)

section \<open>Queries read the context state\<close>

lemma find_version_map_of: "find_version v vs = map_of vs v"
  unfolding find_version_def by (induction vs) auto

lemma ctx_default_simps [simp]:
  "subjects ctx_default = []" "usages ctx_default = []" "fingerprints ctx_default = []"
  "refby ctx_default = []" "cs_next_id ctx_default = None"
  by (simp_all add: ctx_default_def)

lemma queries_ctx_state:
  "snap_get_version s ctx subject version = version_of (ctx_state_of s ctx) subject version"
  "snap_list_versions s ctx subject = unwrap_or (map_of (subjects (ctx_state_of s ctx)) subject) []"
  "snap_list_subject_names s ctx = map fst (subjects (ctx_state_of s ctx))"
  "snap_id_usages s ctx i = usages_of (ctx_state_of s ctx) i"
  "snap_referenced_by s ctx subject version = refby_of (ctx_state_of s ctx) (subject, version)"
  "snap_id_for_fingerprint s ctx fp = map_of (fingerprints (ctx_state_of s ctx)) fp"
  "snap_next_id s ctx = unwrap_or (cs_next_id (ctx_state_of s ctx)) 1"
  by (simp_all add: snap_query_defs ctx_state_of_def version_of_def usages_of_def refby_of_def
      find_version_map_of split: option.splits)

lemma ctx_mut_simps [simp]:
  "ctx_state_of (ctx_mut ctx f s) ctx' = (if ctx' = ctx then f (ctx_state_of s ctx) else ctx_state_of s ctx')"
  "known_contexts (ctx_mut ctx f s) = known_contexts s"
  "config (ctx_mut ctx f s) = config s"
  "has_aliases (ctx_mut ctx f s) = has_aliases s"
  "modes (ctx_mut ctx f s) = modes s"
  "snap_log_seq (ctx_mut ctx f s) = snap_log_seq s"
  by (simp_all add: ctx_mut_def ctx_state_of_def map_of_om_update)

lemma ctx_state_of_update [simp]:
  "ctx_state_of (s\<lparr>known_contexts := a\<rparr>) ctx = ctx_state_of s ctx"
  "ctx_state_of (s\<lparr>config := b\<rparr>) ctx = ctx_state_of s ctx"
  "ctx_state_of (s\<lparr>has_aliases := d\<rparr>) ctx = ctx_state_of s ctx"
  "ctx_state_of (s\<lparr>modes := e\<rparr>) ctx = ctx_state_of s ctx"
  "ctx_state_of (s\<lparr>snap_log_seq := g\<rparr>) ctx = ctx_state_of s ctx"
  by (simp_all add: ctx_state_of_def)

lemma wf_ctxs_ctx_mut [simp]: "wf_table (ctxs s) \<Longrightarrow> wf_table (ctxs (ctx_mut ctx f s))"
  by (simp add: ctx_mut_def om_update_wf)

section \<open>Versions and usages under the operations\<close>

lemma ctx_invD:
  assumes "ctx_inv c"
  shows "wf_table (subjects c)"
    and "map_of (subjects c) s = Some vs \<Longrightarrow> wf_table vs"
    and "map_of (subjects c) s = Some vs \<Longrightarrow> vs \<noteq> []"
    and "sorted_wrt (<) (usages_of c i)"
    and "(s, v) \<in> set (usages_of c i) \<longleftrightarrow> (\<exists>r. version_of c s v = Some r \<and> vr_id r = i)"
    and "sorted_wrt (<) (refby_of c k)"
  using assms unfolding ctx_inv_def by (blast, blast, blast, blast, blast, blast)

lemma ctx_inv_default [simp]: "ctx_inv ctx_default"
  by (simp add: ctx_inv_def usages_of_def refby_of_def version_of_def)

lemma wf_versions: "ctx_inv c \<Longrightarrow> wf_table (unwrap_or (map_of (subjects c) s) [])"
  using ctx_invD(2) by (cases "map_of (subjects c) s") auto

lemma version_of_put:
  assumes "ctx_inv c"
  shows "version_of (put_version_ctx s v r c) s' v' = (if s' = s \<and> v' = v then Some r else version_of c s' v')"
  using small.ins_lookup [OF wf_versions [OF assms, of s], of v r]
  by (auto simp: put_version_ctx_def Let_def version_of_def map_of_om_update split: option.splits)

lemma subjects_put:
  assumes "ctx_inv c"
  shows "wf_table (subjects (put_version_ctx s v r c))"
    and "map_of (subjects (put_version_ctx s v r c)) s' = Some vs \<Longrightarrow> wf_table vs \<and> vs \<noteq> []"
    and "subjects (put_version_ctx s v r c) \<noteq> []"
  using assms ctx_invD(1,2,3) [OF assms] small.ins_wf [OF wf_versions [OF assms, of s], of v r]
    small.ins_nonempty [OF wf_versions [OF assms, of s], of v r]
    om.ins_nonempty [OF ctx_invD(1) [OF assms]]
  by (auto simp: put_version_ctx_def Let_def om_update_wf map_of_om_update split: if_splits)

lemma set_remove_Nil [simp]: "set_remove x [] = []"
  by (simp add: set_remove_def binary_search_def bsearch.simps)

lemma usages_put:
  assumes "ctx_inv c"
  shows "sorted_wrt (<) (usages_of (put_version_ctx s v r c) i)"
    and "set (usages_of (put_version_ctx s v r c) i) =
      (if i = vr_id r then insert (s, v) (set (usages_of c i)) else set (usages_of c i) - {(s, v)})"
proof -
  define old where "old = (case version_of c s v of None \<Rightarrow> None
      | Some r0 \<Rightarrow> if vr_id r0 \<noteq> vr_id r then Some (vr_id r0) else None)"
  define us where "us = (case old of None \<Rightarrow> usages c
         | Some old_id \<Rightarrow> (case map_of (usages c) old_id of None \<Rightarrow> usages c
           | Some u \<Rightarrow> AList.update old_id (set_remove (s, v) u) (usages c)))"
  have put: "usages (put_version_ctx s v r c) =
      AList.update (vr_id r) (set_insert (s, v) (unwrap_or (map_of us (vr_id r)) [])) us"
    by (simp add: put_version_ctx_def Let_def us_def old_def version_of_def find_version_map_of
        split: option.splits)
  have us_of: "unwrap_or (map_of us j) [] =
      (if old = Some j then set_remove (s, v) (usages_of c j) else usages_of c j)" for j
    by (auto simp: us_def usages_of_def update_conv split: option.splits)
  have old_no: "old \<noteq> Some (vr_id r)" by (auto simp: old_def split: option.splits if_splits)
  have of: "usages_of (put_version_ctx s v r c) i =
      (if i = vr_id r then set_insert (s, v) (usages_of c i)
       else if old = Some i then set_remove (s, v) (usages_of c i) else usages_of c i)"
    using old_no by (simp add: put usages_of_def [of "put_version_ctx s v r c"] update_conv us_of)
  have not_used: "(s, v) \<notin> set (usages_of c i)" if "i \<noteq> vr_id r" "old \<noteq> Some i"
    using that ctx_invD(5) [OF assms] by (auto simp: old_def split: option.splits if_splits)
  show "sorted_wrt (<) (usages_of (put_version_ctx s v r c) i)"
    using ctx_invD(4) [OF assms] by (simp add: of small_set.ins_sorted small_set.del_sorted)
  show "set (usages_of (put_version_ctx s v r c) i) =
      (if i = vr_id r then insert (s, v) (set (usages_of c i)) else set (usages_of c i) - {(s, v)})"
    using ctx_invD(4) [OF assms] not_used
    by (auto simp: of small_set.ins_elems small_set.del_elems)
qed

lemma refby_put_version [simp]: "refby_of (put_version_ctx s v r c) k = refby_of c k"
  by (simp add: put_version_ctx_def refby_of_def Let_def)

lemma put_version_ctx_inv:
  assumes "ctx_inv c"
  shows "ctx_inv (put_version_ctx s v r c)"
  unfolding ctx_inv_def
proof (intro conjI allI impI)
  fix i s' v'
  show "(s', v') \<in> set (usages_of (put_version_ctx s v r c) i)
      \<longleftrightarrow> (\<exists>r'. version_of (put_version_ctx s v r c) s' v' = Some r' \<and> vr_id r' = i)"
    using ctx_invD(5) [OF assms, of s' v' i]
    by (auto simp: usages_put(2) [OF assms] version_of_put [OF assms])
qed (use subjects_put [OF assms] usages_put(1) [OF assms] ctx_invD(6) [OF assms] in auto)

section \<open>Deleting a version\<close>

lemma version_of_delete:
  assumes "ctx_inv c"
  shows "version_of (delete_version_ctx s v i c) s' v' =
    (if s' = s \<and> v' = v then None else version_of c s' v')"
proof (cases "map_of (subjects c) s")
  case None
  then show ?thesis by (auto simp: delete_version_ctx_def version_of_def)
next
  case (Some vs)
  have wf: "wf_table vs" using ctx_invD(2) [OF assms Some] .
  show ?thesis
  proof (cases "small_remove v vs = []")
    case True
    then have "map_of vs v'' = None" if "v'' \<noteq> v" for v''
      using small.del_lookup [OF wf, of v] that by (metis fun_upd_other map_of.simps(1))
    then show ?thesis
      using Some True by (auto simp: delete_version_ctx_def version_of_def map_of_om_delete
          ctx_invD(1) [OF assms])
  next
    case False
    then show ?thesis
      using Some small.del_lookup [OF wf, of v]
      by (auto simp: delete_version_ctx_def version_of_def map_of_om_update Let_def)
  qed
qed

lemma subjects_delete:
  assumes "ctx_inv c"
  shows "wf_table (subjects (delete_version_ctx s v i c))"
    and "map_of (subjects (delete_version_ctx s v i c)) s' = Some vs \<Longrightarrow> wf_table vs \<and> vs \<noteq> []"
    and "subjects (delete_version_ctx s v i c) \<noteq> [] \<Longrightarrow> subjects c \<noteq> []"
  using ctx_invD(1,2,3) [OF assms]
  by (auto simp: delete_version_ctx_def Let_def om_update_wf om_delete_wf map_of_om_update
      map_of_om_delete small.del_wf split: if_splits option.splits)

lemma usages_delete:
  assumes "ctx_inv c"
  shows "usages_of (delete_version_ctx s v i c) j =
    (if j = i then set_remove (s, v) (usages_of c j) else usages_of c j)"
  by (auto simp: delete_version_ctx_def usages_of_def Let_def update_conv delete_conv
      split: option.splits)

lemma refby_delete_version [simp]: "refby_of (delete_version_ctx s v i c) k = refby_of c k"
  by (simp add: delete_version_ctx_def refby_of_def)

lemma delete_version_ctx_inv:
  assumes "ctx_inv c" and "\<And>r. version_of c s v = Some r \<Longrightarrow> vr_id r = i"
  shows "ctx_inv (delete_version_ctx s v i c)"
  unfolding ctx_inv_def
proof (intro conjI allI impI)
  fix j s' v'
  show "(s', v') \<in> set (usages_of (delete_version_ctx s v i c) j)
      \<longleftrightarrow> (\<exists>r'. version_of (delete_version_ctx s v i c) s' v' = Some r' \<and> vr_id r' = j)"
    using ctx_invD(5) [OF assms(1), of s' v' j] assms(2) ctx_invD(4) [OF assms(1)]
    by (auto simp: usages_delete [OF assms(1)] version_of_delete [OF assms(1)] small_set.del_elems)
qed (use subjects_delete [OF assms(1)] ctx_invD(4,6) [OF assms(1)] in
      \<open>auto simp: usages_delete [OF assms(1)] small_set.del_sorted\<close>)

section \<open>Reference edges\<close>

lemma refby_put:
  "refby_of (put_refby_ctx s v i c) k =
    (if k = (s, v) then set_insert i (refby_of c k) else refby_of c k)"
  by (auto simp: put_refby_ctx_def refby_of_def update_conv)

lemma refby_delete:
  "refby_of (delete_refby_ctx s v i c) k =
    (if k = (s, v) then set_remove i (refby_of c k) else refby_of c k)"
  by (auto simp: delete_refby_ctx_def refby_of_def Let_def update_conv delete_conv split: option.splits)

lemma refby_ctx_other [simp]:
  "subjects (put_refby_ctx s v i c) = subjects c" "usages (put_refby_ctx s v i c) = usages c"
  "fingerprints (put_refby_ctx s v i c) = fingerprints c" "cs_next_id (put_refby_ctx s v i c) = cs_next_id c"
  "subjects (delete_refby_ctx s v i c) = subjects c" "usages (delete_refby_ctx s v i c) = usages c"
  "fingerprints (delete_refby_ctx s v i c) = fingerprints c"
  "cs_next_id (delete_refby_ctx s v i c) = cs_next_id c"
  by (simp_all add: put_refby_ctx_def delete_refby_ctx_def)


lemma ctx_inv_refby:
  "ctx_inv c \<Longrightarrow> ctx_inv (put_refby_ctx s v i c)" "ctx_inv c \<Longrightarrow> ctx_inv (delete_refby_ctx s v i c)"
  by (auto simp: ctx_inv_def usages_of_def version_of_def refby_put refby_delete
      small_set.ins_sorted small_set.del_sorted)

lemma ctx_inv_update [simp]:
  "ctx_inv (c\<lparr>fingerprints := f\<rparr>) = ctx_inv c" "ctx_inv (c\<lparr>cs_next_id := n\<rparr>) = ctx_inv c"
  by (simp_all add: ctx_inv_def usages_of_def version_of_def refby_of_def)

section \<open>Every operation keeps the invariant\<close>

lemma snap_invD:
  assumes "snap_inv s"
  shows "wf_table (ctxs s)" and "ctx_inv (ctx_state_of s ctx)" and "sorted_wrt (<) (known_contexts s)"
    and "subjects (ctx_state_of s ctx) \<noteq> [] \<Longrightarrow> ctx \<in> set (known_contexts s)"
    and "map_of (config s) sc = Some r \<Longrightarrow> names_alias r \<Longrightarrow> has_aliases s"
  using assms by (auto simp: snap_inv_def)

lemma snap_inv_default [simp]: "snap_inv snapshot_default"
  by (simp add: snap_inv_def snapshot_default_def ctx_state_of_def)

text \<open>Updating one context's state keeps the invariant if the new state is consistent and no
  subject appears in a context that is not known.\<close>

lemma ctx_mut_inv:
  assumes "snap_inv s" and "ctx_inv (f (ctx_state_of s ctx))"
    and "subjects (f (ctx_state_of s ctx)) \<noteq> [] \<Longrightarrow> ctx \<in> set (known_contexts s)"
  shows "snap_inv (ctx_mut ctx f s)"
  using assms snap_invD [OF assms(1)] by (auto simp: snap_inv_def)

lemma known_insert_inv: "snap_inv s \<Longrightarrow> snap_inv (s\<lparr>known_contexts := set_insert ctx (known_contexts s)\<rparr>)"
  using snap_invD(3) [of s] by (auto simp: snap_inv_def small_set.ins_sorted small_set.ins_elems)

lemma names_alias_list_ex:
  "map_of cfg sc = Some r \<Longrightarrow> names_alias r \<Longrightarrow> list_ex (\<lambda>p. names_alias (snd p)) cfg"
  by (auto simp: list_ex_iff dest!: map_of_SomeD intro!: bexI [of _ "(sc, r)"])

lemma apply_op_inv:
  assumes "snap_inv s" and "op_ok x s"
  shows "snap_inv (apply_op x s)"
proof (cases x)
  case (OpPutVersion ctx subject version r)
  let ?s = "s\<lparr>known_contexts := set_insert ctx (known_contexts s)\<rparr>"
  have inv: "snap_inv ?s" using assms(1) by (rule known_insert_inv)
  have "ctx \<in> set (known_contexts ?s)"
    using snap_invD(3) [OF assms(1)] by (simp add: small_set.ins_elems)
  then show ?thesis
    using OpPutVersion ctx_mut_inv [OF inv] put_version_ctx_inv [OF snap_invD(2) [OF inv]] by simp
next
  case (OpDeleteVersion ctx subject version i)
  have "ctx_inv (delete_version_ctx subject version i (ctx_state_of s ctx))"
    using assms(2) OpDeleteVersion
    by (intro delete_version_ctx_inv snap_invD(2) [OF assms(1)]) (simp add: queries_ctx_state)
  then show ?thesis
    using OpDeleteVersion snap_invD(4) [OF assms(1)]
      subjects_delete(3) [OF snap_invD(2) [OF assms(1)]]
    by (auto intro!: ctx_mut_inv [OF assms(1)])
next
  case (OpDeleteContext ctx)
  then show ?thesis
    using assms snap_invD(3,4) [OF assms(1)]
    by (auto simp: snap_inv_def small_set.del_sorted small_set.del_elems queries_ctx_state)
next
  case (OpDeleteConfig sc)
  have "has_aliases (apply_op x s)"
    if "map_of (config (apply_op x s)) sc' = Some r" "names_alias r" for sc' r
    using that snap_invD(5) [OF assms(1), of sc' r] names_alias_list_ex [OF that] OpDeleteConfig
    by (auto simp: Let_def delete_conv split: if_splits)
  then show ?thesis using assms OpDeleteConfig by (auto simp: snap_inv_def Let_def)
qed (use assms snap_invD(2,4) [OF assms(1)] in
      \<open>auto simp: ctx_inv_refby snap_inv_def update_conv intro!: ctx_mut_inv\<close>)

lemma apply_ops_inv: "snap_inv s \<Longrightarrow> ops_ok xs s \<Longrightarrow> snap_inv (apply_ops xs s)"
  by (induction xs arbitrary: s) (auto intro: apply_op_inv)


section \<open>Properties\<close>

text \<open>The binary-search vectors are ordered maps and sets: on strictly sorted input, inserting and
  removing by binary search gives exactly the ordered table with that key set or removed, keeps
  it strictly sorted, and the vector of a set gains or loses exactly the one element.\<close>

theorem small_vectors_correct:
  assumes "wf_table v" and "sorted_wrt (<) u"
  shows "small_insert k x v = om_update k x v \<and> small_remove k v = om_delete k v
    \<and> wf_table (small_insert k x v) \<and> wf_table (small_remove k v)
    \<and> sorted_wrt (<) (set_insert y u) \<and> set (set_insert y u) = insert y (set u)
    \<and> sorted_wrt (<) (set_remove y u) \<and> set (set_remove y u) = set u - {y}"
  using assms by (simp add: small.ins_reference small.del_reference om_update_wf om_delete_wf
      small_set.ins_sorted small_set.ins_elems small_set.del_sorted small_set.del_elems)

theorem small_vectors_correct_witness:
  "small_insert 2 CHR ''b'' [(1, CHR ''a''), (3 :: int, CHR ''c'')] = om_update 2 CHR ''b'' [(1, CHR ''a''), (3, CHR ''c'')]
    \<and> small_remove 2 [(1, CHR ''a''), (3 :: int, CHR ''c'')] = om_delete 2 [(1, CHR ''a''), (3, CHR ''c'')]
    \<and> wf_table (small_insert 2 CHR ''b'' [(1, CHR ''a''), (3 :: int, CHR ''c'')])
    \<and> wf_table (small_remove 2 [(1, CHR ''a''), (3 :: int, CHR ''c'')])
    \<and> sorted_wrt (<) (set_insert 5 [4, 7 :: int]) \<and> set (set_insert 5 [4, 7 :: int]) = insert 5 (set [4, 7])
    \<and> sorted_wrt (<) (set_remove 5 [4, 7 :: int]) \<and> set (set_remove 5 [4, 7 :: int]) = set [4, 7] - {5}"
  by (rule small_vectors_correct) (simp_all add: wf_table_def)

text \<open>C27. The id index is exact: after any sequence of operations from the empty snapshot in which a
  deleted version names its own id and only empty contexts are forgotten, the usages listed for an
  id are exactly the subject versions stored under it, without repetition and in order, in every
  context; and the versions of a subject are listed in strictly increasing order.\<close>

theorem id_usages_exact:
  assumes "ops_ok xs snapshot_default"
  shows "((subject, version) \<in> set (snap_id_usages (apply_ops xs snapshot_default) ctx i)
      \<longleftrightarrow> (\<exists>r. snap_get_version (apply_ops xs snapshot_default) ctx subject version = Some r \<and> vr_id r = i))
    \<and> sorted_wrt (<) (snap_id_usages (apply_ops xs snapshot_default) ctx i)
    \<and> sorted_wrt (<) (map fst (snap_list_versions (apply_ops xs snapshot_default) ctx subject))"
proof -
  have "snap_inv (apply_ops xs snapshot_default)" using assms by (intro apply_ops_inv) simp
  then have inv: "ctx_inv (ctx_state_of (apply_ops xs snapshot_default) ctx)" by (rule snap_invD)
  show ?thesis
    using ctx_invD(4,5) [OF inv] wf_versions [OF inv, of subject]
    by (simp add: queries_ctx_state wf_table_def)
qed

theorem id_usages_exact_witness:
  "((''a'', 2) \<in> set (snap_id_usages (apply_ops sample_ops snapshot_default) ''.'' 7)
      \<longleftrightarrow> (\<exists>r. snap_get_version (apply_ops sample_ops snapshot_default) ''.'' ''a'' 2 = Some r \<and> vr_id r = 7))
    \<and> sorted_wrt (<) (snap_id_usages (apply_ops sample_ops snapshot_default) ''.'' 7)
    \<and> sorted_wrt (<) (map fst (snap_list_versions (apply_ops sample_ops snapshot_default) ''.'' ''a''))"
proof (rule id_usages_exact)
  show "ops_ok sample_ops snapshot_default" by code_simp
qed

text \<open>The context listing is complete: after any such sequence of operations it is strictly sorted,
  always names the default context, and names every context that holds a subject.\<close>

theorem list_contexts_complete:
  assumes "ops_ok xs snapshot_default"
  shows "sorted_wrt (<) (snap_list_contexts (apply_ops xs snapshot_default))
    \<and> DEFAULT_CONTEXT \<in> set (snap_list_contexts (apply_ops xs snapshot_default))
    \<and> (snap_list_subject_names (apply_ops xs snapshot_default) ctx \<noteq> []
       \<longrightarrow> ctx \<in> set (snap_list_contexts (apply_ops xs snapshot_default)))"
proof -
  let ?s = "apply_ops xs snapshot_default"
  have inv: "snap_inv ?s" using assms by (intro apply_ops_inv) simp
  have "distinct (known_contexts ?s)"
    using snap_invD(3) [OF inv] by (simp add: strict_sorted_iff)
  then have "distinct (snap_list_contexts ?s)"
    by (auto simp: snap_list_contexts_def Let_def list_ex_iff)
  moreover have "sorted (snap_list_contexts ?s)" by (simp add: snap_list_contexts_def Let_def)
  moreover have "set (snap_list_contexts ?s) = insert DEFAULT_CONTEXT (set (known_contexts ?s))"
    by (auto simp: snap_list_contexts_def Let_def list_ex_iff)
  ultimately show ?thesis
    using snap_invD(4) [OF inv, of ctx] by (auto simp: strict_sorted_iff queries_ctx_state)
qed

theorem list_contexts_complete_witness:
  "sorted_wrt (<) (snap_list_contexts (apply_ops sample_ops snapshot_default))
    \<and> DEFAULT_CONTEXT \<in> set (snap_list_contexts (apply_ops sample_ops snapshot_default))
    \<and> ''.'' \<in> set (snap_list_contexts (apply_ops sample_ops snapshot_default))"
proof -
  have ok: "ops_ok sample_ops snapshot_default" by code_simp
  have "snap_list_subject_names (apply_ops sample_ops snapshot_default) ''.'' \<noteq> []" by code_simp
  then show ?thesis using list_contexts_complete [OF ok, of "''.''"] by blast
qed

end
