(* ===== verification/Bytes.thy ===== *)
theory Bytes
  imports Tables
begin

text \<open>
  Big-endian integers as keys: the bytes \<open>u32::to_be_bytes\<close> and \<open>u64::to_be_bytes\<close> produce, how
  they are read back, and that their byte order is the numeric order, which is what lets the
  store scan versions and log entries in sequence.
\<close>

fun be_bytes :: "nat \<Rightarrow> nat \<Rightarrow> bytes" where
  "be_bytes 0 x = []"
| "be_bytes (Suc n) x = char_of (x div 256 ^ n mod 256) # be_bytes n (x mod 256 ^ n)"

fun of_be :: "bytes \<Rightarrow> nat" where
  "of_be [] = 0"
| "of_be (c # cs) = of_char c * 256 ^ length cs + of_be cs"

definition u32_to_be :: "u32 \<Rightarrow> bytes" where
  "u32_to_be w = be_bytes 4 (unat w)"

definition u64_to_be :: "u64 \<Rightarrow> bytes" where
  "u64_to_be w = be_bytes 8 (unat w)"

section \<open>Facts\<close>

lemma length_be_bytes [simp]: "length (be_bytes n x) = n"
  by (induction n x rule: be_bytes.induct) auto

lemma of_be_be_bytes: "x < 256 ^ n \<Longrightarrow> of_be (be_bytes n x) = x"
proof (induction n arbitrary: x)
  case (Suc n)
  have "x div 256 ^ n < 256"
    using Suc.prems by (simp add: less_mult_imp_div_less mult.commute)
  then have "(of_char (char_of (x div 256 ^ n mod 256) :: char) :: nat) = x div 256 ^ n"
    by simp
  moreover have "of_be (be_bytes n (x mod 256 ^ n)) = x mod 256 ^ n"
    by (intro Suc.IH) simp
  ultimately show ?case using div_mult_mod_eq [of x "256 ^ n"] by simp
qed simp

lemma be_bytes_inj: "x < 256 ^ n \<Longrightarrow> y < 256 ^ n \<Longrightarrow> be_bytes n x = be_bytes n y \<longleftrightarrow> x = y"
  by (metis of_be_be_bytes)

lemma char_of_less_iff:
  "a < 256 \<Longrightarrow> b < 256 \<Longrightarrow> (char_of (a :: nat) :: char) < char_of b \<longleftrightarrow> a < b"
  by (simp add: less_char_def)

text \<open>Byte order is numeric order.\<close>

lemma be_bytes_less_iff:
  "x < 256 ^ n \<Longrightarrow> y < 256 ^ n \<Longrightarrow> be_bytes n x < be_bytes n y \<longleftrightarrow> x < y"
proof (induction n arbitrary: x y)
  case (Suc n)
  define a where "a = x div 256 ^ n"
  define b where "b = y div 256 ^ n"
  have ab: "a < 256" "b < 256"
    using Suc.prems by (auto simp: a_def b_def less_mult_imp_div_less mult.commute)
  have xy: "x = a * 256 ^ n + x mod 256 ^ n" "y = b * 256 ^ n + y mod 256 ^ n"
    unfolding a_def b_def by (rule div_mult_mod_eq [symmetric])+
  have tail: "be_bytes n (x mod 256 ^ n) < be_bytes n (y mod 256 ^ n) \<longleftrightarrow> x mod 256 ^ n < y mod 256 ^ n"
    by (intro Suc.IH) simp_all
  have rem: "x mod 256 ^ n < 256 ^ n" "y mod 256 ^ n < 256 ^ n" by simp_all
  have "x < y" if "a < b"
  proof -
    have "x < a * 256 ^ n + 256 ^ n" using xy(1) rem(1) by linarith
    also have "\<dots> = (a + 1) * 256 ^ n" by simp
    also have "\<dots> \<le> b * 256 ^ n" using that by (intro mult_right_mono) auto
    also have "\<dots> \<le> y" using xy(2) by simp
    finally show ?thesis .
  qed
  moreover have "y < x" if "b < a"
  proof -
    have "y < b * 256 ^ n + 256 ^ n" using xy(2) rem(2) by linarith
    also have "\<dots> = (b + 1) * 256 ^ n" by simp
    also have "\<dots> \<le> a * 256 ^ n" using that by (intro mult_right_mono) auto
    also have "\<dots> \<le> x" using xy(1) by simp
    finally show ?thesis .
  qed
  moreover have "x < y \<longleftrightarrow> x mod 256 ^ n < y mod 256 ^ n" if "a = b"
    using xy that by (metis nat_add_left_cancel_less)
  ultimately have "x < y \<longleftrightarrow> a < b \<or> (a = b \<and> x mod 256 ^ n < y mod 256 ^ n)"
    by (metis linorder_less_linear not_less_iff_gr_or_eq)
  moreover have "(char_of a :: char) = char_of b \<longleftrightarrow> a = b"
    using ab by (metis char_of_less_iff less_irrefl linorder_neqE_nat)
  ultimately show ?case
    using ab tail by (simp add: a_def [symmetric] b_def [symmetric] char_of_less_iff)
qed simp

lemma unat_u32_bound: "unat (w :: u32) < 256 ^ 4"
  using unsigned_less [of w] by simp

lemma unat_u64_bound: "unat (w :: u64) < 256 ^ 8"
  using unsigned_less [of w] by simp

lemma length_u32_to_be [simp]: "length (u32_to_be w) = 4"
  by (simp add: u32_to_be_def)

lemma length_u64_to_be [simp]: "length (u64_to_be w) = 8"
  by (simp add: u64_to_be_def)

lemma u32_to_be_inj [simp]: "u32_to_be v = u32_to_be w \<longleftrightarrow> v = w"
  unfolding u32_to_be_def by (simp add: be_bytes_inj unat_u32_bound [simplified] word_unat_eq_iff)

lemma u64_to_be_inj [simp]: "u64_to_be v = u64_to_be w \<longleftrightarrow> v = w"
  unfolding u64_to_be_def by (simp add: be_bytes_inj unat_u64_bound [simplified] word_unat_eq_iff)

lemma u32_to_be_less [simp]: "u32_to_be v < u32_to_be w \<longleftrightarrow> v < w"
  unfolding u32_to_be_def by (simp add: be_bytes_less_iff unat_u32_bound [simplified] word_less_nat_alt)

lemma u64_to_be_less [simp]: "u64_to_be v < u64_to_be w \<longleftrightarrow> v < w"
  unfolding u64_to_be_def by (simp add: be_bytes_less_iff unat_u64_bound [simplified] word_less_nat_alt)

lemma of_be_u32: "(of_nat (of_be (u32_to_be w)) :: u32) = w"
  by (simp add: u32_to_be_def of_be_be_bytes unat_u32_bound [simplified])

lemma of_be_u64: "(of_nat (of_be (u64_to_be w)) :: u64) = w"
  by (simp add: u64_to_be_def of_be_be_bytes unat_u64_bound [simplified])

text \<open>Keys with a given prefix are a contiguous range of the byte order.\<close>

lemma append_left_less [simp]: "(p :: bytes) @ a < p @ b \<longleftrightarrow> a < b"
  by (induction p) auto

lemma append_left_le [simp]: "(p :: bytes) @ a \<le> p @ b \<longleftrightarrow> a \<le> b"
  by (induction p) auto

lemma starts_with_ge: "starts_with k p \<Longrightarrow> p \<le> k"
  using append_left_le [of p "[]"] by (auto simp: starts_with_iff)

lemma prefix_range:
  assumes "p \<le> k" and "k \<le> k'" and "starts_with k' (p :: bytes)"
  shows "starts_with k p"
  using assms
proof (induction p arbitrary: k k')
  case Nil
  then show ?case by (simp add: starts_with_def)
next
  case (Cons c p)
  obtain t where k': "k' = c # p @ t" using Cons.prems(3) by (auto simp: starts_with_iff)
  obtain d l where k: "k = d # l" using Cons.prems(1) by (cases k) auto
  have "d = c" using Cons.prems(1,2) k k' by (auto simp: Cons_le_Cons)
  then have "p \<le> l" "l \<le> p @ t" using Cons.prems(1,2) k k' by auto
  then have "starts_with l p" using Cons.IH [of l "p @ t"] by simp
  then show ?case using \<open>d = c\<close> k by (simp add: starts_with_def)
qed

end
