(* ===== verification/ModeGate.thy ===== *)
theory ModeGate
  imports Model
begin

text \<open>
  The mode table (\<open>src/src/modegate.rs\<close>): what kind of change a request is, and whether the mode
  in scope lets it through.  \<open>Allowed\<close> is the token only \<open>check\<close> produces and every write of the
  store demands.
\<close>

datatype intent = IWrite | IImport | IModify | ISetMode | INotSchemaState

datatype allowed = Allowed

definition gate_refuse :: "string \<Rightarrow> string \<Rightarrow> allowed api_result" where
  "gate_refuse scope what = Inl (operation_not_permitted (''Subject '' @ scope @ '' is '' @ what))"

fun gate_check :: "intent \<Rightarrow> mode \<Rightarrow> string \<Rightarrow> allowed api_result" where
  "gate_check ISetMode _ scope = Inr Allowed"
| "gate_check INotSchemaState _ scope = Inr Allowed"
| "gate_check _ Readonly scope = gate_refuse scope ''in read-only mode''"
| "gate_check _ ReadonlyOverride scope = gate_refuse scope ''in read-only mode''"
| "gate_check IWrite Readwrite scope = Inr Allowed"
| "gate_check IWrite Import scope = gate_refuse scope ''not in read-write mode''"
| "gate_check IImport Import scope = Inr Allowed"
| "gate_check IImport Readwrite scope = gate_refuse scope ''not in import mode''"
| "gate_check IModify Readwrite scope = Inr Allowed"
| "gate_check IModify Import scope = Inr Allowed"

definition schema_state_intent :: "intent \<Rightarrow> bool" where
  "schema_state_intent i = (i \<in> {IWrite, IImport, IModify})"

lemma gate_check_ok_iff:
  "is_ok (gate_check i m scope) \<longleftrightarrow>
    i \<in> {ISetMode, INotSchemaState} \<or> (i = IWrite \<and> m = Readwrite) \<or> (i = IImport \<and> m = Import)
    \<or> (i = IModify \<and> m \<in> {Readwrite, Import})"
  by (cases i; cases m) (simp_all add: gate_refuse_def)

lemma gate_check_error:
  "gate_check i m scope = Inl e \<Longrightarrow> err_code e = 42205 \<and> schema_state_intent i"
  by (cases i; cases m) (auto simp: gate_refuse_def schema_state_intent_def model_defs)

lemma gate_check_readonly:
  "schema_state_intent i \<Longrightarrow> m \<in> {Readonly, ReadonlyOverride} \<Longrightarrow> \<exists>e. gate_check i m scope = Inl e"
  by (cases i; cases m) (auto simp: gate_refuse_def schema_state_intent_def)

end
