(* ===== verification/Store.thy ===== *)
theory Store
  imports Snapshot Bytes ModeGate
begin

text \<open>
  Persistence (\<open>src/src/store.rs\<close>): key encoding, one container's view of the column families,
  loading the snapshot, the change log, and transactions.

  A column family is an ordered table from key bytes to row values; RocksDB's contract, that a
  batch is applied as a whole and in order and that iteration is in byte order of the keys, is
  what \<open>write_batch\<close> and \<open>scan_prefix\<close> express.  Rows that hold a serialized record hold the
  record itself here (\<open>serde_json\<close> is a library of the program); integer rows hold their bytes.
  Names are valid UTF-8, so \<open>String::from_utf8_lossy\<close> is the identity on them.  \<open>None\<close> and \<open>LoadPanic\<close>
  stand for the panic of a slice that is too short.
\<close>

section \<open>Keys\<close>

abbreviation NUL :: char where
  "NUL \<equiv> CHR 0x00"

definition FORMAT_VERSION_KEY :: bytes where
  "FORMAT_VERSION_KEY = NUL # ''format_version''"

definition TENANT_KEY_PREFIX :: bytes where
  "TENANT_KEY_PREFIX = NUL # ''container/''"

definition FORMAT_VERSION :: u32 where
  "FORMAT_VERSION = 2"

fun scope_key :: "scope \<Rightarrow> bytes" where
  "scope_key ScGlobal = ''G''"
| "scope_key (ScContext ctx) = ''C'' @ ctx"
| "scope_key (ScSubject ctx s) = ''S'' @ ctx @ [NUL] @ s"

definition scope_from_key :: "bytes \<Rightarrow> scope option" where
  "scope_from_key k = (case k of
      [] \<Rightarrow> None
    | b # rest \<Rightarrow>
        if b = CHR ''G'' then Some ScGlobal
        else if b = CHR ''C'' then Some (ScContext rest)
        else if b = CHR ''S'' then map_option (\<lambda>(ctx, subject). ScSubject ctx subject) (split_once NUL rest)
        else None)"

definition split_ctx :: "bytes \<Rightarrow> (string \<times> bytes) option" where
  "split_ctx k = split_once NUL k"

definition split_subject_version :: "bytes \<Rightarrow> (string \<times> u32 \<times> bytes) option" where
  "split_subject_version k = (case split_once NUL k of
      None \<Rightarrow> None
    | Some (subject, rest) \<Rightarrow>
        if length rest < 4 then None
        else Some (subject, of_nat (of_be (take 4 rest)), drop 4 rest))"

definition schema_key :: "string \<Rightarrow> u32 \<Rightarrow> bytes" where
  "schema_key ctx i = ctx @ [NUL] @ u32_to_be i"

definition fp_key :: "string \<Rightarrow> string \<Rightarrow> bytes" where
  "fp_key ctx fp = ctx @ [NUL] @ fp"

definition subject_prefix :: "string \<Rightarrow> string \<Rightarrow> bytes" where
  "subject_prefix ctx subject = ctx @ [NUL] @ subject @ [NUL]"

definition version_key :: "string \<Rightarrow> string \<Rightarrow> u32 \<Rightarrow> bytes" where
  "version_key ctx subject version = subject_prefix ctx subject @ u32_to_be version"

definition refby_key :: "string \<Rightarrow> string \<Rightarrow> u32 \<Rightarrow> u32 \<Rightarrow> bytes" where
  "refby_key ctx subject version i = version_key ctx subject version @ u32_to_be i"

definition meta_ctx_key :: "string \<Rightarrow> bytes" where
  "meta_ctx_key ctx = ''ctx/'' @ ctx"

definition meta_next_id_key :: "string \<Rightarrow> bytes" where
  "meta_next_id_key ctx = ''next_id/'' @ ctx"

definition LOG_SEQ_KEY :: bytes where
  "LOG_SEQ_KEY = ''log_seq''"

definition LOG_FLOOR_KEY :: bytes where
  "LOG_FLOOR_KEY = ''log_floor''"

definition be_u32 :: "bytes \<Rightarrow> u32 option" where
  "be_u32 b = (if 4 \<le> length b then Some (of_nat (of_be (take 4 b))) else None)"

definition be_u64 :: "bytes \<Rightarrow> u64 option" where
  "be_u64 b = (if 8 \<le> length b then Some (of_nat (of_be (take 8 b))) else None)"

definition try_be_u64 :: "bytes \<Rightarrow> u64 option" where
  "try_be_u64 b = (if 8 \<le> length b then Some (of_nat (of_be (take 8 b))) else None)"

section \<open>The database\<close>

record db =
  tbl_schemas :: "(bytes \<times> schema_record) list"
  tbl_fingerprints :: "(bytes \<times> bytes) list"
  tbl_versions :: "(bytes \<times> version_record) list"
  tbl_refby :: "(bytes \<times> bytes) list"
  tbl_config :: "(bytes \<times> config_record) list"
  tbl_mode :: "(bytes \<times> mode) list"
  tbl_exporters :: "(bytes \<times> exporter_record) list"
  tbl_log :: "(bytes \<times> log_event) list"
  tbl_meta :: "(bytes \<times> bytes) list"

definition db_empty :: db where
  "db_empty = \<lparr>tbl_schemas = [], tbl_fingerprints = [], tbl_versions = [], tbl_refby = [],
     tbl_config = [], tbl_mode = [], tbl_exporters = [], tbl_log = [], tbl_meta = []\<rparr>"

text \<open>One entry of a \<open>WriteBatch\<close>, per column family.\<close>

datatype 'v row = RPut bytes 'v | RDel bytes | RDelRange bytes bytes

fun write_row :: "'v row \<Rightarrow> (bytes \<times> 'v) list \<Rightarrow> (bytes \<times> 'v) list" where
  "write_row (RPut k v) t = om_update k v t"
| "write_row (RDel k) t = om_delete k t"
| "write_row (RDelRange from to) t = filter (\<lambda>(k, _). \<not> (from \<le> k \<and> k < to)) t"

datatype batch_op =
    BSchemas "schema_record row"
  | BFingerprints "bytes row"
  | BVersions "version_record row"
  | BRefby "bytes row"
  | BConfig "config_record row"
  | BMode "mode row"
  | BExporters "exporter_record row"
  | BLog "log_event row"
  | BMeta "bytes row"

fun write_op :: "batch_op \<Rightarrow> db \<Rightarrow> db" where
  "write_op (BSchemas r) d = d\<lparr>tbl_schemas := write_row r (tbl_schemas d)\<rparr>"
| "write_op (BFingerprints r) d = d\<lparr>tbl_fingerprints := write_row r (tbl_fingerprints d)\<rparr>"
| "write_op (BVersions r) d = d\<lparr>tbl_versions := write_row r (tbl_versions d)\<rparr>"
| "write_op (BRefby r) d = d\<lparr>tbl_refby := write_row r (tbl_refby d)\<rparr>"
| "write_op (BConfig r) d = d\<lparr>tbl_config := write_row r (tbl_config d)\<rparr>"
| "write_op (BMode r) d = d\<lparr>tbl_mode := write_row r (tbl_mode d)\<rparr>"
| "write_op (BExporters r) d = d\<lparr>tbl_exporters := write_row r (tbl_exporters d)\<rparr>"
| "write_op (BLog r) d = d\<lparr>tbl_log := write_row r (tbl_log d)\<rparr>"
| "write_op (BMeta r) d = d\<lparr>tbl_meta := write_row r (tbl_meta d)\<rparr>"

fun write_batch :: "batch_op list \<Rightarrow> db \<Rightarrow> db" where
  "write_batch [] d = d"
| "write_batch (b # bs) d = write_batch bs (write_op b d)"

section \<open>One container's view\<close>

definition store_key :: "tenant_id \<Rightarrow> bytes \<Rightarrow> bytes" where
  "store_key t rest = key_prefix t @ rest"

definition scan_prefix :: "tenant_id \<Rightarrow> (bytes \<times> 'v) list \<Rightarrow> bytes \<Rightarrow> (bytes \<times> 'v) list" where
  "scan_prefix t tbl prefix =
    (let full = store_key t prefix in
     map (\<lambda>(k, v). (drop (length (key_prefix t)) k, v))
       (takeWhile (\<lambda>(k, _). starts_with k full) (dropWhile (\<lambda>(k, _). k < full) tbl)))"

definition store_register :: "tenant_id \<Rightarrow> db \<Rightarrow> db" where
  "store_register t d = write_batch [BMeta (RPut (TENANT_KEY_PREFIX @ tenant_name t) [])] d"

definition store_get_schema :: "tenant_id \<Rightarrow> db \<Rightarrow> string \<Rightarrow> u32 \<Rightarrow> schema_record option" where
  "store_get_schema t d ctx i = map_of (tbl_schemas d) (store_key t (schema_key ctx i))"

definition get_meta :: "tenant_id \<Rightarrow> db \<Rightarrow> bytes \<Rightarrow> bytes option" where
  "get_meta t d key = map_of (tbl_meta d) (store_key t key)"

text \<open>The outer option is the panic on a short row.\<close>

definition meta_u64 :: "tenant_id \<Rightarrow> db \<Rightarrow> bytes \<Rightarrow> u64 option" where
  "meta_u64 t d key = (case get_meta t d key of None \<Rightarrow> Some 0 | Some v \<Rightarrow> be_u64 v)"

definition store_log_seq :: "tenant_id \<Rightarrow> db \<Rightarrow> u64 option" where
  "store_log_seq t d = meta_u64 t d LOG_SEQ_KEY"

definition store_log_floor :: "tenant_id \<Rightarrow> db \<Rightarrow> u64 option" where
  "store_log_floor t d = meta_u64 t d LOG_FLOOR_KEY"

definition prune_log :: "tenant_id \<Rightarrow> u64 \<Rightarrow> db \<Rightarrow> db option" where
  "prune_log t before d = (case store_log_floor t d of
      None \<Rightarrow> None
    | Some floor \<Rightarrow>
        if before \<le> floor then Some d
        else Some (write_batch
          [BLog (RDelRange (store_key t (u64_to_be 0)) (store_key t (u64_to_be before))),
           BMeta (RPut (store_key t LOG_FLOOR_KEY) (u64_to_be before))] d))"

fun read_log_rows :: "bytes \<Rightarrow> nat \<Rightarrow> (bytes \<times> log_event) list \<Rightarrow> (u64 \<times> log_event) list
    \<Rightarrow> (u64 \<times> log_event) list" where
  "read_log_rows prefix limit [] out = out"
| "read_log_rows prefix limit ((k, v) # rows) out =
    (if \<not> starts_with k prefix then out
     else (case try_be_u64 (drop (length prefix) k) of
         None \<Rightarrow> out
       | Some seq \<Rightarrow>
           let out = out @ [(seq, v)] in
           if limit \<le> length out then out else read_log_rows prefix limit rows out))"

definition read_log :: "tenant_id \<Rightarrow> db \<Rightarrow> u64 \<Rightarrow> nat \<Rightarrow> (u64 \<times> log_event) list" where
  "read_log t d from limit =
    (let start = store_key t (u64_to_be from) in
     read_log_rows (key_prefix t) limit (dropWhile (\<lambda>(k, _). k < start) (tbl_log d)) [])"

definition store_list_exporters :: "tenant_id \<Rightarrow> db \<Rightarrow> exporter_record list" where
  "store_list_exporters t d = map snd (scan_prefix t (tbl_exporters d) [])"

definition store_get_exporter :: "tenant_id \<Rightarrow> db \<Rightarrow> string \<Rightarrow> exporter_record option" where
  "store_get_exporter t d name = map_of (tbl_exporters d) (store_key t name)"

definition store_put_exporter :: "tenant_id \<Rightarrow> exporter_record \<Rightarrow> allowed \<Rightarrow> db \<Rightarrow> db" where
  "store_put_exporter t rec a d =
    write_batch [BExporters (RPut (store_key t (ei_name (er_info rec))) rec)] d"

section \<open>Loading the snapshot\<close>

datatype load_error = BadKey string | LoadPanic

fun load_versions :: "(bytes \<times> version_record) list \<Rightarrow> snapshot \<Rightarrow> load_error + snapshot" where
  "load_versions [] s = Inr s"
| "load_versions ((k, rec) # rows) s = (case split_ctx k of
      None \<Rightarrow> Inl (BadKey ''bad version key'')
    | Some (ctx, rest) \<Rightarrow> (case split_subject_version rest of
        None \<Rightarrow> Inl (BadKey ''bad version key'')
      | Some (subject, version, _) \<Rightarrow>
          load_versions rows (apply_op (OpPutVersion ctx subject version rec) s)))"

fun load_fingerprints :: "(bytes \<times> bytes) list \<Rightarrow> snapshot \<Rightarrow> load_error + snapshot" where
  "load_fingerprints [] s = Inr s"
| "load_fingerprints ((k, v) # rows) s = (case split_ctx k of
      None \<Rightarrow> Inl (BadKey ''bad fingerprint key'')
    | Some (ctx, fp) \<Rightarrow> (case be_u32 v of
        None \<Rightarrow> Inl LoadPanic
      | Some i \<Rightarrow> load_fingerprints rows
          (ctx_mut ctx (\<lambda>c. c\<lparr>fingerprints := AList.update fp i (fingerprints c)\<rparr>) s)))"

fun load_refby :: "(bytes \<times> bytes) list \<Rightarrow> snapshot \<Rightarrow> load_error + snapshot" where
  "load_refby [] s = Inr s"
| "load_refby ((k, v) # rows) s = (case split_ctx k of
      None \<Rightarrow> Inl (BadKey ''bad refby key'')
    | Some (ctx, rest) \<Rightarrow> (case split_subject_version rest of
        None \<Rightarrow> Inl (BadKey ''bad refby key'')
      | Some (subject, version, tail) \<Rightarrow> (case be_u32 tail of
          None \<Rightarrow> Inl LoadPanic
        | Some i \<Rightarrow> load_refby rows (apply_op (OpPutRefby ctx subject version i) s))))"

fun load_config :: "(bytes \<times> config_record) list \<Rightarrow> snapshot \<Rightarrow> snapshot" where
  "load_config [] s = s"
| "load_config ((k, v) # rows) s = (case scope_from_key k of
      None \<Rightarrow> load_config rows s
    | Some sc \<Rightarrow> load_config rows (apply_op (OpPutConfig sc v) s))"

fun load_mode :: "(bytes \<times> mode) list \<Rightarrow> snapshot \<Rightarrow> snapshot" where
  "load_mode [] s = s"
| "load_mode ((k, v) # rows) s = (case scope_from_key k of
      None \<Rightarrow> load_mode rows s
    | Some sc \<Rightarrow> load_mode rows (apply_op (OpPutMode sc v) s))"

fun load_meta :: "(bytes \<times> bytes) list \<Rightarrow> snapshot \<Rightarrow> load_error + snapshot" where
  "load_meta [] s = Inr s"
| "load_meta ((k, v) # rows) s = (case strip_prefix ''ctx/'' k of
      Some ctx \<Rightarrow> load_meta rows (s\<lparr>known_contexts := set_insert ctx (known_contexts s)\<rparr>)
    | None \<Rightarrow> (case strip_prefix ''next_id/'' k of
        Some ctx \<Rightarrow> (case be_u32 v of
            None \<Rightarrow> Inl LoadPanic
          | Some n \<Rightarrow> load_meta rows (apply_op (OpSetNextId ctx n) s))
      | None \<Rightarrow> load_meta rows s))"

definition load_snapshot :: "tenant_id \<Rightarrow> db \<Rightarrow> load_error + snapshot" where
  "load_snapshot t d =
    and_then (load_versions (scan_prefix t (tbl_versions d) []) snapshot_default) (\<lambda>s.
    and_then (load_fingerprints (scan_prefix t (tbl_fingerprints d) []) s) (\<lambda>s.
    and_then (load_refby (scan_prefix t (tbl_refby d) []) s) (\<lambda>s.
    let s = load_config (scan_prefix t (tbl_config d) []) s;
        s = load_mode (scan_prefix t (tbl_mode d) []) s;
        s = s\<lparr>known_contexts := []\<rparr>
    in and_then (load_meta (scan_prefix t (tbl_meta d) []) s) (\<lambda>s.
       case store_log_seq t d of
         None \<Rightarrow> Inl LoadPanic
       | Some q \<Rightarrow> Inr (s\<lparr>snap_log_seq := q\<rparr>)))))"

section \<open>Transactions\<close>

record tx =
  tx_store :: tenant_id
  tx_batch :: "batch_op list"
  tx_log_seq :: u64
  tx_log_dirty :: bool
  tx_ops :: "op list"

definition store_tx :: "tenant_id \<Rightarrow> db \<Rightarrow> tx option" where
  "store_tx t d = (case store_log_seq t d of
      None \<Rightarrow> None
    | Some q \<Rightarrow> Some \<lparr>tx_store = t, tx_batch = [], tx_log_seq = q, tx_log_dirty = False, tx_ops = []\<rparr>)"

definition tx_push :: "batch_op list \<Rightarrow> op list \<Rightarrow> tx \<Rightarrow> tx" where
  "tx_push bs xs x = x\<lparr>tx_batch := tx_batch x @ bs, tx_ops := tx_ops x @ xs\<rparr>"

definition tx_put_schema :: "string \<Rightarrow> u32 \<Rightarrow> schema_record \<Rightarrow> bool \<Rightarrow> allowed \<Rightarrow> tx \<Rightarrow> tx" where
  "tx_put_schema ctx i rec index a x = tx_push
     (BSchemas (RPut (store_key (tx_store x) (schema_key ctx i)) rec)
      # (if index then [BFingerprints (RPut (store_key (tx_store x) (fp_key ctx (sr_fingerprint rec))) (u32_to_be i))]
         else []))
     [OpPutSchema ctx i rec index] x"

definition tx_delete_schema :: "string \<Rightarrow> u32 \<Rightarrow> allowed \<Rightarrow> tx \<Rightarrow> tx" where
  "tx_delete_schema ctx i a x = tx_push
     [BSchemas (RDel (store_key (tx_store x) (schema_key ctx i)))] [OpDeleteSchema ctx i] x"

definition tx_put_version :: "string \<Rightarrow> string \<Rightarrow> u32 \<Rightarrow> version_record \<Rightarrow> allowed \<Rightarrow> tx \<Rightarrow> tx" where
  "tx_put_version ctx subject version rec a x = tx_push
     [BVersions (RPut (store_key (tx_store x) (version_key ctx subject version)) rec),
      BMeta (RPut (store_key (tx_store x) (meta_ctx_key ctx)) [])]
     [OpPutVersion ctx subject version rec] x"

definition tx_delete_version :: "string \<Rightarrow> string \<Rightarrow> u32 \<Rightarrow> u32 \<Rightarrow> allowed \<Rightarrow> tx \<Rightarrow> tx" where
  "tx_delete_version ctx subject version i a x = tx_push
     [BVersions (RDel (store_key (tx_store x) (version_key ctx subject version)))]
     [OpDeleteVersion ctx subject version i] x"

definition tx_put_refby :: "string \<Rightarrow> string \<Rightarrow> u32 \<Rightarrow> u32 \<Rightarrow> tx \<Rightarrow> tx" where
  "tx_put_refby ctx subject version i x = tx_push
     [BRefby (RPut (store_key (tx_store x) (refby_key ctx subject version i)) [])]
     [OpPutRefby ctx subject version i] x"

definition tx_delete_refby :: "string \<Rightarrow> string \<Rightarrow> u32 \<Rightarrow> u32 \<Rightarrow> tx \<Rightarrow> tx" where
  "tx_delete_refby ctx subject version i x = tx_push
     [BRefby (RDel (store_key (tx_store x) (refby_key ctx subject version i)))]
     [OpDeleteRefby ctx subject version i] x"

definition tx_set_next_id :: "string \<Rightarrow> u32 \<Rightarrow> tx \<Rightarrow> tx" where
  "tx_set_next_id ctx next x = tx_push
     [BMeta (RPut (store_key (tx_store x) (meta_next_id_key ctx)) (u32_to_be next))] [OpSetNextId ctx next] x"

definition tx_delete_context :: "string \<Rightarrow> allowed \<Rightarrow> tx \<Rightarrow> tx" where
  "tx_delete_context ctx a x = tx_push
     [BMeta (RDel (store_key (tx_store x) (meta_ctx_key ctx)))] [OpDeleteContext ctx] x"

definition tx_put_config :: "scope \<Rightarrow> config_record \<Rightarrow> allowed \<Rightarrow> tx \<Rightarrow> tx" where
  "tx_put_config sc rec a x = tx_push
     [BConfig (RPut (store_key (tx_store x) (scope_key sc)) rec)] [OpPutConfig sc rec] x"

definition tx_delete_config :: "scope \<Rightarrow> allowed \<Rightarrow> tx \<Rightarrow> tx" where
  "tx_delete_config sc a x = tx_push
     [BConfig (RDel (store_key (tx_store x) (scope_key sc)))] [OpDeleteConfig sc] x"

definition tx_put_mode :: "scope \<Rightarrow> mode \<Rightarrow> allowed \<Rightarrow> tx \<Rightarrow> tx" where
  "tx_put_mode sc m a x = tx_push
     [BMode (RPut (store_key (tx_store x) (scope_key sc)) m)] [OpPutMode sc m] x"

definition tx_delete_mode :: "scope \<Rightarrow> allowed \<Rightarrow> tx \<Rightarrow> tx" where
  "tx_delete_mode sc a x = tx_push
     [BMode (RDel (store_key (tx_store x) (scope_key sc)))] [OpDeleteMode sc] x"

definition tx_put_exporter :: "exporter_record \<Rightarrow> allowed \<Rightarrow> tx \<Rightarrow> tx" where
  "tx_put_exporter rec a x = tx_push
     [BExporters (RPut (store_key (tx_store x) (ei_name (er_info rec))) rec)] [] x"

definition tx_delete_exporter :: "string \<Rightarrow> allowed \<Rightarrow> tx \<Rightarrow> tx" where
  "tx_delete_exporter name a x = tx_push
     [BExporters (RDel (store_key (tx_store x) name))] [] x"

definition tx_append_log :: "log_event \<Rightarrow> tx \<Rightarrow> tx" where
  "tx_append_log ev x =
    (tx_push [BLog (RPut (store_key (tx_store x) (u64_to_be (tx_log_seq x))) ev)] [] x)
      \<lparr>tx_log_seq := tx_log_seq x + 1, tx_log_dirty := True\<rparr>"

definition tx_commit :: "tx \<Rightarrow> db \<Rightarrow> db \<times> op list" where
  "tx_commit x d =
    (let x = (if tx_log_dirty x
              then tx_push [BMeta (RPut (store_key (tx_store x) LOG_SEQ_KEY) (u64_to_be (tx_log_seq x)))]
                     [OpSetLogSeq (tx_log_seq x)] x
              else x)
     in (write_batch (tx_batch x) d, tx_ops x))"

lemmas tx_defs [model_defs] = tx_push_def tx_put_schema_def tx_delete_schema_def tx_put_version_def
  tx_delete_version_def tx_put_refby_def tx_delete_refby_def tx_set_next_id_def tx_delete_context_def
  tx_put_config_def tx_delete_config_def tx_put_mode_def tx_delete_mode_def tx_put_exporter_def
  tx_delete_exporter_def

text \<open>The rows of one container, names that can stand in a key, and scopes whose key can be read back.\<close>

abbreviation view :: "tenant_id \<Rightarrow> (bytes \<times> 'v) list \<Rightarrow> (bytes \<times> 'v) list" where
  "view t tbl \<equiv> scan_prefix t tbl []"

abbreviation nul_free :: "string \<Rightarrow> bool" where
  "nul_free s \<equiv> NUL \<notin> set s"

fun scope_ok :: "scope \<Rightarrow> bool" where
  "scope_ok (ScSubject ctx s) = nul_free ctx"
| "scope_ok _ = True"

section \<open>Scans\<close>

lemma takeWhile_prefix_filter:
  assumes "wf_table tbl" and "\<forall>k \<in> fst ` set tbl. full \<le> k"
  shows "takeWhile (\<lambda>(k, _). starts_with k full) tbl = filter (\<lambda>(k, _). starts_with k full) tbl"
  using assms
proof (induction tbl)
  case (Cons p tbl)
  obtain k v where p: "p = (k, v)" by fastforce
  show ?case
  proof (cases "starts_with k full")
    case True
    then show ?thesis using Cons p by (auto simp: wf_table_Cons)
  next
    case False
    have "\<not> starts_with k' full" if "k' \<in> fst ` set tbl" for k'
      using that False Cons.prems p prefix_range [of full k k'] by (auto simp: wf_table_Cons less_imp_le)
    then have "filter (\<lambda>(k, _). starts_with k full) tbl = []" by (force simp: filter_empty_conv)
    then show ?thesis using False p by simp
  qed
qed simp

lemma scan_filter:
  "wf_table tbl \<Longrightarrow> takeWhile (\<lambda>(k, _). starts_with k full) (dropWhile (\<lambda>(k, _). k < full) tbl)
    = filter (\<lambda>(k, _). starts_with k full) tbl"
proof (induction tbl)
  case (Cons p tbl)
  obtain k v where p: "p = (k, v)" by fastforce
  show ?case
  proof (cases "k < full")
    case True
    then have "\<not> starts_with k full" using starts_with_ge leD by blast
    then show ?thesis using True Cons p by (simp add: wf_table_Cons)
  next
    case False
    then have "\<forall>k' \<in> fst ` set (p # tbl). full \<le> k'"
      using Cons.prems p by (fastforce simp: wf_table_Cons)
    then show ?thesis using takeWhile_prefix_filter [OF Cons.prems] False p by simp
  qed
qed simp

lemma scan_prefix_eq:
  "wf_table tbl \<Longrightarrow> scan_prefix t tbl p =
    map (\<lambda>(k, v). (drop (length (key_prefix t)) k, v)) (filter (\<lambda>(k, _). starts_with k (store_key t p)) tbl)"
  by (simp add: scan_prefix_def Let_def scan_filter)

lemma wf_table_filter: "wf_table tbl \<Longrightarrow> wf_table (filter P tbl)"
  by (auto simp: wf_table_def sorted_wrt_map sorted_wrt_filter)

lemma view_wf:
  assumes "wf_table tbl"
  shows "wf_table (view t tbl)"
proof -
  have "wf_table (map (\<lambda>(k, v). (drop (length p) k, v)) xs)"
    if "wf_table xs" "\<forall>k \<in> fst ` set xs. starts_with k p" for p :: bytes and xs :: "(bytes \<times> 'a) list"
    using that
  proof (induction xs)
    case (Cons x xs)
    obtain k v where x: "x = (k, v)" by fastforce
    have "drop (length p) k < drop (length p) k'" if "k' \<in> fst ` set xs" for k'
    proof -
      obtain a b where "k = p @ a" "k' = p @ b"
        using Cons.prems(2) x \<open>k' \<in> fst ` set xs\<close> by (auto simp: starts_with_iff)
      moreover have "k < k'" using Cons.prems(1) x that by (auto simp: wf_table_Cons)
      ultimately show ?thesis by simp
    qed
    then have "\<forall>q \<in> set xs. drop (length p) k < drop (length p) (fst q)" by simp
    then show ?case using Cons x by (auto simp: wf_table_Cons split_beta)
  qed simp
  then show ?thesis
    using assms wf_table_filter [OF assms] by (fastforce simp: scan_prefix_eq store_key_def)
qed

lemma map_of_strip:
  assumes "\<forall>k \<in> fst ` set xs. starts_with k p"
  shows "map_of (map (\<lambda>(k, v). (drop (length p) k, v)) xs) r = map_of xs (p @ r)"
  using assms by (induction xs) (auto simp: starts_with_iff)

lemma map_of_filter_key: "map_of (filter (\<lambda>(k, _). P k) xs) k = (if P k then map_of xs k else None)"
  by (induction xs) auto

lemma map_of_view:
  assumes "wf_table tbl"
  shows "map_of (view t tbl) r = map_of tbl (store_key t r)"
proof -
  have "map_of (view t tbl) r
      = map_of (filter (\<lambda>(k, _). starts_with k (key_prefix t)) tbl) (key_prefix t @ r)"
    using assms by (subst scan_prefix_eq) (auto simp: store_key_def intro!: map_of_strip)
  then show ?thesis by (simp add: map_of_filter_key store_key_def)
qed

lemma store_key_inj [simp]: "store_key t a = store_key t b \<longleftrightarrow> a = b"
  by (simp add: store_key_def)

lemma view_put:
  "wf_table tbl \<Longrightarrow> map_of (view t (om_update (store_key t k) v tbl)) = (map_of (view t tbl))(k \<mapsto> v)"
  by (rule ext) (simp add: map_of_view om_update_wf map_of_om_update)

lemma view_del:
  "wf_table tbl \<Longrightarrow> map_of (view t (om_delete (store_key t k) tbl)) = (map_of (view t tbl))(k := None)"
  by (rule ext) (simp add: map_of_view om_delete_wf map_of_om_delete)

lemma store_key_other: "wf_tenant t \<Longrightarrow> wf_tenant t' \<Longrightarrow> t \<noteq> t' \<Longrightarrow> store_key t a \<noteq> store_key t' b"
  by (simp add: store_key_def key_prefix_disjoint)

lemma view_other:
  assumes "wf_table tbl" "wf_tenant t" "wf_tenant t'" "t \<noteq> t'"
  shows "view t' (om_update (store_key t k) v tbl) = view t' tbl"
    and "view t' (om_delete (store_key t k) tbl) = view t' tbl"
  using assms store_key_other [OF assms(3,2) assms(4) [symmetric]]
  by (auto intro!: wf_table_ext view_wf om_update_wf om_delete_wf
      simp: fun_eq_iff map_of_view om_update_wf om_delete_wf map_of_om_update map_of_om_delete)

section \<open>Key encoding\<close>

lemma split_ctx_append: "nul_free ctx \<Longrightarrow> split_ctx (ctx @ NUL # r) = Some (ctx, r)"
  by (simp add: split_ctx_def)

lemma split_version_key:
  assumes "nul_free ctx" and "nul_free subject"
  shows "split_ctx (version_key ctx subject version) = Some (ctx, subject @ NUL # u32_to_be version)"
    and "split_subject_version (subject @ NUL # u32_to_be version @ tail) = Some (subject, version, tail)"
  using assms of_be_u32
  by (simp_all add: version_key_def subject_prefix_def split_ctx_append split_subject_version_def)

lemma split_refby_key:
  assumes "nul_free ctx" and "nul_free subject"
  shows "split_ctx (refby_key ctx subject version i) = Some (ctx, subject @ NUL # u32_to_be version @ u32_to_be i)"
  using assms by (simp add: refby_key_def version_key_def subject_prefix_def split_ctx_append)

lemma be_u32_to_be [simp]: "be_u32 (u32_to_be i) = Some i"
  by (simp add: be_u32_def of_be_u32)

lemma be_u64_to_be [simp]: "be_u64 (u64_to_be i) = Some i" "try_be_u64 (u64_to_be i) = Some i"
  by (simp_all add: be_u64_def try_be_u64_def of_be_u64)

lemma schema_key_inj:
  "nul_free c \<Longrightarrow> nul_free c' \<Longrightarrow> schema_key c i = schema_key c' i' \<longleftrightarrow> c = c' \<and> i = i'"
  by (simp add: schema_key_def separated_eq_iff)

lemma fp_key_inj: "nul_free c \<Longrightarrow> nul_free c' \<Longrightarrow> fp_key c f = fp_key c' f' \<longleftrightarrow> c = c' \<and> f = f'"
  by (simp add: fp_key_def separated_eq_iff)

lemma version_key_inj:
  "nul_free c \<Longrightarrow> nul_free c' \<Longrightarrow> nul_free s \<Longrightarrow> nul_free s' \<Longrightarrow>
    version_key c s v = version_key c' s' v' \<longleftrightarrow> c = c' \<and> s = s' \<and> v = v'"
  by (auto simp: version_key_def subject_prefix_def separated_eq_iff)

lemma refby_key_inj:
  "nul_free c \<Longrightarrow> nul_free c' \<Longrightarrow> nul_free s \<Longrightarrow> nul_free s' \<Longrightarrow>
    refby_key c s v i = refby_key c' s' v' i' \<longleftrightarrow> c = c' \<and> s = s' \<and> v = v' \<and> i = i'"
  by (auto simp: refby_key_def version_key_def subject_prefix_def separated_eq_iff)

lemma scope_key_roundtrip: "scope_ok sc \<Longrightarrow> scope_from_key (scope_key sc) = Some sc"
  by (cases sc) (simp_all add: scope_from_key_def)

lemma scope_key_inj: "scope_ok a \<Longrightarrow> scope_ok b \<Longrightarrow> scope_key a = scope_key b \<longleftrightarrow> a = b"
  by (metis option.inject scope_key_roundtrip)

text \<open>C32. Storage keys are unambiguous: for names without byte 0, two keys of a column family are equal
  only if all their components are, a version or reference key splits back into exactly its
  context, subject, version and id, a scope key decodes to its scope, and byte order of version
  keys is version order.\<close>

theorem keys_unambiguous:
  assumes "nul_free c" "nul_free c'" "nul_free s" "nul_free s'" "scope_ok a" "scope_ok b"
  shows "(version_key c s v = version_key c' s' v' \<longleftrightarrow> c = c' \<and> s = s' \<and> v = v')
    \<and> (refby_key c s v i = refby_key c' s' v' i' \<longleftrightarrow> c = c' \<and> s = s' \<and> v = v' \<and> i = i')
    \<and> (schema_key c i = schema_key c' i' \<longleftrightarrow> c = c' \<and> i = i')
    \<and> (fp_key c f = fp_key c' f' \<longleftrightarrow> c = c' \<and> f = f')
    \<and> (scope_key a = scope_key b \<longleftrightarrow> a = b) \<and> scope_from_key (scope_key a) = Some a
    \<and> split_ctx (version_key c s v) = Some (c, s @ NUL # u32_to_be v)
    \<and> split_subject_version (s @ NUL # u32_to_be v @ u32_to_be i) = Some (s, v, u32_to_be i)
    \<and> (version_key c s v < version_key c s v' \<longleftrightarrow> v < v')"
  using assms
  by (simp add: version_key_inj refby_key_inj schema_key_inj fp_key_inj scope_key_inj
      scope_key_roundtrip split_version_key) (simp add: version_key_def)

theorem keys_unambiguous_witness:
  "version_key ''.'' ''a'' 1 \<noteq> version_key ''.'' ''ab'' 1
    \<and> refby_key ''.'' ''a'' 1 2 \<noteq> refby_key ''.'' ''a'' 2 1
    \<and> scope_from_key (scope_key (ScSubject ''.x'' ''a'')) = Some (ScSubject ''.x'' ''a'')
    \<and> version_key ''.'' ''a'' 9 < version_key ''.'' ''a'' 10"
  using keys_unambiguous [of "''.''" "''.''" "''a''" "''ab''" "ScSubject ''.x'' ''a''" ScGlobal 1 1]
    keys_unambiguous [of "''.''" "''.''" "''a''" "''a''" ScGlobal ScGlobal 1 2 2 1]
    keys_unambiguous [of "''.''" "''.''" "''a''" "''a''" ScGlobal ScGlobal 9 10]
  by simp

end
