(* ===== verification/Mirror.thy ===== *)
theory Mirror
  imports Store
begin

text \<open>
  The in-memory snapshot against the persistent rows.  A container's snapshot \<open>mirrors\<close> its rows
  when every query is the lookup of the corresponding row; loading a well-formed database produces
  such a snapshot, two snapshots that mirror the same rows answer every query alike, and every
  transaction step changes rows and snapshot in the same way.
\<close>

section \<open>What the rows of a container say\<close>

definition tables_wf :: "db \<Rightarrow> bool" where
  "tables_wf d \<longleftrightarrow> wf_table (tbl_schemas d) \<and> wf_table (tbl_fingerprints d) \<and> wf_table (tbl_versions d)
     \<and> wf_table (tbl_refby d) \<and> wf_table (tbl_config d) \<and> wf_table (tbl_mode d)
     \<and> wf_table (tbl_exporters d) \<and> wf_table (tbl_log d) \<and> wf_table (tbl_meta d)"

definition rows_ok :: "tenant_id \<Rightarrow> db \<Rightarrow> bool" where
  "rows_ok t d \<longleftrightarrow> tables_wf d
     \<and> (\<forall>k v. map_of (view t (tbl_versions d)) k = Some v
          \<longrightarrow> (\<exists>c s n. nul_free c \<and> nul_free s \<and> k = version_key c s n))
     \<and> (\<forall>k v. map_of (view t (tbl_fingerprints d)) k = Some v
          \<longrightarrow> (\<exists>c f i. nul_free c \<and> k = fp_key c f \<and> v = u32_to_be i))
     \<and> (\<forall>k v. map_of (view t (tbl_refby d)) k = Some v
          \<longrightarrow> (\<exists>c s n i. nul_free c \<and> nul_free s \<and> k = refby_key c s n i))
     \<and> (\<forall>k v. map_of (view t (tbl_config d)) k = Some v \<longrightarrow> (\<exists>sc. scope_ok sc \<and> k = scope_key sc))
     \<and> (\<forall>k v. map_of (view t (tbl_mode d)) k = Some v \<longrightarrow> (\<exists>sc. scope_ok sc \<and> k = scope_key sc))
     \<and> (\<forall>c v. map_of (view t (tbl_meta d)) (meta_next_id_key c) = Some v \<longrightarrow> (\<exists>n. v = u32_to_be n))
     \<and> (\<forall>v. map_of (view t (tbl_meta d)) LOG_SEQ_KEY = Some v \<longrightarrow> (\<exists>q. v = u64_to_be q))"

text \<open>A snapshot mirrors a container's rows: each query is the lookup of the corresponding row.\<close>

definition mirrors :: "tenant_id \<Rightarrow> db \<Rightarrow> snapshot \<Rightarrow> bool" where
  "mirrors t d s \<longleftrightarrow>
     (\<forall>c u v. version_of (ctx_state_of s c) u v =
        (if nul_free c \<and> nul_free u then map_of (view t (tbl_versions d)) (version_key c u v) else None))
     \<and> (\<forall>c f. map_of (fingerprints (ctx_state_of s c)) f =
        (if nul_free c then Option.bind (map_of (view t (tbl_fingerprints d)) (fp_key c f)) be_u32 else None))
     \<and> (\<forall>c u v i. i \<in> set (refby_of (ctx_state_of s c) (u, v)) \<longleftrightarrow>
        nul_free c \<and> nul_free u \<and> map_of (view t (tbl_refby d)) (refby_key c u v i) \<noteq> None)
     \<and> (\<forall>c. cs_next_id (ctx_state_of s c) =
        Option.bind (map_of (view t (tbl_meta d)) (meta_next_id_key c)) be_u32)
     \<and> (\<forall>c. c \<in> set (known_contexts s) \<longleftrightarrow> map_of (view t (tbl_meta d)) (meta_ctx_key c) \<noteq> None)
     \<and> (\<forall>sc. map_of (config s) sc =
        (if scope_ok sc then map_of (view t (tbl_config d)) (scope_key sc) else None))
     \<and> (\<forall>sc. map_of (modes s) sc =
        (if scope_ok sc then map_of (view t (tbl_mode d)) (scope_key sc) else None))"

definition ctxs_inv :: "snapshot \<Rightarrow> bool" where
  "ctxs_inv s \<longleftrightarrow> wf_table (ctxs s) \<and> (\<forall>c. ctx_inv (ctx_state_of s c))"

section \<open>Loading table by table\<close>

lemma put_version_ctx_other [simp]:
  "fingerprints (put_version_ctx s v r c) = fingerprints c"
  "refby (put_version_ctx s v r c) = refby c"
  "cs_next_id (put_version_ctx s v r c) = cs_next_id c"
  by (simp_all add: put_version_ctx_def Let_def)

lemma put_version_op:
  assumes "ctxs_inv s"
  shows "ctxs_inv (apply_op (OpPutVersion ctx subject version r) s)"
    and "version_of (ctx_state_of (apply_op (OpPutVersion ctx subject version r) s) c) u v =
      (if c = ctx \<and> u = subject \<and> v = version then Some r else version_of (ctx_state_of s c) u v)"
  using assms by (auto simp: ctxs_inv_def put_version_ctx_inv version_of_put)


lemma load_versions_spec:
  assumes "ctxs_inv s" and "distinct (map fst rows)"
    and "\<forall>k \<in> fst ` set rows. \<exists>c u n. nul_free c \<and> nul_free u \<and> k = version_key c u n"
  shows "\<exists>s'. load_versions rows s = Inr s' \<and> ctxs_inv s'
    \<and> (\<forall>c u v. version_of (ctx_state_of s' c) u v =
        (if nul_free c \<and> nul_free u then opt_or (map_of rows (version_key c u v)) (version_of (ctx_state_of s c) u v)
         else version_of (ctx_state_of s c) u v))
    \<and> (\<forall>c. fingerprints (ctx_state_of s' c) = fingerprints (ctx_state_of s c)
         \<and> refby (ctx_state_of s' c) = refby (ctx_state_of s c)
         \<and> cs_next_id (ctx_state_of s' c) = cs_next_id (ctx_state_of s c))
    \<and> config s' = config s \<and> modes s' = modes s \<and> has_aliases s' = has_aliases s"
  using assms
proof (induction rows arbitrary: s)
  case (Cons p rows)
  obtain k r where p: "p = (k, r)" by fastforce
  obtain c u n where k: "nul_free c" "nul_free u" "k = version_key c u n"
    using Cons.prems(3) p by auto
  let ?s = "apply_op (OpPutVersion c u n r) s"
  have none: "map_of rows k = None" using Cons.prems(2) p by (simp add: map_of_eq_None_iff)
  have step: "load_versions (p # rows) s = load_versions rows ?s"
    using k split_version_key(1) [OF k(1,2)] split_version_key(2) [OF k(1,2), where tail = "[]"] p by simp
  have put: "version_of (ctx_state_of ?s c') u' v' =
      (if c' = c \<and> u' = u \<and> v' = n then Some r else version_of (ctx_state_of s c') u' v')" for c' u' v'
    using put_version_op(2) [OF Cons.prems(1)] .
  have other: "fingerprints (ctx_state_of ?s c') = fingerprints (ctx_state_of s c')"
    "refby (ctx_state_of ?s c') = refby (ctx_state_of s c')"
    "cs_next_id (ctx_state_of ?s c') = cs_next_id (ctx_state_of s c')"
    "config ?s = config s" "modes ?s = modes s" "has_aliases ?s = has_aliases s" for c'
    by simp_all
  obtain s' where s': "load_versions rows ?s = Inr s'" "ctxs_inv s'"
    "\<forall>c u v. version_of (ctx_state_of s' c) u v =
        (if nul_free c \<and> nul_free u then opt_or (map_of rows (version_key c u v)) (version_of (ctx_state_of ?s c) u v)
         else version_of (ctx_state_of ?s c) u v)"
    "\<forall>c. fingerprints (ctx_state_of s' c) = fingerprints (ctx_state_of ?s c)
         \<and> refby (ctx_state_of s' c) = refby (ctx_state_of ?s c)
         \<and> cs_next_id (ctx_state_of s' c) = cs_next_id (ctx_state_of ?s c)"
    "config s' = config ?s" "modes s' = modes ?s" "has_aliases s' = has_aliases ?s"
    using Cons.IH [of ?s] put_version_op(1) [OF Cons.prems(1)] Cons.prems(2,3) by auto
  have "version_of (ctx_state_of s' c') u' v' =
      (if nul_free c' \<and> nul_free u' then opt_or (map_of (p # rows) (version_key c' u' v')) (version_of (ctx_state_of s c') u' v')
       else version_of (ctx_state_of s c') u' v')" for c' u' v'
    using s'(3) put k none p version_key_inj [of c' c u' u v' n] by (auto simp del: apply_op.simps)
  then show ?case using s' other step by (auto simp del: apply_op.simps)
qed simp

lemma ctxs_inv_ctx_mut:
  "ctxs_inv s \<Longrightarrow> ctx_inv (f (ctx_state_of s c)) \<Longrightarrow> ctxs_inv (ctx_mut c f s)"
  by (auto simp: ctxs_inv_def)

lemma load_fingerprints_spec:
  assumes "ctxs_inv s" and "distinct (map fst rows)"
    and "\<forall>(k, v) \<in> set rows. \<exists>c f i. nul_free c \<and> k = fp_key c f \<and> v = u32_to_be i"
  shows "\<exists>s'. load_fingerprints rows s = Inr s' \<and> ctxs_inv s'
    \<and> (\<forall>c f. map_of (fingerprints (ctx_state_of s' c)) f =
        (if nul_free c
         then opt_or (Option.bind (map_of rows (fp_key c f)) be_u32) (map_of (fingerprints (ctx_state_of s c)) f)
         else map_of (fingerprints (ctx_state_of s c)) f))
    \<and> (\<forall>c. subjects (ctx_state_of s' c) = subjects (ctx_state_of s c)
         \<and> refby (ctx_state_of s' c) = refby (ctx_state_of s c)
         \<and> cs_next_id (ctx_state_of s' c) = cs_next_id (ctx_state_of s c))
    \<and> config s' = config s \<and> modes s' = modes s \<and> has_aliases s' = has_aliases s"
  using assms
proof (induction rows arbitrary: s)
  case (Cons p rows)
  obtain c f i where p: "p = (fp_key c f, u32_to_be i)" and c: "nul_free c"
    using Cons.prems(3) by auto
  let ?s = "ctx_mut c (\<lambda>c. c\<lparr>fingerprints := AList.update f i (fingerprints c)\<rparr>) s"
  have none: "map_of rows (fp_key c f) = None"
    using Cons.prems(2) p by (simp add: map_of_eq_None_iff)
  have step: "load_fingerprints (p # rows) s = load_fingerprints rows ?s"
    using p c split_ctx_append [OF c] by (simp add: fp_key_def)
  have inv: "ctxs_inv ?s"
    using Cons.prems(1) by (intro ctxs_inv_ctx_mut) (auto simp: ctxs_inv_def)
  have upd: "map_of (fingerprints (ctx_state_of ?s c')) f' =
      (if c' = c \<and> f' = f then Some i else map_of (fingerprints (ctx_state_of s c')) f')" for c' f'
    by (simp add: update_conv)
  have key: "nul_free c' \<Longrightarrow> fp_key c' f' = fp_key c f \<longleftrightarrow> c' = c \<and> f' = f" for c' f'
    using c by (simp add: fp_key_inj)
  obtain s' where s': "load_fingerprints rows ?s = Inr s'" "ctxs_inv s'"
    "\<forall>c f. map_of (fingerprints (ctx_state_of s' c)) f =
        (if nul_free c
         then opt_or (Option.bind (map_of rows (fp_key c f)) be_u32) (map_of (fingerprints (ctx_state_of ?s c)) f)
         else map_of (fingerprints (ctx_state_of ?s c)) f)"
    and other: "(\<forall>c. subjects (ctx_state_of s' c) = subjects (ctx_state_of ?s c)
         \<and> refby (ctx_state_of s' c) = refby (ctx_state_of ?s c)
         \<and> cs_next_id (ctx_state_of s' c) = cs_next_id (ctx_state_of ?s c))
    \<and> config s' = config ?s \<and> modes s' = modes ?s \<and> has_aliases s' = has_aliases ?s"
    using Cons.IH [OF inv] Cons.prems(2,3) by auto
  have "map_of (fingerprints (ctx_state_of s' c')) f' =
        (if nul_free c'
         then opt_or (Option.bind (map_of (p # rows) (fp_key c' f')) be_u32) (map_of (fingerprints (ctx_state_of s c')) f')
         else map_of (fingerprints (ctx_state_of s c')) f')" for c' f'
    using s'(3) upd [of c' f'] key [of c' f'] none c by (cases "c' = c \<and> f' = f") (auto simp: p)
  then show ?case using s'(1,2) other step by (auto split: if_splits)
qed simp

lemma load_refby_spec:
  assumes "ctxs_inv s" and "\<forall>k \<in> fst ` set rows. \<exists>c u n i. nul_free c \<and> nul_free u \<and> k = refby_key c u n i"
  shows "\<exists>s'. load_refby rows s = Inr s' \<and> ctxs_inv s'
    \<and> (\<forall>c u v i. i \<in> set (refby_of (ctx_state_of s' c) (u, v)) \<longleftrightarrow>
        nul_free c \<and> nul_free u \<and> map_of rows (refby_key c u v i) \<noteq> None
        \<or> i \<in> set (refby_of (ctx_state_of s c) (u, v)))
    \<and> (\<forall>c. subjects (ctx_state_of s' c) = subjects (ctx_state_of s c)
         \<and> fingerprints (ctx_state_of s' c) = fingerprints (ctx_state_of s c)
         \<and> cs_next_id (ctx_state_of s' c) = cs_next_id (ctx_state_of s c))
    \<and> config s' = config s \<and> modes s' = modes s \<and> has_aliases s' = has_aliases s"
  using assms
proof (induction rows arbitrary: s)
  case (Cons p rows)
  obtain c u n i w where p: "p = (refby_key c u n i, w)" and cu: "nul_free c" "nul_free u"
    using Cons.prems(2) by (cases p) auto
  let ?s = "ctx_mut c (put_refby_ctx u n i) s"
  have step: "load_refby (p # rows) s = load_refby rows ?s"
    using p split_refby_key [OF cu] split_version_key(2) [OF cu] by simp
  have inv: "ctxs_inv ?s"
    using Cons.prems(1) by (intro ctxs_inv_ctx_mut) (auto simp: ctxs_inv_def ctx_inv_refby)
  have sorted: "sorted_wrt (<) (refby_of (ctx_state_of s c) (u, n))"
    using Cons.prems(1) ctx_invD(6) by (auto simp: ctxs_inv_def)
  have upd: "j \<in> set (refby_of (ctx_state_of ?s c') (u', n')) \<longleftrightarrow>
      c' = c \<and> u' = u \<and> n' = n \<and> j = i \<or> j \<in> set (refby_of (ctx_state_of s c') (u', n'))" for c' u' n' j
    using sorted by (auto simp: refby_put small_set.ins_elems)
  have key: "nul_free c' \<Longrightarrow> nul_free u' \<Longrightarrow> refby_key c' u' n' j = refby_key c u n i
      \<longleftrightarrow> c' = c \<and> u' = u \<and> n' = n \<and> j = i" for c' u' n' j
    using cu by (simp add: refby_key_inj)
  obtain s' where s': "load_refby rows ?s = Inr s'" "ctxs_inv s'"
    "\<forall>c u v i. i \<in> set (refby_of (ctx_state_of s' c) (u, v)) \<longleftrightarrow>
        nul_free c \<and> nul_free u \<and> map_of rows (refby_key c u v i) \<noteq> None
        \<or> i \<in> set (refby_of (ctx_state_of ?s c) (u, v))"
    and other: "(\<forall>c. subjects (ctx_state_of s' c) = subjects (ctx_state_of ?s c)
         \<and> fingerprints (ctx_state_of s' c) = fingerprints (ctx_state_of ?s c)
         \<and> cs_next_id (ctx_state_of s' c) = cs_next_id (ctx_state_of ?s c))
    \<and> config s' = config ?s \<and> modes s' = modes ?s \<and> has_aliases s' = has_aliases ?s"
    using Cons.IH [OF inv] Cons.prems(2) by auto
  have "j \<in> set (refby_of (ctx_state_of s' c') (u', n')) \<longleftrightarrow>
        nul_free c' \<and> nul_free u' \<and> map_of (p # rows) (refby_key c' u' n' j) \<noteq> None
        \<or> j \<in> set (refby_of (ctx_state_of s c') (u', n'))" for c' u' n' j
    using s'(3) upd [of j c' u' n'] key [of c' u' n' j] cu by (cases "c' = c \<and> u' = u \<and> n' = n \<and> j = i") (auto simp: p)
  then show ?case using s'(1,2) other step by auto
qed simp

lemma ctxs_inv_cong: "ctxs s' = ctxs s \<Longrightarrow> ctxs_inv s' = ctxs_inv s"
  by (simp add: ctxs_inv_def ctx_state_of_def)

lemma load_config_spec:
  assumes "\<forall>k \<in> fst ` set rows. \<exists>sc. scope_ok sc \<and> k = scope_key sc" and "distinct (map fst rows)"
    and "\<forall>sc r. map_of (config s) sc = Some r \<and> names_alias r \<longrightarrow> has_aliases s"
  shows "(\<forall>sc. map_of (config (load_config rows s)) sc =
      (if scope_ok sc then opt_or (map_of rows (scope_key sc)) (map_of (config s) sc) else map_of (config s) sc))
    \<and> (\<forall>sc r. map_of (config (load_config rows s)) sc = Some r \<and> names_alias r \<longrightarrow> has_aliases (load_config rows s))
    \<and> ctxs (load_config rows s) = ctxs s \<and> modes (load_config rows s) = modes s"
  using assms
proof (induction rows arbitrary: s)
  case (Cons p rows)
  obtain sc v where p: "p = (scope_key sc, v)" and sc: "scope_ok sc"
    using Cons.prems(1) by (cases p) auto
  let ?s = "apply_op (OpPutConfig sc v) s"
  have step: "load_config ((scope_key sc, v) # rows) s = load_config rows ?s"
    by (simp add: scope_key_roundtrip [OF sc])
  have none: "map_of rows (scope_key sc) = None"
    using Cons.prems(2) p by (simp add: map_of_eq_None_iff)
  have al: "\<forall>sc r. map_of (config ?s) sc = Some r \<and> names_alias r \<longrightarrow> has_aliases ?s"
    using Cons.prems(3) by (auto simp: update_conv split: if_splits)
  have key: "scope_ok sc' \<Longrightarrow> scope_key sc' = scope_key sc \<longleftrightarrow> sc' = sc" for sc'
    using sc by (simp add: scope_key_inj)
  have rest: "\<forall>k \<in> fst ` set rows. \<exists>sc. scope_ok sc \<and> k = scope_key sc" "distinct (map fst rows)"
    using Cons.prems(1,2) by auto
  note IH = Cons.IH [OF rest al]
  have "map_of (config (load_config rows ?s)) sc' =
      (if scope_ok sc' then opt_or (map_of (p # rows) (scope_key sc')) (map_of (config s) sc')
       else map_of (config s) sc')" for sc'
    using IH none key [of sc'] sc by (cases "sc' = sc") (auto simp: p update_conv)
  then show ?case using IH unfolding p step by (simp del: load_config.simps)
qed simp

lemma load_mode_spec:
  assumes "\<forall>k \<in> fst ` set rows. \<exists>sc. scope_ok sc \<and> k = scope_key sc" and "distinct (map fst rows)"
  shows "(\<forall>sc. map_of (modes (load_mode rows s)) sc =
      (if scope_ok sc then opt_or (map_of rows (scope_key sc)) (map_of (modes s) sc) else map_of (modes s) sc))
    \<and> ctxs (load_mode rows s) = ctxs s \<and> config (load_mode rows s) = config s
    \<and> has_aliases (load_mode rows s) = has_aliases s"
  using assms
proof (induction rows arbitrary: s)
  case (Cons p rows)
  obtain sc v where p: "p = (scope_key sc, v)" and sc: "scope_ok sc"
    using Cons.prems(1) by (cases p) auto
  have step: "load_mode ((scope_key sc, v) # rows) s = load_mode rows (apply_op (OpPutMode sc v) s)"
    by (simp add: scope_key_roundtrip [OF sc])
  have none: "map_of rows (scope_key sc) = None"
    using Cons.prems(2) p by (simp add: map_of_eq_None_iff)
  have key: "scope_ok sc' \<Longrightarrow> scope_key sc' = scope_key sc \<longleftrightarrow> sc' = sc" for sc'
    using sc by (simp add: scope_key_inj)
  have rest: "\<forall>k \<in> fst ` set rows. \<exists>sc. scope_ok sc \<and> k = scope_key sc" "distinct (map fst rows)"
    using Cons.prems(1,2) by auto
  note IH = Cons.IH [OF rest, of "apply_op (OpPutMode sc v) s"]
  have "map_of (modes (load_mode rows (apply_op (OpPutMode sc v) s))) sc' =
      (if scope_ok sc' then opt_or (map_of (p # rows) (scope_key sc')) (map_of (modes s) sc')
       else map_of (modes s) sc')" for sc'
    using IH none key [of sc'] sc by (cases "sc' = sc") (auto simp: p update_conv)
  then show ?case using IH unfolding p step by (simp del: load_mode.simps)
qed simp

lemma strip_meta_keys:
  "strip_prefix ''ctx/'' k = Some c \<longleftrightarrow> k = meta_ctx_key c"
  "strip_prefix ''next_id/'' k = Some c \<longleftrightarrow> k = meta_next_id_key c"
  by (simp_all only: strip_prefix_Some_iff meta_ctx_key_def meta_next_id_key_def)

lemma strip_meta_simps [simp]:
  "strip_prefix ''ctx/'' (meta_ctx_key c) = Some c" "strip_prefix ''next_id/'' (meta_next_id_key c) = Some c"
  "strip_prefix ''ctx/'' (meta_next_id_key c) = None" "strip_prefix ''next_id/'' (meta_ctx_key c) = None"
  by (simp_all add: strip_meta_keys)
    (simp_all add: strip_prefix_def starts_with_def meta_ctx_key_def meta_next_id_key_def)

lemma meta_keys_inj [simp]:
  "meta_ctx_key c = meta_ctx_key c' \<longleftrightarrow> c = c'" "meta_next_id_key c = meta_next_id_key c' \<longleftrightarrow> c = c'"
  "meta_ctx_key c \<noteq> meta_next_id_key c'" "meta_next_id_key c \<noteq> meta_ctx_key c'"
  "meta_ctx_key c \<noteq> LOG_SEQ_KEY" "LOG_SEQ_KEY \<noteq> meta_ctx_key c"
  "meta_next_id_key c \<noteq> LOG_SEQ_KEY" "LOG_SEQ_KEY \<noteq> meta_next_id_key c"
  "meta_ctx_key c \<noteq> LOG_FLOOR_KEY" "LOG_FLOOR_KEY \<noteq> meta_ctx_key c"
  "meta_next_id_key c \<noteq> LOG_FLOOR_KEY" "LOG_FLOOR_KEY \<noteq> meta_next_id_key c"
  "LOG_SEQ_KEY \<noteq> LOG_FLOOR_KEY" "LOG_FLOOR_KEY \<noteq> LOG_SEQ_KEY"
  by (simp_all add: meta_ctx_key_def meta_next_id_key_def LOG_SEQ_KEY_def LOG_FLOOR_KEY_def)

lemma load_meta_spec:
  assumes "ctxs_inv s" and "sorted_wrt (<) (known_contexts s)" and "distinct (map fst rows)"
    and "\<forall>c v. (meta_next_id_key c, v) \<in> set rows \<longrightarrow> (\<exists>n. v = u32_to_be n)"
  shows "\<exists>s'. load_meta rows s = Inr s' \<and> ctxs_inv s' \<and> sorted_wrt (<) (known_contexts s')
    \<and> (\<forall>c. c \<in> set (known_contexts s') \<longleftrightarrow> map_of rows (meta_ctx_key c) \<noteq> None \<or> c \<in> set (known_contexts s))
    \<and> (\<forall>c. cs_next_id (ctx_state_of s' c) =
        opt_or (Option.bind (map_of rows (meta_next_id_key c)) be_u32) (cs_next_id (ctx_state_of s c)))
    \<and> (\<forall>c. subjects (ctx_state_of s' c) = subjects (ctx_state_of s c)
         \<and> fingerprints (ctx_state_of s' c) = fingerprints (ctx_state_of s c)
         \<and> refby (ctx_state_of s' c) = refby (ctx_state_of s c))
    \<and> config s' = config s \<and> modes s' = modes s \<and> has_aliases s' = has_aliases s"
  using assms
proof (induction rows arbitrary: s)
  case (Cons p rows)
  obtain k v where p: "p = (k, v)" by fastforce
  have none: "map_of rows k = None" using Cons.prems(3) p by (simp add: map_of_eq_None_iff)
  have rest: "distinct (map fst rows)" "\<forall>c v. (meta_next_id_key c, v) \<in> set rows \<longrightarrow> (\<exists>n. v = u32_to_be n)"
    using Cons.prems(3,4) by auto
  define s1 where "s1 = (case strip_prefix ''ctx/'' k of
      Some c \<Rightarrow> s\<lparr>known_contexts := set_insert c (known_contexts s)\<rparr>
    | None \<Rightarrow> (case strip_prefix ''next_id/'' k of
        Some c \<Rightarrow> ctx_mut c (\<lambda>x. x\<lparr>cs_next_id := be_u32 v\<rparr>) s | None \<Rightarrow> s))"
  have nid: "\<exists>n. v = u32_to_be n" if "strip_prefix ''next_id/'' k = Some c" for c
    using that Cons.prems(4) p by (auto simp: strip_meta_keys)
  have step: "load_meta ((k, v) # rows) s = load_meta rows s1"
    using nid by (auto simp: s1_def split: option.splits)
  have shape: "(\<exists>c. k = meta_ctx_key c \<and> s1 = s\<lparr>known_contexts := set_insert c (known_contexts s)\<rparr>)
      \<or> (\<exists>c. k = meta_next_id_key c \<and> s1 = ctx_mut c (\<lambda>x. x\<lparr>cs_next_id := be_u32 v\<rparr>) s)
      \<or> (\<forall>c. k \<noteq> meta_ctx_key c \<and> k \<noteq> meta_next_id_key c) \<and> s1 = s"
    by (cases "strip_prefix ''ctx/'' k"; cases "strip_prefix ''next_id/'' k")
      (auto simp: s1_def strip_meta_keys)
  have inv: "ctxs_inv s1" "sorted_wrt (<) (known_contexts s1)"
    using shape Cons.prems(1,2)
    by (elim disjE exE conjE; simp add: ctxs_inv_def small_set.ins_sorted)+
  have known: "c \<in> set (known_contexts s1) \<longleftrightarrow> k = meta_ctx_key c \<or> c \<in> set (known_contexts s)" for c
    using shape Cons.prems(2) by (elim disjE exE conjE) (auto simp: small_set.ins_elems)
  have nxt: "cs_next_id (ctx_state_of s1 c) =
      (if k = meta_next_id_key c then be_u32 v else cs_next_id (ctx_state_of s c))" for c
    using shape by (elim disjE exE conjE) auto
  have other: "subjects (ctx_state_of s1 c) = subjects (ctx_state_of s c)"
    "fingerprints (ctx_state_of s1 c) = fingerprints (ctx_state_of s c)"
    "refby (ctx_state_of s1 c) = refby (ctx_state_of s c)"
    "config s1 = config s" "modes s1 = modes s" "has_aliases s1 = has_aliases s" for c
    using shape by (elim disjE exE conjE; simp)+
  have v: "be_u32 v \<noteq> None" if "k = meta_next_id_key c" for c
    using nid [of c] that by (auto simp: strip_meta_keys)
  obtain s' where s': "load_meta rows s1 = Inr s'" "ctxs_inv s'" "sorted_wrt (<) (known_contexts s')"
    "\<forall>c. c \<in> set (known_contexts s') \<longleftrightarrow> map_of rows (meta_ctx_key c) \<noteq> None \<or> c \<in> set (known_contexts s1)"
    "\<forall>c. cs_next_id (ctx_state_of s' c) =
        opt_or (Option.bind (map_of rows (meta_next_id_key c)) be_u32) (cs_next_id (ctx_state_of s1 c))"
    and frame: "(\<forall>c. subjects (ctx_state_of s' c) = subjects (ctx_state_of s1 c)
         \<and> fingerprints (ctx_state_of s' c) = fingerprints (ctx_state_of s1 c)
         \<and> refby (ctx_state_of s' c) = refby (ctx_state_of s1 c))
    \<and> config s' = config s1 \<and> modes s' = modes s1 \<and> has_aliases s' = has_aliases s1"
    using Cons.IH [OF inv rest] by blast
  have "c \<in> set (known_contexts s') \<longleftrightarrow> map_of (p # rows) (meta_ctx_key c) \<noteq> None \<or> c \<in> set (known_contexts s)" for c
    using s'(4) known [of c] by (auto simp: p)
  moreover have "cs_next_id (ctx_state_of s' c) =
      opt_or (Option.bind (map_of (p # rows) (meta_next_id_key c)) be_u32) (cs_next_id (ctx_state_of s c))" for c
    using s'(5) nxt [of c] none v [of c] by (cases "k = meta_next_id_key c") (auto simp: p)
  ultimately show ?case using s'(1,2,3) frame other unfolding p step by (simp del: load_meta.simps)
qed simp

lemma version_of_subjects: "subjects c = subjects c' \<Longrightarrow> version_of c u v = version_of c' u v"
  by (simp add: version_of_def)

lemma refby_of_refby: "refby c = refby c' \<Longrightarrow> refby_of c k = refby_of c' k"
  by (simp add: refby_of_def)

lemma ctxs_inv_default [simp]: "ctxs_inv snapshot_default"
  by (simp add: ctxs_inv_def snapshot_default_def ctx_state_of_def)

lemma default_observations [simp]:
  "version_of (ctx_state_of snapshot_default c) u v = None"
  "fingerprints (ctx_state_of snapshot_default c) = []"
  "refby (ctx_state_of snapshot_default c) = []"
  "cs_next_id (ctx_state_of snapshot_default c) = None"
  "config snapshot_default = []" "modes snapshot_default = []" "known_contexts snapshot_default = []"
  by (simp_all add: snapshot_default_def ctx_state_of_def version_of_def)

lemma view_keys:
  assumes "wf_table tbl" and "\<And>k v. map_of (view t tbl) k = Some v \<Longrightarrow> P k v"
  shows "distinct (map fst (view t tbl))" and "\<forall>(k, v) \<in> set (view t tbl). P k v"
  using assms view_wf [OF assms(1), of t] wf_table_map_of_iff
  by (auto simp: wf_table_distinct)

lemma rows_okD:
  assumes "rows_ok t d"
  shows "tables_wf d"
    and "map_of (view t (tbl_versions d)) k = Some r \<Longrightarrow> \<exists>c s n. nul_free c \<and> nul_free s \<and> k = version_key c s n"
    and "map_of (view t (tbl_fingerprints d)) k = Some w \<Longrightarrow> \<exists>c f i. nul_free c \<and> k = fp_key c f \<and> w = u32_to_be i"
    and "map_of (view t (tbl_refby d)) k = Some w' \<Longrightarrow> \<exists>c s n i. nul_free c \<and> nul_free s \<and> k = refby_key c s n i"
    and "map_of (view t (tbl_config d)) k = Some r' \<Longrightarrow> \<exists>sc. scope_ok sc \<and> k = scope_key sc"
    and "map_of (view t (tbl_mode d)) k = Some m \<Longrightarrow> \<exists>sc. scope_ok sc \<and> k = scope_key sc"
    and "map_of (view t (tbl_meta d)) (meta_next_id_key c) = Some w'' \<Longrightarrow> \<exists>n. w'' = u32_to_be n"
    and "map_of (view t (tbl_meta d)) LOG_SEQ_KEY = Some w''' \<Longrightarrow> \<exists>q. w''' = u64_to_be q"
  using assms unfolding rows_ok_def by (blast, blast, blast, blast, blast, blast, blast, blast)

lemma tables_wfD:
  assumes "tables_wf d"
  shows "wf_table (tbl_schemas d)" "wf_table (tbl_fingerprints d)" "wf_table (tbl_versions d)"
    "wf_table (tbl_refby d)" "wf_table (tbl_config d)" "wf_table (tbl_mode d)"
    "wf_table (tbl_exporters d)" "wf_table (tbl_log d)" "wf_table (tbl_meta d)"
  using assms by (simp_all add: tables_wf_def)

lemma mirrorsD:
  assumes "mirrors t d s"
  shows "version_of (ctx_state_of s c) u v =
        (if nul_free c \<and> nul_free u then map_of (view t (tbl_versions d)) (version_key c u v) else None)"
    and "map_of (fingerprints (ctx_state_of s c)) f =
        (if nul_free c then Option.bind (map_of (view t (tbl_fingerprints d)) (fp_key c f)) be_u32 else None)"
    and "i \<in> set (refby_of (ctx_state_of s c) (u, v)) \<longleftrightarrow>
        nul_free c \<and> nul_free u \<and> map_of (view t (tbl_refby d)) (refby_key c u v i) \<noteq> None"
    and "cs_next_id (ctx_state_of s c) =
        Option.bind (map_of (view t (tbl_meta d)) (meta_next_id_key c)) be_u32"
    and "c \<in> set (known_contexts s) \<longleftrightarrow> map_of (view t (tbl_meta d)) (meta_ctx_key c) \<noteq> None"
    and "map_of (config s) sc =
        (if scope_ok sc then map_of (view t (tbl_config d)) (scope_key sc) else None)"
    and "map_of (modes s) sc =
        (if scope_ok sc then map_of (view t (tbl_mode d)) (scope_key sc) else None)"
  using assms unfolding mirrors_def by (blast, blast, blast, blast, blast, blast, blast)

text \<open>The three tables with errors, then the whole snapshot.\<close>

lemma load_ctx_tables:
  assumes "rows_ok t d"
  obtains s1 s2 s3 where
    "load_versions (view t (tbl_versions d)) snapshot_default = Inr s1"
    "load_fingerprints (view t (tbl_fingerprints d)) s1 = Inr s2"
    "load_refby (view t (tbl_refby d)) s2 = Inr s3" "ctxs_inv s3"
    "\<forall>c u v. version_of (ctx_state_of s3 c) u v =
        (if nul_free c \<and> nul_free u then map_of (view t (tbl_versions d)) (version_key c u v) else None)"
    "\<forall>c f. map_of (fingerprints (ctx_state_of s3 c)) f =
        (if nul_free c then Option.bind (map_of (view t (tbl_fingerprints d)) (fp_key c f)) be_u32 else None)"
    "\<forall>c u v i. i \<in> set (refby_of (ctx_state_of s3 c) (u, v)) \<longleftrightarrow>
        nul_free c \<and> nul_free u \<and> map_of (view t (tbl_refby d)) (refby_key c u v i) \<noteq> None"
    "\<forall>c. cs_next_id (ctx_state_of s3 c) = None" "config s3 = []" "modes s3 = []"
proof -
  note wf = tables_wfD [OF rows_okD(1) [OF assms]]
  obtain s1 where s1: "load_versions (view t (tbl_versions d)) snapshot_default = Inr s1" "ctxs_inv s1"
      "\<forall>c u v. version_of (ctx_state_of s1 c) u v =
        (if nul_free c \<and> nul_free u then map_of (view t (tbl_versions d)) (version_key c u v) else None)"
      "\<forall>c. fingerprints (ctx_state_of s1 c) = [] \<and> refby (ctx_state_of s1 c) = []
         \<and> cs_next_id (ctx_state_of s1 c) = None" "config s1 = []" "modes s1 = []"
    using load_versions_spec [of snapshot_default "view t (tbl_versions d)"]
      view_keys [OF wf(3), of t "\<lambda>k v. \<exists>c s n. nul_free c \<and> nul_free s \<and> k = version_key c s n"]
      rows_okD(2) [OF assms] by fastforce
  obtain s2 where s2: "load_fingerprints (view t (tbl_fingerprints d)) s1 = Inr s2" "ctxs_inv s2"
      "\<forall>c f. map_of (fingerprints (ctx_state_of s2 c)) f =
        (if nul_free c then Option.bind (map_of (view t (tbl_fingerprints d)) (fp_key c f)) be_u32 else None)"
      "\<forall>c. subjects (ctx_state_of s2 c) = subjects (ctx_state_of s1 c)
         \<and> refby (ctx_state_of s2 c) = [] \<and> cs_next_id (ctx_state_of s2 c) = None" "config s2 = []" "modes s2 = []"
    using load_fingerprints_spec [OF s1(2), of "view t (tbl_fingerprints d)"] s1(4,5,6)
      view_keys [OF wf(2), of t "\<lambda>k v. \<exists>c f i. nul_free c \<and> k = fp_key c f \<and> v = u32_to_be i"]
      rows_okD(3) [OF assms] by fastforce
  obtain s3 where s3: "load_refby (view t (tbl_refby d)) s2 = Inr s3" "ctxs_inv s3"
      "\<forall>c u v i. i \<in> set (refby_of (ctx_state_of s3 c) (u, v)) \<longleftrightarrow>
        nul_free c \<and> nul_free u \<and> map_of (view t (tbl_refby d)) (refby_key c u v i) \<noteq> None"
      "\<forall>c. subjects (ctx_state_of s3 c) = subjects (ctx_state_of s2 c)
         \<and> fingerprints (ctx_state_of s3 c) = fingerprints (ctx_state_of s2 c)
         \<and> cs_next_id (ctx_state_of s3 c) = None" "config s3 = []" "modes s3 = []"
    using load_refby_spec [OF s2(2), of "view t (tbl_refby d)"] s2(4,5,6)
      view_keys [OF wf(4), of t "\<lambda>k v. \<exists>c s n i. nul_free c \<and> nul_free s \<and> k = refby_key c s n i"]
      rows_okD(4) [OF assms] by (fastforce simp: refby_of_def)
  have ver: "version_of (ctx_state_of s3 c) u v = version_of (ctx_state_of s1 c) u v" for c u v
    using s2(4) s3(4) by (simp add: version_of_def)
  show thesis
  proof (rule that [OF s1(1) s2(1) s3(1,2)])
    show "\<forall>c u v i. i \<in> set (refby_of (ctx_state_of s3 c) (u, v)) \<longleftrightarrow>
        nul_free c \<and> nul_free u \<and> map_of (view t (tbl_refby d)) (refby_key c u v i) \<noteq> None"
      by (rule s3(3))
  qed (use s1(3) s2(3) s3(4,5,6) in \<open>simp_all add: ver\<close>)
qed

lemma load_snapshot_mirrors:
  assumes "rows_ok t d"
  shows "\<exists>s. load_snapshot t d = Inr s \<and> mirrors t d s \<and> ctxs_inv s \<and> sorted_wrt (<) (known_contexts s)
    \<and> (\<forall>sc r. map_of (config s) sc = Some r \<and> names_alias r \<longrightarrow> has_aliases s)
    \<and> store_log_seq t d = Some (snap_log_seq s)"
proof -
  note wf = tables_wfD [OF rows_okD(1) [OF assms]]
  obtain s1 s2 s3 where s: "load_versions (view t (tbl_versions d)) snapshot_default = Inr s1"
    "load_fingerprints (view t (tbl_fingerprints d)) s1 = Inr s2"
    "load_refby (view t (tbl_refby d)) s2 = Inr s3" "ctxs_inv s3"
    "\<forall>c u v. version_of (ctx_state_of s3 c) u v =
        (if nul_free c \<and> nul_free u then map_of (view t (tbl_versions d)) (version_key c u v) else None)"
    "\<forall>c f. map_of (fingerprints (ctx_state_of s3 c)) f =
        (if nul_free c then Option.bind (map_of (view t (tbl_fingerprints d)) (fp_key c f)) be_u32 else None)"
    "\<forall>c u v i. i \<in> set (refby_of (ctx_state_of s3 c) (u, v)) \<longleftrightarrow>
        nul_free c \<and> nul_free u \<and> map_of (view t (tbl_refby d)) (refby_key c u v i) \<noteq> None"
    "\<forall>c. cs_next_id (ctx_state_of s3 c) = None" "config s3 = []" "modes s3 = []"
    by (rule load_ctx_tables [OF assms])
  define s4 where "s4 = load_config (view t (tbl_config d)) s3"
  define s5 where "s5 = load_mode (view t (tbl_mode d)) s4"
  have cfg: "map_of (config s4) sc = (if scope_ok sc then map_of (view t (tbl_config d)) (scope_key sc) else None)"
      "map_of (config s4) sc = Some r \<Longrightarrow> names_alias r \<Longrightarrow> has_aliases s4"
      "ctxs s4 = ctxs s3" "modes s4 = []" for sc r
    using load_config_spec [of "view t (tbl_config d)" s3] s(9,10)
      view_keys [OF wf(5), of t "\<lambda>k v. \<exists>sc. scope_ok sc \<and> k = scope_key sc"] rows_okD(5) [OF assms]
    by (fastforce simp: s4_def)+
  have md: "map_of (modes s5) sc = (if scope_ok sc then map_of (view t (tbl_mode d)) (scope_key sc) else None)"
      "ctxs s5 = ctxs s4" "config s5 = config s4" "has_aliases s5 = has_aliases s4" for sc
    using load_mode_spec [of "view t (tbl_mode d)" s4] cfg(4)
      view_keys [OF wf(6), of t "\<lambda>k v. \<exists>sc. scope_ok sc \<and> k = scope_key sc"] rows_okD(6) [OF assms]
    by (fastforce simp: s5_def)+
  define s6 where "s6 = s5\<lparr>known_contexts := []\<rparr>"
  have cs: "ctx_state_of s6 c = ctx_state_of s3 c" for c
    using md(2) cfg(3) by (simp add: s6_def ctx_state_of_def)
  have "ctxs_inv s6" using s(4) md(2) cfg(3) ctxs_inv_cong [of s6 s3] by (simp add: s6_def)
  then obtain s7 where s7: "load_meta (view t (tbl_meta d)) s6 = Inr s7" "ctxs_inv s7" "sorted_wrt (<) (known_contexts s7)"
      "\<forall>c. c \<in> set (known_contexts s7) \<longleftrightarrow> map_of (view t (tbl_meta d)) (meta_ctx_key c) \<noteq> None"
      "\<forall>c. cs_next_id (ctx_state_of s7 c) = Option.bind (map_of (view t (tbl_meta d)) (meta_next_id_key c)) be_u32"
      "\<forall>c. subjects (ctx_state_of s7 c) = subjects (ctx_state_of s3 c)
         \<and> fingerprints (ctx_state_of s7 c) = fingerprints (ctx_state_of s3 c)
         \<and> refby (ctx_state_of s7 c) = refby (ctx_state_of s3 c)"
      "config s7 = config s4" "modes s7 = modes s5" "has_aliases s7 = has_aliases s4"
    using load_meta_spec [of s6 "view t (tbl_meta d)"] s(8) md(3,4) cs
      view_keys(1) [OF wf(9), of t "\<lambda>k v. True"] rows_okD(7) [OF assms]
      wf_table_map_of_iff [OF view_wf [OF wf(9)]] by (auto simp: s6_def)
  obtain q where q: "store_log_seq t d = Some q"
    using rows_okD(8) [OF assms] map_of_view [OF wf(9)]
    by (cases "map_of (tbl_meta d) (store_key t LOG_SEQ_KEY)")
      (fastforce simp: store_log_seq_def meta_u64_def get_meta_def)+
  have "mirrors t d (s7\<lparr>snap_log_seq := q\<rparr>)"
    using s(5,6,7) s7(4,5,6,7,8) cfg(1) md(1)
    unfolding mirrors_def by (simp add: version_of_def refby_of_def)
  moreover have "load_snapshot t d = Inr (s7\<lparr>snap_log_seq := q\<rparr>)"
    using s(1,2,3) s7(1) q by (simp add: load_snapshot_def s4_def [symmetric] s5_def [symmetric] s6_def [symmetric] Let_def)
  ultimately show ?thesis
    using s7(2,3,7,9) cfg(2) q by (intro exI [of _ "s7\<lparr>snap_log_seq := q\<rparr>"]) (auto simp: ctxs_inv_def)
qed

section \<open>A snapshot is determined by the rows it mirrors\<close>

definition same_answers :: "snapshot \<Rightarrow> snapshot \<Rightarrow> bool" where
  "same_answers s s' \<longleftrightarrow>
     (\<forall>c u v. snap_get_version s c u v = snap_get_version s' c u v)
     \<and> (\<forall>c u. snap_list_versions s c u = snap_list_versions s' c u)
     \<and> (\<forall>c. snap_list_subject_names s c = snap_list_subject_names s' c)
     \<and> (\<forall>c i. snap_id_usages s c i = snap_id_usages s' c i)
     \<and> (\<forall>c u v. snap_referenced_by s c u v = snap_referenced_by s' c u v)
     \<and> (\<forall>c f. snap_id_for_fingerprint s c f = snap_id_for_fingerprint s' c f)
     \<and> (\<forall>c. snap_next_id s c = snap_next_id s' c)
     \<and> snap_list_contexts s = snap_list_contexts s'
     \<and> (\<forall>sc. snap_get_config s sc = snap_get_config s' sc)
     \<and> (\<forall>sc. snap_get_mode s sc = snap_get_mode s' sc)"

lemma map_of_versions: "map_of (unwrap_or (map_of (subjects c) u) []) v = version_of c u v"
  by (simp add: version_of_def split: option.splits)

lemma subject_names_set:
  assumes "ctx_inv c"
  shows "u \<in> fst ` set (subjects c) \<longleftrightarrow> (\<exists>v. version_of c u v \<noteq> None)"
proof
  assume "u \<in> fst ` set (subjects c)"
  then obtain vs where vs: "map_of (subjects c) u = Some vs"
    by (metis domIff dom_map_of_conv_image_fst not_None_eq)
  then obtain v r rest where "vs = (v, r) # rest" using ctx_invD(3) [OF assms] by (metis list.exhaust surj_pair)
  then show "\<exists>v. version_of c u v \<noteq> None" using vs by (auto simp: version_of_def)
next
  assume "\<exists>v. version_of c u v \<noteq> None"
  then show "u \<in> fst ` set (subjects c)"
    by (auto simp: version_of_def dest: map_of_SomeD split: option.splits intro: rev_image_eqI)
qed

lemma ctx_answers_unique:
  assumes "ctx_inv c" "ctx_inv c'" and "\<And>u v. version_of c u v = version_of c' u v"
  shows "unwrap_or (map_of (subjects c) u) [] = unwrap_or (map_of (subjects c') u) []"
    and "map fst (subjects c) = map fst (subjects c')"
    and "usages_of c i = usages_of c' i"
proof -
  show "unwrap_or (map_of (subjects c) u) [] = unwrap_or (map_of (subjects c') u) []"
    using assms by (intro wf_table_ext wf_versions) (auto simp: fun_eq_iff map_of_versions)
  have "set (map fst (subjects c)) = set (map fst (subjects c'))"
    unfolding set_map set_eq_iff
    using subject_names_set [OF assms(1)] subject_names_set [OF assms(2)] assms(3) by simp
  then show "map fst (subjects c) = map fst (subjects c')"
    using ctx_invD(1) [OF assms(1)] ctx_invD(1) [OF assms(2)]
    unfolding wf_table_def by (intro strict_sorted_equal) auto
  show "usages_of c i = usages_of c' i"
    using ctx_invD(4,5) [OF assms(1)] ctx_invD(4,5) [OF assms(2)] assms(3)
    by (intro strict_sorted_equal) auto
qed

lemma mirrors_same_answers:
  assumes "mirrors t d s" "mirrors t d s'" "ctxs_inv s" "ctxs_inv s'"
    and "sorted_wrt (<) (known_contexts s)" "sorted_wrt (<) (known_contexts s')"
  shows "same_answers s s'"
proof -
  have inv: "ctx_inv (ctx_state_of s c)" "ctx_inv (ctx_state_of s' c)" for c
    using assms(3,4) by (auto simp: ctxs_inv_def)
  have ver: "version_of (ctx_state_of s c) u v = version_of (ctx_state_of s' c) u v" for c u v
    using assms(1,2) by (simp add: mirrorsD(1))
  have ref: "refby_of (ctx_state_of s c) k = refby_of (ctx_state_of s' c) k" for c k
  proof (rule strict_sorted_equal)
    show "set (refby_of (ctx_state_of s c) k) = set (refby_of (ctx_state_of s' c) k)"
      using mirrorsD(3) [OF assms(1)] mirrorsD(3) [OF assms(2)] by (cases k) auto
  qed (use ctx_invD(6) inv in auto)
  have "known_contexts s = known_contexts s'"
    using assms(5,6) mirrorsD(5) [OF assms(1)] mirrorsD(5) [OF assms(2)]
    by (intro strict_sorted_equal) auto
  then have ctxs: "snap_list_contexts s = snap_list_contexts s'" by (simp add: snap_list_contexts_def)
  have rest: "map_of (fingerprints (ctx_state_of s c)) f = map_of (fingerprints (ctx_state_of s' c)) f"
    "cs_next_id (ctx_state_of s c) = cs_next_id (ctx_state_of s' c)"
    "map_of (config s) sc = map_of (config s') sc" "map_of (modes s) sc = map_of (modes s') sc" for c f sc
    using assms(1,2) by (simp_all add: mirrorsD)
  show ?thesis
    unfolding same_answers_def queries_ctx_state snap_get_config_def snap_get_mode_def
    using ctx_answers_unique [OF inv ver] ver ref rest ctxs by simp
qed

section \<open>Each transaction step keeps the snapshot a mirror\<close>

text \<open>The store and the snapshot of a container between two commits.\<close>

definition in_sync :: "tenant_id \<Rightarrow> db \<Rightarrow> snapshot \<Rightarrow> bool" where
  "in_sync t d s \<longleftrightarrow> rows_ok t d \<and> mirrors t d s \<and> snap_inv s"

lemma delete_version_ctx_other [simp]:
  "fingerprints (delete_version_ctx u v i c) = fingerprints c"
  "refby (delete_version_ctx u v i c) = refby c"
  "cs_next_id (delete_version_ctx u v i c) = cs_next_id c"
  by (simp_all add: delete_version_ctx_def)

lemma ctx_update_observations [simp]:
  "version_of (c\<lparr>fingerprints := f\<rparr>) u v = version_of c u v" "version_of (c\<lparr>cs_next_id := n\<rparr>) u v = version_of c u v"
  "refby_of (c\<lparr>fingerprints := f\<rparr>) k = refby_of c k" "refby_of (c\<lparr>cs_next_id := n\<rparr>) k = refby_of c k"
  "version_of (put_refby_ctx u' v' i c) u v = version_of c u v"
  "version_of (delete_refby_ctx u' v' i c) u v = version_of c u v"
  by (simp_all add: version_of_def refby_of_def)

lemma in_syncD:
  assumes "in_sync t d s"
  shows "rows_ok t d" and "mirrors t d s" and "snap_inv s" and "tables_wf d"
    and "ctx_inv (ctx_state_of s c)" and "sorted_wrt (<) (known_contexts s)"
proof -
  show ok: "rows_ok t d" and "mirrors t d s" and inv: "snap_inv s"
    using assms by (simp_all add: in_sync_def)
  show "tables_wf d" by (rule rows_okD(1) [OF ok])
  show "ctx_inv (ctx_state_of s c)" by (rule snap_invD(2) [OF inv])
  show "sorted_wrt (<) (known_contexts s)" by (rule snap_invD(3) [OF inv])
qed

lemmas in_sync_obs = mirrorsD [OF in_syncD(2)]

lemmas in_sync_wf = tables_wfD [OF in_syncD(4)]

lemma mirrors_put_version:
  assumes "in_sync t d s" "nul_free ctx" "nul_free subject"
  shows "mirrors t (write_batch [BVersions (RPut (store_key t (version_key ctx subject version)) rec),
      BMeta (RPut (store_key t (meta_ctx_key ctx)) [])] d) (apply_op (OpPutVersion ctx subject version rec) s)"
  unfolding mirrors_def using assms(2-) in_syncD(6) [OF assms(1)]
  by (intro conjI allI)
    (auto simp: in_sync_obs [OF assms(1)] view_put in_sync_wf [OF assms(1)] version_of_put in_syncD(5) [OF assms(1)] version_key_inj small_set.ins_elems)

lemma mirrors_delete_version:
  assumes "in_sync t d s" "nul_free ctx" "nul_free subject"
  shows "mirrors t (write_batch [BVersions (RDel (store_key t (version_key ctx subject version)))] d)
      (apply_op (OpDeleteVersion ctx subject version i) s)"
  unfolding mirrors_def using assms(2-)
  by (intro conjI allI)
    (auto simp: in_sync_obs [OF assms(1)] view_del in_sync_wf [OF assms(1)] version_of_delete in_syncD(5) [OF assms(1)] version_key_inj)

lemma mirrors_put_schema:
  assumes "in_sync t d s" "nul_free ctx"
  shows "mirrors t (write_batch (BSchemas (RPut k rec) #
      (if index then [BFingerprints (RPut (store_key t (fp_key ctx (sr_fingerprint rec))) (u32_to_be i))] else [])) d)
      (apply_op (OpPutSchema ctx i rec index) s)"
  unfolding mirrors_def using assms(2-)
  by (intro conjI allI)
    (auto simp: in_sync_obs [OF assms(1)] view_put in_sync_wf [OF assms(1)] fp_key_inj update_conv)

lemma mirrors_delete_schema:
  assumes "in_sync t d s"
  shows "mirrors t (write_batch [BSchemas (RDel k)] d) (apply_op (OpDeleteSchema ctx i) s)"
  using in_syncD(2) [OF assms(1)] by (simp add: mirrors_def)

lemma mirrors_put_refby:
  assumes "in_sync t d s" "nul_free ctx" "nul_free subject"
  shows "mirrors t (write_batch [BRefby (RPut (store_key t (refby_key ctx subject version i)) [])] d)
      (apply_op (OpPutRefby ctx subject version i) s)"
  unfolding mirrors_def using assms(2-) ctx_invD(6) [OF in_syncD(5) [OF assms(1)]]
  by (intro conjI allI)
    (auto simp: in_sync_obs [OF assms(1)] view_put in_sync_wf [OF assms(1)] refby_key_inj refby_put small_set.ins_elems)

lemma mirrors_delete_refby:
  assumes "in_sync t d s" "nul_free ctx" "nul_free subject"
  shows "mirrors t (write_batch [BRefby (RDel (store_key t (refby_key ctx subject version i)))] d)
      (apply_op (OpDeleteRefby ctx subject version i) s)"
proof -
  have sorted: "sorted_wrt (<) (refby_of (ctx_state_of s ctx) (subject, version))"
    using ctx_invD(6) [OF in_syncD(5) [OF assms(1)]] .
  have "j \<in> set (refby_of (ctx_state_of (apply_op (OpDeleteRefby ctx subject version i) s) c) (u, v)) \<longleftrightarrow>
      nul_free c \<and> nul_free u \<and> refby_key c u v j \<noteq> refby_key ctx subject version i
      \<and> map_of (view t (tbl_refby d)) (refby_key c u v j) \<noteq> None" for c u v j
    using sorted assms(2,3) refby_key_inj [of c ctx u subject v j version i] in_sync_obs(3) [OF assms(1), of j c u v]
    by (cases "c = ctx \<and> u = subject \<and> v = version") (auto simp: refby_delete small_set.del_elems)
  then show ?thesis
    unfolding mirrors_def
    by (simp add: in_sync_obs [OF assms(1)] view_del in_sync_wf [OF assms(1)])
qed

lemma mirrors_set_next_id:
  assumes "in_sync t d s"
  shows "mirrors t (write_batch [BMeta (RPut (store_key t (meta_next_id_key ctx)) (u32_to_be next))] d)
      (apply_op (OpSetNextId ctx next) s)"
  unfolding mirrors_def
  by (intro conjI allI) (auto simp: in_sync_obs [OF assms(1)] view_put in_sync_wf [OF assms(1)])

lemma mirrors_delete_context:
  assumes "in_sync t d s"
  shows "mirrors t (write_batch [BMeta (RDel (store_key t (meta_ctx_key ctx)))] d) (apply_op (OpDeleteContext ctx) s)"
  unfolding mirrors_def using in_syncD(6) [OF assms(1)]
  by (intro conjI allI) (auto simp: in_sync_obs [OF assms(1)] view_del in_sync_wf [OF assms(1)] small_set.del_elems)

lemma mirrors_put_config:
  assumes "in_sync t d s" "scope_ok sc"
  shows "mirrors t (write_batch [BConfig (RPut (store_key t (scope_key sc)) rec)] d) (apply_op (OpPutConfig sc rec) s)"
  unfolding mirrors_def using assms(2-)
  by (intro conjI allI) (auto simp: in_sync_obs [OF assms(1)] view_put in_sync_wf [OF assms(1)] update_conv scope_key_inj)

lemma mirrors_delete_config:
  assumes "in_sync t d s" "scope_ok sc"
  shows "mirrors t (write_batch [BConfig (RDel (store_key t (scope_key sc)))] d) (apply_op (OpDeleteConfig sc) s)"
  unfolding mirrors_def using assms(2-)
  by (intro conjI allI) (auto simp: in_sync_obs [OF assms(1)] view_del in_sync_wf [OF assms(1)] delete_conv scope_key_inj Let_def)

lemma mirrors_put_mode:
  assumes "in_sync t d s" "scope_ok sc"
  shows "mirrors t (write_batch [BMode (RPut (store_key t (scope_key sc)) m)] d) (apply_op (OpPutMode sc m) s)"
  unfolding mirrors_def using assms(2-)
  by (intro conjI allI) (auto simp: in_sync_obs [OF assms(1)] view_put in_sync_wf [OF assms(1)] update_conv scope_key_inj)

lemma mirrors_delete_mode:
  assumes "in_sync t d s" "scope_ok sc"
  shows "mirrors t (write_batch [BMode (RDel (store_key t (scope_key sc)))] d) (apply_op (OpDeleteMode sc) s)"
  unfolding mirrors_def using assms(2-)
  by (intro conjI allI) (auto simp: in_sync_obs [OF assms(1)] view_del in_sync_wf [OF assms(1)] delete_conv scope_key_inj)

end
