(* ===== verification/Writes.thy ===== *)
theory Writes
  imports Mirror
begin

text \<open>
  The rows a plan asks for (\<open>Write\<close> of \<open>src/src/mutations/mod.rs\<close>) and how the engine turns them into
  one transaction (\<open>apply\<close> of \<open>src/src/engine.rs\<close>): every write puts the same change into the
  RocksDB batch and into the list of snapshot operations, so that a snapshot that mirrors the rows
  keeps mirroring them.
\<close>

datatype registry_write =
    WPutSchema string u32 schema_record bool
  | WPutVersion string string u32 version_record
  | WDeleteVersion string string u32 u32
  | WDeleteSchema string u32
  | WPutRefby string string u32 u32
  | WDeleteRefby string string u32 u32
  | WSetNextId string u32
  | WPutConfig scope config_record
  | WDeleteConfig scope
  | WPutMode scope mode
  | WDeleteMode scope
  | WDeleteContext string
  | WPutExporter exporter_record
  | WDeleteExporter string

fun tx_write :: "allowed \<Rightarrow> registry_write \<Rightarrow> tx \<Rightarrow> tx" where
  "tx_write a (WPutSchema ctx i rec index) x = tx_put_schema ctx i rec index a x"
| "tx_write a (WPutVersion ctx subject version rec) x = tx_put_version ctx subject version rec a x"
| "tx_write a (WDeleteVersion ctx subject version i) x = tx_delete_version ctx subject version i a x"
| "tx_write a (WDeleteSchema ctx i) x = tx_delete_schema ctx i a x"
| "tx_write a (WPutRefby ctx subject version i) x = tx_put_refby ctx subject version i x"
| "tx_write a (WDeleteRefby ctx subject version i) x = tx_delete_refby ctx subject version i x"
| "tx_write a (WSetNextId ctx n) x = tx_set_next_id ctx n x"
| "tx_write a (WPutConfig sc rec) x = tx_put_config sc rec a x"
| "tx_write a (WDeleteConfig sc) x = tx_delete_config sc a x"
| "tx_write a (WPutMode sc m) x = tx_put_mode sc m a x"
| "tx_write a (WDeleteMode sc) x = tx_delete_mode sc a x"
| "tx_write a (WDeleteContext ctx) x = tx_delete_context ctx a x"
| "tx_write a (WPutExporter rec) x = tx_put_exporter rec a x"
| "tx_write a (WDeleteExporter name) x = tx_delete_exporter name a x"

text \<open>What one write contributes to the batch and to the snapshot operations.\<close>

definition write_tx :: "tenant_id \<Rightarrow> registry_write \<Rightarrow> tx" where
  "write_tx t w = tx_write Allowed w
     \<lparr>tx_store = t, tx_batch = [], tx_log_seq = 0, tx_log_dirty = False, tx_ops = []\<rparr>"

definition write_batch_of :: "tenant_id \<Rightarrow> registry_write \<Rightarrow> batch_op list" where
  "write_batch_of t w = tx_batch (write_tx t w)"

definition write_ops_of :: "registry_write \<Rightarrow> op list" where
  "write_ops_of w = tx_ops (write_tx default_tenant w)"

fun write_named :: "registry_write \<Rightarrow> bool" where
  "write_named (WPutSchema ctx i rec index) = nul_free ctx"
| "write_named (WPutVersion ctx subject version rec) = (nul_free ctx \<and> nul_free subject)"
| "write_named (WDeleteVersion ctx subject version i) = (nul_free ctx \<and> nul_free subject)"
| "write_named (WDeleteSchema ctx i) = nul_free ctx"
| "write_named (WPutRefby ctx subject version i) = (nul_free ctx \<and> nul_free subject)"
| "write_named (WDeleteRefby ctx subject version i) = (nul_free ctx \<and> nul_free subject)"
| "write_named (WPutConfig sc rec) = scope_ok sc"
| "write_named (WDeleteConfig sc) = scope_ok sc"
| "write_named (WPutMode sc m) = scope_ok sc"
| "write_named (WDeleteMode sc) = scope_ok sc"
| "write_named _ = True"

lemmas write_parts = write_batch_of_def write_ops_of_def write_tx_def tx_defs

lemma tx_write_parts:
  "tx_batch (tx_write a w x) = tx_batch x @ write_batch_of (tx_store x) w"
  "tx_ops (tx_write a w x) = tx_ops x @ write_ops_of w"
  "tx_store (tx_write a w x) = tx_store x"
  "tx_log_seq (tx_write a w x) = tx_log_seq x"
  "tx_log_dirty (tx_write a w x) = tx_log_dirty x"
  by (cases w; simp add: write_parts)+

lemma wf_write_row: "wf_table tbl \<Longrightarrow> wf_table (write_row r tbl)"
  by (cases r) (auto simp: om_update_wf om_delete_wf wf_table_filter)

lemma tables_wf_write_op: "tables_wf d \<Longrightarrow> tables_wf (write_op b d)"
  by (cases b) (auto simp: tables_wf_def wf_write_row)

lemma tables_wf_write_batch: "tables_wf d \<Longrightarrow> tables_wf (write_batch bs d)"
  by (induction bs arbitrary: d) (auto intro: tables_wf_write_op)

lemma write_batch_append: "write_batch (xs @ ys) d = write_batch ys (write_batch xs d)"
  by (induction xs arbitrary: d) auto

lemma apply_ops_append: "apply_ops (xs @ ys) s = apply_ops ys (apply_ops xs s)"
  by (induction xs arbitrary: s) auto

lemma ops_ok_append: "ops_ok (xs @ ys) s \<longleftrightarrow> ops_ok xs s \<and> ops_ok ys (apply_ops xs s)"
  by (induction xs arbitrary: s) auto

lemma rows_ok_write:
  assumes "rows_ok t d" and "write_named w"
  shows "rows_ok t (write_batch (write_batch_of t w) d)"
proof -
  note wf = rows_okD(1) [OF assms(1)]
  have "tables_wf (write_batch (write_batch_of t w) d)" using wf by (rule tables_wf_write_batch)
  then show ?thesis
    using assms(2) rows_okD(2-) [OF assms(1)] tables_wfD [OF wf]
    by (cases w) (auto simp: rows_ok_def write_parts view_put view_del split: if_splits)
qed

lemma mirrors_write:
  assumes "in_sync t d s" and "write_named w"
  shows "mirrors t (write_batch (write_batch_of t w) d) (apply_ops (write_ops_of w) s)"
proof (cases w)
  case (WPutSchema ctx i rec index)
  then show ?thesis
    using mirrors_put_schema [OF assms(1), of ctx "store_key t (schema_key ctx i)" rec index i] assms(2)
    by (cases index) (simp_all add: write_parts)
next
  case (WPutExporter r)
  then show ?thesis using in_syncD(2) [OF assms(1)] by (simp add: write_parts mirrors_def)
next
  case (WDeleteExporter n)
  then show ?thesis using in_syncD(2) [OF assms(1)] by (simp add: write_parts mirrors_def)
qed (use assms in \<open>simp_all add: write_parts mirrors_put_version [simplified] mirrors_delete_version [simplified]
      mirrors_delete_schema [simplified] mirrors_put_refby [simplified]
      mirrors_delete_refby [simplified] mirrors_set_next_id [simplified] mirrors_delete_context [simplified]
      mirrors_put_config [simplified] mirrors_delete_config [simplified] mirrors_put_mode [simplified]
      mirrors_delete_mode [simplified]\<close>)

lemma in_sync_write:
  assumes "in_sync t d s" and "write_named w" and "ops_ok (write_ops_of w) s"
  shows "in_sync t (write_batch (write_batch_of t w) d) (apply_ops (write_ops_of w) s)"
  using rows_ok_write [OF in_syncD(1) [OF assms(1)] assms(2)] mirrors_write [OF assms(1,2)]
    apply_ops_inv [OF in_syncD(3) [OF assms(1)] assms(3)]
  by (simp add: in_sync_def)

end
