(* ===== verification/Commit.thy ===== *)
theory Commit
  imports Writes
begin

text \<open>
  One plan, one commit (\<open>apply\<close> of \<open>src/src/engine.rs\<close> with \<open>Tx\<close> of \<open>src/src/store.rs\<close>): the
  writes of a plan go into the RocksDB batch and into the list of snapshot operations in lock-step,
  the log events follow, and one commit makes them durable.  The lemmas show that the running
  snapshot keeps mirroring the rows, that the change log is extended without gaps, that pruning
  keeps its tail, and that the rows of other containers are left alone.
\<close>

definition apply_tx :: "allowed \<Rightarrow> registry_write list \<Rightarrow> log_event list \<Rightarrow> tx \<Rightarrow> tx" where
  "apply_tx a ws evs x = fold tx_append_log evs (fold (tx_write a) ws x)"

definition commit_plan :: "tenant_id \<Rightarrow> allowed \<Rightarrow> registry_write list \<Rightarrow> log_event list \<Rightarrow> db \<Rightarrow> (db \<times> op list) option" where
  "commit_plan t a ws evs d = (case store_tx t d of
      None \<Rightarrow> None
    | Some x \<Rightarrow> Some (tx_commit (apply_tx a ws evs x) d))"

fun log_rows :: "tenant_id \<Rightarrow> u64 \<Rightarrow> log_event list \<Rightarrow> batch_op list" where
  "log_rows t q [] = []"
| "log_rows t q (ev # evs) = BLog (RPut (store_key t (u64_to_be q)) ev) # log_rows t (q + 1) evs"

definition writes_batch :: "tenant_id \<Rightarrow> registry_write list \<Rightarrow> batch_op list" where
  "writes_batch t ws = concat (map (write_batch_of t) ws)"

definition writes_ops :: "registry_write list \<Rightarrow> op list" where
  "writes_ops ws = concat (map write_ops_of ws)"

definition writes_ok :: "registry_write list \<Rightarrow> snapshot \<Rightarrow> bool" where
  "writes_ok ws s = (list_all write_named ws \<and> ops_ok (writes_ops ws) s)"

text \<open>The state of a container at rest: rows and snapshot agree, and so does the log sequence.\<close>

definition at_rest :: "tenant_id \<Rightarrow> db \<Rightarrow> snapshot \<Rightarrow> bool" where
  "at_rest t d s \<longleftrightarrow> in_sync t d s \<and> store_log_seq t d = Some (snap_log_seq s)"

fun row_in :: "tenant_id \<Rightarrow> 'v row \<Rightarrow> bool" where
  "row_in t (RPut k v) = (\<exists>r. k = store_key t r)"
| "row_in t (RDel k) = (\<exists>r. k = store_key t r)"
| "row_in t (RDelRange a b) = False"

fun batch_op_in :: "tenant_id \<Rightarrow> batch_op \<Rightarrow> bool" where
  "batch_op_in t (BSchemas r) = row_in t r"
| "batch_op_in t (BFingerprints r) = row_in t r"
| "batch_op_in t (BVersions r) = row_in t r"
| "batch_op_in t (BRefby r) = row_in t r"
| "batch_op_in t (BConfig r) = row_in t r"
| "batch_op_in t (BMode r) = row_in t r"
| "batch_op_in t (BExporters r) = row_in t r"
| "batch_op_in t (BLog r) = row_in t r"
| "batch_op_in t (BMeta r) = row_in t r"

text \<open>Two databases that hold the same rows of a container.\<close>

definition same_rows :: "tenant_id \<Rightarrow> db \<Rightarrow> db \<Rightarrow> bool" where
  "same_rows t d d' \<longleftrightarrow> view t (tbl_schemas d) = view t (tbl_schemas d')
     \<and> view t (tbl_fingerprints d) = view t (tbl_fingerprints d') \<and> view t (tbl_versions d) = view t (tbl_versions d')
     \<and> view t (tbl_refby d) = view t (tbl_refby d') \<and> view t (tbl_config d) = view t (tbl_config d')
     \<and> view t (tbl_mode d) = view t (tbl_mode d') \<and> view t (tbl_exporters d) = view t (tbl_exporters d')
     \<and> view t (tbl_log d) = view t (tbl_log d') \<and> view t (tbl_meta d) = view t (tbl_meta d')"

definition log_keys_ok :: "tenant_id \<Rightarrow> db \<Rightarrow> bool" where
  "log_keys_ok t d \<longleftrightarrow> (\<forall>k \<in> fst ` set (view t (tbl_log d)). \<exists>n. k = u64_to_be n)"

definition decode_log_row :: "bytes \<times> log_event \<Rightarrow> u64 \<times> log_event" where
  "decode_log_row = (\<lambda>(k, v). (of_nat (of_be k), v))"

text \<open>The rows of consecutive events, and a log without gaps between its floor and its sequence.\<close>

definition numbered :: "u64 \<Rightarrow> log_event list \<Rightarrow> (u64 \<times> log_event) list" where
  "numbered q evs = zip (map (\<lambda>i. q + of_nat i) [0..<length evs]) evs"

definition log_contents :: "tenant_id \<Rightarrow> db \<Rightarrow> (u64 \<times> log_event) list" where
  "log_contents t d = map decode_log_row (view t (tbl_log d))"

definition log_contiguous :: "tenant_id \<Rightarrow> db \<Rightarrow> bool" where
  "log_contiguous t d \<longleftrightarrow> (\<exists>f q. store_log_floor t d = Some f \<and> store_log_seq t d = Some q \<and> f \<le> q
     \<and> map fst (view t (tbl_log d)) = map (\<lambda>n. u64_to_be (of_nat n)) [unat f..<unat q])"

definition sample_writes :: "registry_write list" where
  "sample_writes =
    [WPutVersion ''.'' ''orders'' 1 \<lparr>vr_id = 1, vr_deleted = False, vr_ts = 0\<rparr>,
     WPutRefby ''.'' ''orders'' 1 2, WSetNextId ''.'' 2,
     WPutMode (ScSubject ''.'' ''orders'') Readonly]"

definition sample_event :: log_event where
  "sample_event = \<lparr>ev_ctx = ''.'', ev_subject = ''orders'', ev_version = 1, ev_id = 1, ev_kind = Register\<rparr>"

section \<open>One plan, one commit\<close>

lemma fold_tx_write:
  "tx_batch (fold (tx_write a) ws x) = tx_batch x @ writes_batch (tx_store x) ws"
  "tx_ops (fold (tx_write a) ws x) = tx_ops x @ writes_ops ws"
  "tx_store (fold (tx_write a) ws x) = tx_store x"
  "tx_log_seq (fold (tx_write a) ws x) = tx_log_seq x"
  "tx_log_dirty (fold (tx_write a) ws x) = tx_log_dirty x"
  by (induction ws arbitrary: x) (simp_all add: tx_write_parts writes_batch_def writes_ops_def)

lemma fold_append_log:
  "tx_batch (fold tx_append_log evs x) = tx_batch x @ log_rows (tx_store x) (tx_log_seq x) evs"
  "tx_ops (fold tx_append_log evs x) = tx_ops x"
  "tx_store (fold tx_append_log evs x) = tx_store x"
  "tx_log_seq (fold tx_append_log evs x) = tx_log_seq x + of_nat (length evs)"
  "tx_log_dirty (fold tx_append_log evs x) = (tx_log_dirty x \<or> evs \<noteq> [])"
  by (induction evs arbitrary: x) (simp_all add: tx_append_log_def tx_push_def ac_simps)

lemma commit_plan_parts:
  "commit_plan t a ws evs d = (case store_log_seq t d of
      None \<Rightarrow> None
    | Some q \<Rightarrow> Some
        (write_batch (writes_batch t ws @ log_rows t q evs
           @ (if evs = [] then [] else [BMeta (RPut (store_key t LOG_SEQ_KEY) (u64_to_be (q + of_nat (length evs))))])) d,
         writes_ops ws @ (if evs = [] then [] else [OpSetLogSeq (q + of_nat (length evs))])))"
  by (simp add: commit_plan_def store_tx_def apply_tx_def tx_commit_def Let_def fold_append_log fold_tx_write
      tx_push_def split: option.splits)

lemma in_sync_writes:
  assumes "in_sync t d s" and "writes_ok ws s"
  shows "in_sync t (write_batch (writes_batch t ws) d) (apply_ops (writes_ops ws) s)"
  using assms
proof (induction ws arbitrary: d s)
  case Nil
  then show ?case by (simp add: writes_batch_def writes_ops_def)
next
  case (Cons w ws)
  have "in_sync t (write_batch (write_batch_of t w) d) (apply_ops (write_ops_of w) s)"
    using Cons.prems by (intro in_sync_write) (auto simp: writes_ok_def writes_ops_def ops_ok_append)
  moreover have "writes_ok ws (apply_ops (write_ops_of w) s)"
    using Cons.prems(2) by (auto simp: writes_ok_def writes_ops_def ops_ok_append)
  ultimately show ?case
    using Cons.IH by (simp add: writes_batch_def writes_ops_def write_batch_append apply_ops_append)
qed

text \<open>The log is a table of its own: its rows touch nothing else.\<close>

lemma log_rows_frame:
  "tbl_schemas (write_batch (log_rows t q evs) d) = tbl_schemas d"
  "tbl_fingerprints (write_batch (log_rows t q evs) d) = tbl_fingerprints d"
  "tbl_versions (write_batch (log_rows t q evs) d) = tbl_versions d"
  "tbl_refby (write_batch (log_rows t q evs) d) = tbl_refby d"
  "tbl_config (write_batch (log_rows t q evs) d) = tbl_config d"
  "tbl_mode (write_batch (log_rows t q evs) d) = tbl_mode d"
  "tbl_exporters (write_batch (log_rows t q evs) d) = tbl_exporters d"
  "tbl_meta (write_batch (log_rows t q evs) d) = tbl_meta d"
  by (induction t q evs arbitrary: d rule: log_rows.induct) simp_all

lemma in_sync_log_rows:
  assumes "in_sync t d s"
  shows "in_sync t (write_batch (log_rows t q evs) d) s"
  using assms tables_wf_write_batch [OF in_syncD(4) [OF assms], of "log_rows t q evs"]
  by (simp add: in_sync_def rows_ok_def mirrors_def log_rows_frame)

lemma in_sync_set_log_seq:
  assumes "in_sync t d s"
  shows "in_sync t (write_batch [BMeta (RPut (store_key t LOG_SEQ_KEY) (u64_to_be q))] d) (apply_op (OpSetLogSeq q) s)"
proof -
  have wf: "wf_table (tbl_meta d)" using in_sync_wf [OF assms] by blast
  have tw: "tables_wf (write_batch [BMeta (RPut (store_key t LOG_SEQ_KEY) (u64_to_be q))] d)"
    by (rule tables_wf_write_batch [OF in_syncD(4) [OF assms]])
  have "snap_inv (apply_op (OpSetLogSeq q) s)"
    using in_syncD(3) [OF assms] by (intro apply_op_inv) auto
  then show ?thesis
    using assms tw unfolding in_sync_def rows_ok_def mirrors_def by (auto simp: view_put wf)
qed

lemma log_seq_after:
  assumes "tables_wf d"
  shows "store_log_seq t (write_batch [BMeta (RPut (store_key t LOG_SEQ_KEY) (u64_to_be q))] d) = Some q"
  by (simp add: store_log_seq_def meta_u64_def get_meta_def map_of_om_update)

lemma meta_counters_frame:
  assumes "tables_wf d" and "k \<in> {LOG_SEQ_KEY, LOG_FLOOR_KEY}"
  shows "get_meta t (write_batch (writes_batch t ws) d) k = get_meta t d k"
  using assms(1)
proof (induction ws arbitrary: d)
  case Nil
  then show ?case by (simp add: writes_batch_def)
next
  case (Cons w ws)
  have "get_meta t (write_batch (write_batch_of t w) d) k = get_meta t d k"
    using tables_wfD(9) [OF Cons.prems] assms(2)
    by (cases w) (auto simp: write_parts get_meta_def map_of_om_update map_of_om_delete)
  then show ?case
    using Cons.IH [OF tables_wf_write_batch [OF Cons.prems]]
    by (simp add: writes_batch_def write_batch_append)
qed

lemma apply_ops_log_seq: "snap_log_seq (apply_ops (writes_ops ws) s) = snap_log_seq s"
proof (induction ws arbitrary: s)
  case Nil
  then show ?case by (simp add: writes_ops_def)
next
  case (Cons w ws)
  have "snap_log_seq (apply_ops (write_ops_of w) s) = snap_log_seq s"
    by (cases w) (auto simp: write_parts Let_def)
  then show ?case using Cons.IH by (simp add: writes_ops_def apply_ops_append)
qed

lemma commit_at_rest:
  assumes "at_rest t d s" and "writes_ok ws s"
  obtains d' xs where "commit_plan t a ws evs d = Some (d', xs)" and "at_rest t d' (apply_ops xs s)"
    and "xs = writes_ops ws @ (if evs = [] then [] else [OpSetLogSeq (snap_log_seq s + of_nat (length evs))])"
proof -
  have sync: "in_sync t d s" and q: "store_log_seq t d = Some (snap_log_seq s)"
    using assms(1) by (auto simp: at_rest_def)
  let ?d1 = "write_batch (writes_batch t ws) d" and ?s1 = "apply_ops (writes_ops ws) s"
  let ?d2 = "write_batch (log_rows t (snap_log_seq s) evs) ?d1"
  have sync1: "in_sync t ?d1 ?s1" using in_sync_writes [OF sync assms(2)] .
  have sync2: "in_sync t ?d2 ?s1" using in_sync_log_rows [OF sync1] .
  have q1: "store_log_seq t ?d2 = Some (snap_log_seq s)"
    using meta_counters_frame [OF in_syncD(4) [OF sync], of LOG_SEQ_KEY] q
    by (simp add: store_log_seq_def meta_u64_def get_meta_def log_rows_frame)
  show thesis
  proof (cases "evs = []")
    case True
    then have "commit_plan t a ws evs d = Some (?d1, writes_ops ws)"
      using q by (simp add: commit_plan_parts write_batch_append)
    moreover have "at_rest t ?d1 ?s1"
      using sync1 q1 True by (simp add: at_rest_def apply_ops_log_seq)
    ultimately show thesis using that True by simp
  next
    case False
    let ?q = "snap_log_seq s + of_nat (length evs)"
    let ?d3 = "write_batch [BMeta (RPut (store_key t LOG_SEQ_KEY) (u64_to_be ?q))] ?d2"
    have "commit_plan t a ws evs d = Some (?d3, writes_ops ws @ [OpSetLogSeq ?q])"
      using q False by (simp add: commit_plan_parts write_batch_append)
    moreover have "at_rest t ?d3 (apply_ops (writes_ops ws @ [OpSetLogSeq ?q]) s)"
      using in_sync_set_log_seq [OF sync2, of ?q] log_seq_after [OF in_syncD(4) [OF sync2], of t ?q]
      by (simp add: at_rest_def apply_ops_append)
    ultimately show thesis using that False by simp
  qed
qed

section \<open>Other containers\<close>

lemma view_write_row_other:
  assumes "wf_table tbl" "wf_tenant t" "wf_tenant t'" "t \<noteq> t'" "row_in t r"
  shows "view t' (write_row r tbl) = view t' tbl"
  using assms view_other [OF assms(1-4)] by (cases r) auto

lemma same_rows_write_op:
  assumes "tables_wf d" "wf_tenant t" "wf_tenant t'" "t \<noteq> t'" "batch_op_in t b"
  shows "same_rows t' (write_op b d) d"
  using assms(5) tables_wfD [OF assms(1)]
  by (cases b) (simp_all add: same_rows_def view_write_row_other [OF _ assms(2,3,4)])

lemma same_rows_trans: "same_rows t a b \<Longrightarrow> same_rows t b c \<Longrightarrow> same_rows t a c"
  by (simp add: same_rows_def)

lemma same_rows_write_batch:
  assumes "tables_wf d" "wf_tenant t" "wf_tenant t'" "t \<noteq> t'" "list_all (batch_op_in t) bs"
  shows "same_rows t' (write_batch bs d) d"
  using assms(1,5)
proof (induction bs arbitrary: d)
  case Nil
  then show ?case by (simp add: same_rows_def)
next
  case (Cons b bs)
  then show ?case
    using same_rows_trans [OF Cons.IH [of "write_op b d"] same_rows_write_op [OF Cons.prems(1) assms(2,3,4), of b]]
      tables_wf_write_op by simp
qed

lemma writes_batch_in: "list_all (batch_op_in t) (writes_batch t ws)"
proof -
  have "list_all (batch_op_in t) (write_batch_of t w)" for w
    by (cases w) (auto simp: write_parts)
  then show ?thesis by (induction ws) (auto simp: writes_batch_def)
qed

lemma log_rows_in: "list_all (batch_op_in t) (log_rows t q evs)"
  by (induction t q evs rule: log_rows.induct) auto

lemma commit_plan_same_rows:
  assumes "tables_wf d" "wf_tenant t" "wf_tenant t'" "t \<noteq> t'" "commit_plan t a ws evs d = Some (d', xs)"
  shows "same_rows t' d' d"
proof -
  obtain q where "store_log_seq t d = Some q"
    using assms(5) by (auto simp: commit_plan_parts split: option.splits)
  then have d': "d' = write_batch (writes_batch t ws @ log_rows t q evs
      @ (if evs = [] then [] else [BMeta (RPut (store_key t LOG_SEQ_KEY) (u64_to_be (q + of_nat (length evs))))])) d"
    using assms(5) by (simp add: commit_plan_parts)
  show ?thesis
    unfolding d' by (rule same_rows_write_batch [OF assms(1-4)])
      (auto simp: writes_batch_in log_rows_in)
qed

section \<open>Reading the log\<close>

lemma dropWhile_less_filter:
  "wf_table tbl \<Longrightarrow> dropWhile (\<lambda>(k, _). k < start) tbl = filter (\<lambda>(k, _). start \<le> k) tbl"
proof (induction tbl)
  case (Cons p tbl)
  obtain k v where p: "p = (k, v)" by fastforce
  show ?case
  proof (cases "k < start")
    case False
    then have "\<forall>q \<in> set tbl. start \<le> fst q" using Cons.prems p by (fastforce simp: wf_table_Cons)
    then have "filter (\<lambda>(k, _). start \<le> k) tbl = tbl" by (auto simp: filter_id_conv)
    then show ?thesis using False p by simp
  qed (use Cons p in \<open>auto simp: wf_table_Cons\<close>)
qed simp

lemma decode_log_row_be [simp]: "decode_log_row (u64_to_be n, ev) = (n, ev)"
  by (simp add: decode_log_row_def of_be_u64)

lemma read_log_rows_spec:
  assumes "\<forall>(k, v) \<in> set rows. starts_with k p \<longrightarrow> (\<exists>n. k = p @ u64_to_be n)" and "length out < max 1 limit"
  shows "read_log_rows p limit rows out = take (max 1 limit)
    (out @ map (\<lambda>(k, v). decode_log_row (drop (length p) k, v)) (takeWhile (\<lambda>(k, _). starts_with k p) rows))"
  using assms
proof (induction p limit rows out rule: read_log_rows.induct)
  case (2 p limit k v rows out)
  show ?case
  proof (cases "starts_with k p")
    case True
    then obtain n where k: "k = p @ u64_to_be n" using "2.prems"(1) by auto
    have "length out + 1 \<le> max 1 limit" using "2.prems"(2) by simp
    then show ?thesis
      using k "2.IH" [of n "out @ [(n, v)]"] "2.prems" by (auto simp: Let_def min_def max_def)
  qed (use "2.prems" in simp)
qed simp

lemma read_log_rows_takeWhile:
  "read_log_rows p limit rows out = read_log_rows p limit (takeWhile (\<lambda>(k, _). starts_with k p) rows) out"
  by (induction p limit rows out rule: read_log_rows.induct) (auto simp: Let_def split: option.splits)

lemma strip_filter:
  "filter (\<lambda>(k, _). starts_with k (key_prefix t)) (filter (\<lambda>(k, _). store_key t lo \<le> k) tbl)
    = map (\<lambda>(k, v). (key_prefix t @ k, v)) (filter (\<lambda>(k, _). lo \<le> k)
        (map (\<lambda>(k, v). (drop (length (key_prefix t)) k, v)) (filter (\<lambda>(k, _). starts_with k (store_key t [])) tbl)))"
  by (induction tbl) (auto simp: store_key_def starts_with_iff)

text \<open>What a reader of the log sees depends only on the container's own rows.\<close>

lemma read_log_view:
  assumes "wf_table (tbl_log d)"
  shows "read_log t d from limit = read_log_rows (key_prefix t) limit
    (map (\<lambda>(k, v). (key_prefix t @ k, v)) (filter (\<lambda>(k, _). u64_to_be from \<le> k) (view t (tbl_log d)))) []"
proof -
  let ?p = "key_prefix t" and ?start = "store_key t (u64_to_be from)"
  let ?rows = "filter (\<lambda>(k, _). ?start \<le> k) (tbl_log d)"
  have ge: "?p \<le> k" if "?start \<le> k" for k
    using that starts_with_ge [of ?start ?p] by (auto simp: store_key_def)
  have "takeWhile (\<lambda>(k, _). starts_with k ?p) ?rows = filter (\<lambda>(k, _). starts_with k ?p) ?rows"
    using wf_table_filter [OF assms] ge by (intro takeWhile_prefix_filter) auto
  also have "\<dots> = map (\<lambda>(k, v). (?p @ k, v)) (filter (\<lambda>(k, _). u64_to_be from \<le> k) (view t (tbl_log d)))"
    unfolding scan_prefix_eq [OF assms] by (rule strip_filter)
  finally show ?thesis
    using read_log_rows_takeWhile [of ?p limit ?rows "[]"]
    by (simp add: read_log_def Let_def dropWhile_less_filter [OF assms])
qed

lemma read_log_spec:
  assumes "wf_table (tbl_log d)" and "log_keys_ok t d"
  shows "read_log t d from limit = take (max 1 limit)
    (map decode_log_row (filter (\<lambda>(k, _). u64_to_be from \<le> k) (view t (tbl_log d))))"
proof -
  let ?p = "key_prefix t"
  let ?rows = "map (\<lambda>(k, v). (?p @ k, v)) (filter (\<lambda>(k, _). u64_to_be from \<le> k) (view t (tbl_log d)))"
  have form: "\<forall>(k, v) \<in> set ?rows. starts_with k ?p \<longrightarrow> (\<exists>n. k = ?p @ u64_to_be n)"
    using assms(2) by (force simp: log_keys_ok_def)
  have all: "takeWhile (\<lambda>(k, _). starts_with k ?p) ?rows = ?rows"
    by (auto simp: takeWhile_eq_all_conv starts_with_iff)
  have "read_log_rows ?p limit ?rows []
      = take (max 1 limit) (map (\<lambda>(k, v). decode_log_row (drop (length ?p) k, v)) ?rows)"
    using read_log_rows_spec [OF form, of "[]" limit, unfolded all] by (simp add: less_max_iff_disj del: map_map)
  then show ?thesis by (simp add: read_log_view [OF assms(1)] split_beta o_def)
qed

lemma same_rows_lookup:
  assumes "same_rows t d d'" "tables_wf d" "tables_wf d'"
  shows "store_get_schema t d = store_get_schema t d'" and "get_meta t d = get_meta t d'"
    and "store_get_exporter t d = store_get_exporter t d'"
proof -
  have "map_of (view t (tbl_schemas d)) = map_of (view t (tbl_schemas d'))"
    "map_of (view t (tbl_meta d)) = map_of (view t (tbl_meta d'))"
    "map_of (view t (tbl_exporters d)) = map_of (view t (tbl_exporters d'))"
    using assms(1) by (simp_all add: same_rows_def)
  then show "store_get_schema t d = store_get_schema t d'" "get_meta t d = get_meta t d'"
    "store_get_exporter t d = store_get_exporter t d'"
    using tables_wfD [OF assms(2)] tables_wfD [OF assms(3)]
    by (auto simp: fun_eq_iff map_of_view store_get_schema_def get_meta_def store_get_exporter_def)
qed

lemma same_rows_load:
  assumes "same_rows t d d'" "tables_wf d" "tables_wf d'"
  shows "load_snapshot t d = load_snapshot t d'"
  using assms(1) same_rows_lookup(2) [OF assms]
  by (simp add: same_rows_def load_snapshot_def store_log_seq_def meta_u64_def)

section \<open>The change log\<close>

lemma view_put_last:
  assumes "wf_table tbl" and "\<forall>k' \<in> fst ` set (view t tbl). k' < k"
  shows "view t (om_update (store_key t k) v tbl) = view t tbl @ [(k, v)]"
proof (rule wf_table_ext)
  show "wf_table (view t (om_update (store_key t k) v tbl))" using assms by (intro view_wf om_update_wf)
  show "wf_table (view t tbl @ [(k, v)])" using assms view_wf by (auto simp: wf_table_append wf_table_Cons)
  have "map_of (view t tbl) k = None" using assms(2) by (auto simp: map_of_eq_None_iff)
  then show "map_of (view t (om_update (store_key t k) v tbl)) = map_of (view t tbl @ [(k, v)])"
    using assms(1) by (auto simp: view_put fun_eq_iff map_add_def split: option.splits)
qed

lemma numbered_Nil [simp]: "numbered q [] = []"
  by (simp add: numbered_def)

lemma numbered_Cons [simp]: "numbered q (ev # evs) = (q, ev) # numbered (q + 1) evs"
  by (simp add: numbered_def upt_conv_Cons map_Suc_upt [symmetric] o_def ac_simps del: upt_Suc map_Suc_upt)

lemma unat_u64_add: "unat q + n < 2 ^ 64 \<Longrightarrow> unat ((q :: u64) + of_nat n) = unat q + n"
  by (simp add: unat_word_ariths(1) unat_of_nat)

lemma log_view_frame:
  "tables_wf d \<Longrightarrow> view t (tbl_log (write_batch (writes_batch t ws) d)) = view t (tbl_log d)"
proof (induction ws arbitrary: d)
  case Nil
  then show ?case by (simp add: writes_batch_def)
next
  case (Cons w ws)
  have "tbl_log (write_batch (write_batch_of t w) d) = tbl_log d"
    by (cases w) (auto simp: write_parts)
  then show ?case
    using Cons.IH [OF tables_wf_write_batch [OF Cons.prems]]
    by (simp add: writes_batch_def write_batch_append)
qed

lemma log_view_rows:
  assumes "tables_wf d" and "\<forall>k \<in> fst ` set (view t (tbl_log d)). k < u64_to_be q"
    and "unat q + length evs < 2 ^ 64"
  shows "view t (tbl_log (write_batch (log_rows t q evs) d))
    = view t (tbl_log d) @ map (\<lambda>(n, ev). (u64_to_be n, ev)) (numbered q evs)"
  using assms
proof (induction evs arbitrary: d q)
  case (Cons ev evs)
  let ?d = "write_op (BLog (RPut (store_key t (u64_to_be q)) ev)) d"
  have q1: "unat (q + 1) = unat q + 1" using Cons.prems(3) unat_u64_add [of q 1] by simp
  have step: "view t (tbl_log ?d) = view t (tbl_log d) @ [(u64_to_be q, ev)]"
    using view_put_last [OF tables_wfD(8) [OF Cons.prems(1)] Cons.prems(2)] by simp
  have "q < q + 1" using q1 by (simp add: word_less_nat_alt)
  then have "\<forall>k \<in> fst ` set (view t (tbl_log ?d)). k < u64_to_be (q + 1)"
    using Cons.prems(2) unfolding step by (auto intro: less_trans)
  then have "view t (tbl_log (write_batch (log_rows t (q + 1) evs) ?d))
      = view t (tbl_log ?d) @ map (\<lambda>(n, ev). (u64_to_be n, ev)) (numbered (q + 1) evs)"
    using Cons.prems(3) q1 by (intro Cons.IH tables_wf_write_op Cons.prems(1)) auto
  then show ?case using step by simp
qed simp

lemma numbered_keys:
  "unat q + length evs < 2 ^ 64 \<Longrightarrow>
    map fst (map (\<lambda>(n, ev). (u64_to_be n, ev)) (numbered q evs))
      = map (\<lambda>n. u64_to_be (of_nat n)) [unat q..<unat q + length evs]"
proof (induction evs arbitrary: q)
  case (Cons ev evs)
  have "unat (q + 1) = unat q + 1" using Cons.prems unat_u64_add [of q 1] by simp
  then show ?case
    using Cons.IH [of "q + 1"] Cons.prems by (simp add: upt_conv_Cons split_beta o_def del: upt_Suc)
qed simp

lemma decode_numbered:
  "map decode_log_row (map (\<lambda>(n, ev). (u64_to_be n, ev)) (numbered q evs)) = numbered q evs"
  by (induction evs arbitrary: q) auto

lemma log_contiguousD:
  assumes "log_contiguous t d"
  shows "log_keys_ok t d"
    and "store_log_seq t d = Some q \<Longrightarrow> \<forall>k \<in> fst ` set (view t (tbl_log d)). k < u64_to_be q"
proof -
  obtain f :: u64 and q' where fq: "store_log_seq t d = Some q'"
    "map fst (view t (tbl_log d)) = map (\<lambda>n. u64_to_be (of_nat n)) [unat f..<unat q']"
    using assms unfolding log_contiguous_def by blast
  have keys: "fst ` set (view t (tbl_log d)) = (\<lambda>n. u64_to_be (of_nat n)) ` {unat f..<unat q'}"
    using arg_cong [OF fq(2), of set] by simp
  then show "log_keys_ok t d" unfolding log_keys_ok_def by blast
  have "(of_nat n :: u64) < q'" if "n < unat q'" for n
    using that unsigned_less [of q'] by (simp add: word_less_nat_alt unat_of_nat)
  then show "\<forall>k \<in> fst ` set (view t (tbl_log d)). k < u64_to_be q" if "store_log_seq t d = Some q"
    using keys fq(1) that by auto
qed

lemma u64_to_be_le [simp]: "u64_to_be v \<le> u64_to_be w \<longleftrightarrow> v \<le> w"
  by (simp add: linorder_not_less [symmetric])

lemma read_log_contents:
  assumes "wf_table (tbl_log d)" and "log_keys_ok t d"
  shows "read_log t d from limit = take (max 1 limit) (filter (\<lambda>(n, _). from \<le> n) (log_contents t d))"
proof -
  have "map decode_log_row (filter (\<lambda>(k, _). u64_to_be from \<le> k) xs) = filter (\<lambda>(n, _). from \<le> n) (map decode_log_row xs)"
    if "\<forall>k \<in> fst ` set xs. \<exists>n. k = u64_to_be n" for xs
    using that by (induction xs) auto
  then show ?thesis
    using read_log_spec [OF assms] assms(2) by (simp add: log_contents_def log_keys_ok_def)
qed

text \<open>Loading the rows of a container at rest gives its running snapshot, up to the representation.\<close>

lemma at_rest_load:
  assumes "at_rest t d s"
  shows "\<exists>s'. load_snapshot t d = Inr s' \<and> same_answers s' s \<and> snap_log_seq s' = snap_log_seq s"
proof -
  have sync: "in_sync t d s" and q: "store_log_seq t d = Some (snap_log_seq s)"
    using assms by (auto simp: at_rest_def)
  obtain s' where s': "load_snapshot t d = Inr s'" "mirrors t d s'" "ctxs_inv s'"
    "sorted_wrt (<) (known_contexts s')" "store_log_seq t d = Some (snap_log_seq s')"
    using load_snapshot_mirrors [OF in_syncD(1) [OF sync]] by blast
  have "same_answers s' s"
    using mirrors_same_answers [OF s'(2) in_syncD(2) [OF sync] s'(3)] s'(4) in_syncD(3) [OF sync]
    by (simp add: snap_inv_def ctxs_inv_def)
  moreover have "snap_log_seq s' = snap_log_seq s"
    using s'(5) q by simp
  ultimately show ?thesis using s'(1) by blast
qed

lemma commit_log_step:
  assumes "tables_wf d" and "log_contiguous t d" and "store_log_seq t d = Some q"
    and "unat q + length evs < 2 ^ 64"
  shows "\<exists>d' xs. commit_plan t a ws evs d = Some (d', xs) \<and> log_contiguous t d'
    \<and> store_log_seq t d' = Some (q + of_nat (length evs))
    \<and> log_contents t d' = log_contents t d @ numbered q evs \<and> wf_table (tbl_log d') \<and> log_keys_ok t d'"
proof -
  let ?n = "of_nat (length evs) :: u64"
  let ?d1 = "write_batch (writes_batch t ws) d"
  let ?d2 = "write_batch (log_rows t q evs) ?d1"
  let ?d' = "write_batch (if evs = [] then [] else [BMeta (RPut (store_key t LOG_SEQ_KEY) (u64_to_be (q + ?n)))]) ?d2"
  obtain f where f: "store_log_floor t d = Some f" "f \<le> q"
    "map fst (view t (tbl_log d)) = map (\<lambda>n. u64_to_be (of_nat n)) [unat f..<unat q]"
    using assms(2,3) unfolding log_contiguous_def by auto
  have wf1: "tables_wf ?d1" using assms(1) by (rule tables_wf_write_batch)
  have wf': "tables_wf ?d'" by (intro tables_wf_write_batch assms(1))
  have frame: "get_meta t ?d2 k = get_meta t d k" if "k \<in> {LOG_SEQ_KEY, LOG_FLOOR_KEY}" for k
    using meta_counters_frame [OF assms(1) that] by (simp add: get_meta_def log_rows_frame)
  have view': "view t (tbl_log ?d') = view t (tbl_log d) @ map (\<lambda>(n, ev). (u64_to_be n, ev)) (numbered q evs)"
    using log_view_rows [OF wf1, of t q evs] log_view_frame [OF assms(1)] log_contiguousD(2) [OF assms(2,3)] assms(4)
    by simp
  have seq: "store_log_seq t ?d' = Some (q + ?n)"
    using frame [of LOG_SEQ_KEY] assms(3)
    by (cases "evs = []") (simp_all add: store_log_seq_def meta_u64_def get_meta_def map_of_om_update)
  have floor: "store_log_floor t ?d' = Some f"
    using frame [of LOG_FLOOR_KEY] f(1)
    by (cases "evs = []") (simp_all add: store_log_floor_def meta_u64_def get_meta_def map_of_om_update)
  have qn: "unat (q + ?n) = unat q + length evs" using assms(4) by (rule unat_u64_add)
  have "map fst (view t (tbl_log ?d')) = map (\<lambda>n. u64_to_be (of_nat n)) [unat f..<unat (q + ?n)]"
    using f numbered_keys [OF assms(4)] qn upt_add_eq_append [of "unat f" "unat q" "length evs"]
    unfolding view' by (simp add: word_le_nat_alt)
  moreover have "f \<le> q + ?n" using f(2) qn by (simp add: word_le_nat_alt)
  ultimately have cont: "log_contiguous t ?d'" unfolding log_contiguous_def using seq floor by blast
  have "commit_plan t a ws evs d = Some (?d', writes_ops ws @ (if evs = [] then [] else [OpSetLogSeq (q + ?n)]))"
    using assms(3) by (simp add: commit_plan_parts write_batch_append)
  moreover have "log_contents t ?d' = log_contents t d @ numbered q evs"
    unfolding log_contents_def view' by (simp add: decode_numbered del: map_map)
  ultimately show ?thesis using cont seq tables_wfD(8) [OF wf'] log_contiguousD(1) [OF cont] by blast
qed

lemma prune_view:
  assumes "wf_table tbl"
  shows "view t (filter (\<lambda>(k, _). \<not> (store_key t a \<le> k \<and> k < store_key t b)) tbl)
    = filter (\<lambda>(k, _). \<not> (a \<le> k \<and> k < b)) (view t tbl)"
  unfolding scan_prefix_eq [OF assms] scan_prefix_eq [OF wf_table_filter [OF assms]]
  by (induction tbl) (auto simp: store_key_def starts_with_iff)

text \<open>C13. A commit changes rows and snapshot in lock-step: from a state in which the running snapshot
  agrees with the stored rows, committing a plan's writes succeeds, and a process that is killed
  right after the commit and loads its snapshot from the database answers every query exactly like
  the process that applied the operations in memory.\<close>

theorem commit_restart_equivalent:
  assumes "at_rest t d s" and "writes_ok ws s"
  shows "\<exists>d' xs s'. commit_plan t a ws evs d = Some (d', xs) \<and> at_rest t d' (apply_ops xs s)
    \<and> load_snapshot t d' = Inr s' \<and> same_answers s' (apply_ops xs s) \<and> snap_log_seq s' = snap_log_seq (apply_ops xs s)"
proof -
  obtain d' xs where step: "commit_plan t a ws evs d = Some (d', xs)" "at_rest t d' (apply_ops xs s)"
    using commit_at_rest [OF assms, where thesis = "\<exists>d' xs. commit_plan t a ws evs d = Some (d', xs) \<and> at_rest t d' (apply_ops xs s)"]
    by blast
  then show ?thesis using at_rest_load [OF step(2)] by blast
qed

text \<open>C14. Containers are isolated: whatever one container commits, a snapshot load, every schema
  lookup, every read of the change log and every exporter lookup of another container give what
  they gave before.\<close>

theorem commit_isolated:
  assumes "tables_wf d" "wf_tenant t" "wf_tenant t'" "t \<noteq> t'" "commit_plan t a ws evs d = Some (d', xs)"
  shows "load_snapshot t' d' = load_snapshot t' d
    \<and> store_get_schema t' d' = store_get_schema t' d \<and> read_log t' d' = read_log t' d
    \<and> store_list_exporters t' d' = store_list_exporters t' d \<and> store_get_exporter t' d' = store_get_exporter t' d
    \<and> store_log_seq t' d' = store_log_seq t' d \<and> store_log_floor t' d' = store_log_floor t' d"
proof -
  have same: "same_rows t' d' d" using commit_plan_same_rows [OF assms] .
  have wf': "tables_wf d'"
    using assms(1,5) by (auto simp: commit_plan_parts tables_wf_write_batch split: option.splits)
  have log: "read_log t' d' = read_log t' d"
    using same tables_wfD(8) [OF wf'] tables_wfD(8) [OF assms(1)]
    by (simp add: fun_eq_iff read_log_view same_rows_def)
  show ?thesis
    using same_rows_load [OF same wf' assms(1)] same_rows_lookup [OF same wf' assms(1)] same log
    by (simp add: store_log_seq_def store_log_floor_def meta_u64_def same_rows_def store_list_exporters_def)
qed

text \<open>C15. The change log gains exactly the events of a commit, in order and numbered from the old
  sequence, the log has no gap between its floor and its sequence afterwards, and a reader
  that asks for entries from a position gets the first ones at or after it.\<close>

theorem commit_appends_log:
  assumes "tables_wf d" and "log_contiguous t d" and "store_log_seq t d = Some q"
    and "unat q + length evs < 2 ^ 64"
  shows "\<exists>d' xs. commit_plan t a ws evs d = Some (d', xs) \<and> log_contiguous t d'
    \<and> store_log_seq t d' = Some (q + of_nat (length evs))
    \<and> log_contents t d' = log_contents t d @ numbered q evs
    \<and> read_log t d' from limit = take (max 1 limit) (filter (\<lambda>(n, _). from \<le> n) (log_contents t d'))"
  using commit_log_step [OF assms] read_log_contents by blast

lemma at_rest_empty: "at_rest t db_empty snapshot_default"
  using ctx_inv_default [unfolded ctx_default_def]
  by (simp add: at_rest_def in_sync_def rows_ok_def mirrors_def tables_wf_def db_empty_def scan_prefix_def
      store_log_seq_def meta_u64_def get_meta_def snap_inv_def snapshot_default_def ctx_state_of_def
      Let_def version_of_def refby_of_def ctx_default_def)

lemma log_contiguous_empty: "log_contiguous t db_empty"
  by (simp add: log_contiguous_def db_empty_def scan_prefix_def store_log_floor_def store_log_seq_def
      meta_u64_def get_meta_def)

lemma unat_of_nat_below: "n < unat (q :: u64) \<Longrightarrow> unat (of_nat n :: u64) = n"
  using unat_u64_bound [of q] by (simp add: unat_of_nat)

lemma log_contents_bounds:
  assumes "log_contiguous t d" "store_log_floor t d = Some f" "(n, ev) \<in> set (log_contents t d)"
  shows "f \<le> n"
proof -
  obtain q :: u64 where keys: "map fst (view t (tbl_log d)) = map (\<lambda>n. u64_to_be (of_nat n)) [unat f..<unat q]"
    using assms(1,2) unfolding log_contiguous_def by (metis option.inject)
  obtain k where k: "(k, ev) \<in> set (view t (tbl_log d))" "n = of_nat (of_be k)"
    using assms(3) by (auto simp: log_contents_def decode_log_row_def)
  have "k \<in> set (map fst (view t (tbl_log d)))" using k(1) by force
  then obtain m where m: "k = u64_to_be (of_nat m)" "unat f \<le> m" "m < unat q" unfolding keys by auto
  then have "n = of_nat m" using k(2) by (simp add: of_be_u64)
  then show ?thesis using m(2) unat_of_nat_below [OF m(3)] by (simp add: word_le_nat_alt)
qed

lemma map_fst_filter: "map fst (filter (\<lambda>(k, _). P k) xs) = filter P (map fst xs)"
  by (induction xs) auto

lemma pruned_keys:
  assumes "unat b \<le> unat (q :: u64)" "unat f \<le> unat b"
  shows "filter (\<lambda>k. \<not> (u64_to_be 0 \<le> k \<and> k < u64_to_be b)) (map (\<lambda>n. u64_to_be (of_nat n)) [unat f..<unat q])
    = map (\<lambda>n. u64_to_be (of_nat n)) [unat b..<unat q]"
proof -
  have "filter (\<lambda>n. \<not> (of_nat n :: u64) < b) [unat f..<unat q] = filter (\<lambda>n. unat b \<le> n) [unat f..<unat q]"
    by (rule filter_cong) (auto simp: word_less_nat_alt unat_of_nat_below not_less)
  also have "\<dots> = [unat b..<unat q]"
    using assms by (intro sorted_distinct_set_unique) (auto intro: sorted_filter [of "\<lambda>x. x", simplified])
  finally show ?thesis by (simp add: filter_map o_def)
qed

lemma decode_pruned:
  "\<forall>k \<in> fst ` set xs. \<exists>n. k = u64_to_be n \<Longrightarrow>
    map decode_log_row (filter (\<lambda>(k, _). \<not> (u64_to_be 0 \<le> k \<and> k < u64_to_be b)) xs)
      = filter (\<lambda>(n, _). b \<le> n) (map decode_log_row xs)"
  by (induction xs) (auto simp: not_less)

lemma pruned_log:
  assumes "tables_wf d" "log_contiguous t d" "store_log_seq t d = Some q" "before \<le> q"
  shows "\<exists>d'. prune_log t before d = Some d' \<and> log_contiguous t d' \<and> store_log_seq t d' = Some q
    \<and> log_contents t d' = filter (\<lambda>(n, _). before \<le> n) (log_contents t d)
    \<and> (\<exists>f. store_log_floor t d = Some f \<and> store_log_floor t d' = Some (max f before))"
proof -
  obtain f where f: "store_log_floor t d = Some f" "f \<le> q"
    "map fst (view t (tbl_log d)) = map (\<lambda>n. u64_to_be (of_nat n)) [unat f..<unat q]"
    using assms(2,3) unfolding log_contiguous_def by auto
  show ?thesis
  proof (cases "before \<le> f")
    case True
    then have "filter (\<lambda>(n, _). before \<le> n) (log_contents t d) = log_contents t d"
      using log_contents_bounds [OF assms(2) f(1)] by (auto simp: filter_id_conv intro: order_trans)
    then show ?thesis using True f assms(2,3) by (simp add: prune_log_def max_def)
  next
    case False
    let ?d' = "write_batch [BLog (RDelRange (store_key t (u64_to_be 0)) (store_key t (u64_to_be before))),
           BMeta (RPut (store_key t LOG_FLOOR_KEY) (u64_to_be before))] d"
    have view': "view t (tbl_log ?d')
        = filter (\<lambda>(k, _). \<not> (u64_to_be 0 \<le> k \<and> k < u64_to_be before)) (view t (tbl_log d))"
      using prune_view [OF tables_wfD(8) [OF assms(1)]] by simp
    have "map fst (view t (tbl_log ?d')) = map (\<lambda>n. u64_to_be (of_nat n)) [unat before..<unat q]"
      using pruned_keys [of before q f] False assms(4) unfolding view' map_fst_filter f(3)
      by (simp add: word_le_nat_alt)
    moreover have "store_log_floor t ?d' = Some before" "store_log_seq t ?d' = Some q"
      using assms(3) by (simp_all add: store_log_floor_def store_log_seq_def meta_u64_def get_meta_def map_of_om_update)
    ultimately have "log_contiguous t ?d'" unfolding log_contiguous_def using assms(4) by blast
    moreover have "log_contents t ?d' = filter (\<lambda>(n, _). before \<le> n) (log_contents t d)"
      using log_contiguousD(1) [OF assms(2)] unfolding log_contents_def view' log_keys_ok_def
      by (rule decode_pruned)
    ultimately show ?thesis
      using False f(1) \<open>store_log_seq t ?d' = Some q\<close> \<open>store_log_floor t ?d' = Some before\<close> by (auto simp: prune_log_def max_def)
  qed
qed


lemma sample_writes_ok: "writes_ok sample_writes snapshot_default"
  by (simp add: writes_ok_def sample_writes_def writes_ops_def write_parts del: apply_op.simps)

lemma sample_seq: "store_log_seq t db_empty = Some 0"
  by (simp add: db_empty_def store_log_seq_def meta_u64_def get_meta_def)

lemma tables_wf_empty: "tables_wf db_empty"
  by (simp add: tables_wf_def db_empty_def)

theorem commit_restart_equivalent_witness:
  "\<exists>d' xs s'. commit_plan default_tenant Allowed sample_writes [sample_event] db_empty = Some (d', xs)
    \<and> at_rest default_tenant d' (apply_ops xs snapshot_default)
    \<and> load_snapshot default_tenant d' = Inr s' \<and> same_answers s' (apply_ops xs snapshot_default)
    \<and> snap_log_seq s' = snap_log_seq (apply_ops xs snapshot_default)"
  by (rule commit_restart_equivalent [OF at_rest_empty sample_writes_ok])

theorem commit_appends_log_witness:
  "\<exists>d' xs. commit_plan default_tenant Allowed sample_writes [sample_event] db_empty = Some (d', xs)
    \<and> log_contiguous default_tenant d' \<and> store_log_seq default_tenant d' = Some (0 + of_nat (length [sample_event]))
    \<and> log_contents default_tenant d' = log_contents default_tenant db_empty @ numbered 0 [sample_event]
    \<and> read_log default_tenant d' 0 10
      = take (max 1 10) (filter (\<lambda>(n, _). 0 \<le> n) (log_contents default_tenant d'))"
  by (rule commit_appends_log [OF tables_wf_empty log_contiguous_empty sample_seq]) simp


theorem commit_isolated_witness:
  "\<exists>d' xs. commit_plan (TenantId ''b'') Allowed sample_writes [sample_event] db_empty = Some (d', xs)
    \<and> load_snapshot (TenantId ''a'') d' = load_snapshot (TenantId ''a'') db_empty"
proof -
  have wf: "wf_tenant (TenantId ''a'')" "wf_tenant (TenantId ''b'')" by code_simp+
  obtain d' xs where step: "commit_plan (TenantId ''b'') Allowed sample_writes [sample_event] db_empty = Some (d', xs)"
    by (simp add: commit_plan_parts sample_seq)
  then show ?thesis
    using commit_isolated [OF tables_wf_empty wf(2,1) _ step] by auto
qed

end
