(* ===== verification/Formats.thy ===== *)
theory Formats
  imports Store
begin

text \<open>
  Formats (\<open>src/src/schema/mod.rs\<close>): parsing, reading and compatibility levels over the three schema
  formats, and the content fingerprint that decides which registrations share an id.  The format
  modules themselves, the SHA-256 digest, hexadecimal printing and \<open>serde_json\<close> are parameters,
  collected in the record \<open>formats\<close>; \<open>'p\<close> is a format's own parse result.
\<close>

record resolved_ref =
  rs_name :: string
  rs_schema :: string

datatype 'p parsed = ParsedAvro 'p | ParsedJson 'p | ParsedProtobuf 'p

record 'p parsed_schema =
  ps_type :: schema_type
  ps_canonical :: string
  ps_normalized :: string
  ps_normalize_error :: "string option"
  ps_inner :: "'p parsed"

datatype error_kind = ParseFailure | ValidateFailure

record schema_error =
  se_kind :: error_kind
  se_message :: string

definition schema_error_parse :: "string \<Rightarrow> schema_error" where
  "schema_error_parse m = \<lparr>se_kind = ParseFailure, se_message = m\<rparr>"

definition schema_error_validate :: "string \<Rightarrow> schema_error" where
  "schema_error_validate m = \<lparr>se_kind = ValidateFailure, se_message = m\<rparr>"

record labels =
  reader_label :: string
  writer_label :: string

text \<open>What a format's own parser returns: canonical and normalized text, why normalizing fails, and
  its parse.\<close>

record 'p format_parse =
  fp_canonical :: string
  fp_normalized :: string
  fp_normalize_error :: "string option"
  fp_inner :: 'p

record 'p formats =
  avro_parse :: "string \<Rightarrow> resolved_ref list \<Rightarrow> bool \<Rightarrow> schema_error + 'p format_parse"
  json_text_ok :: "string \<Rightarrow> bool"
  json_parse :: "string \<Rightarrow> resolved_ref list \<Rightarrow> string + 'p format_parse"
  proto_parse :: "string \<Rightarrow> resolved_ref list \<Rightarrow> schema_error + 'p format_parse"
  avro_can_read :: "'p \<Rightarrow> 'p \<Rightarrow> labels \<Rightarrow> string list"
  json_can_read :: "'p \<Rightarrow> 'p \<Rightarrow> labels \<Rightarrow> string list"
  proto_can_read :: "'p \<Rightarrow> 'p \<Rightarrow> labels \<Rightarrow> string list"
  proto_without_extensions :: "string \<Rightarrow> string option"
  proto_serialized :: "'p \<Rightarrow> string option"
  json_print :: "json \<Rightarrow> string"
  sha256 :: "bytes \<Rightarrow> bytes"
  hex_encode :: "bytes \<Rightarrow> string"

definition parse_with :: "'p formats \<Rightarrow> schema_type \<Rightarrow> string \<Rightarrow> resolved_ref list \<Rightarrow> bool
    \<Rightarrow> schema_error + 'p parsed_schema" where
  "parse_with F ty text refs validate_defaults = (case ty of
      Avro \<Rightarrow> map_ok (\<lambda>s. \<lparr>ps_type = ty, ps_canonical = fp_canonical s, ps_normalized = fp_normalized s,
          ps_normalize_error = fp_normalize_error s, ps_inner = ParsedAvro (fp_inner s)\<rparr>)
        (avro_parse F text refs validate_defaults)
    | Json \<Rightarrow>
        if \<not> json_text_ok F text then Inl (schema_error_parse (''Invalid JSON '' @ text))
        else (case json_parse F text refs of
            Inl _ \<Rightarrow> Inl (schema_error_validate ''Invalid JSON Schema'')
          | Inr s \<Rightarrow> Inr \<lparr>ps_type = ty, ps_canonical = fp_canonical s, ps_normalized = fp_normalized s,
              ps_normalize_error = None, ps_inner = ParsedJson (fp_inner s)\<rparr>)
    | Protobuf \<Rightarrow> map_ok (\<lambda>s. \<lparr>ps_type = ty, ps_canonical = fp_canonical s, ps_normalized = fp_normalized s,
          ps_normalize_error = None, ps_inner = ParsedProtobuf (fp_inner s)\<rparr>)
        (proto_parse F text refs))"

definition can_read :: "'p formats \<Rightarrow> 'p parsed_schema \<Rightarrow> 'p parsed_schema \<Rightarrow> labels \<Rightarrow> string list" where
  "can_read F reader writer l = (case (ps_inner reader, ps_inner writer) of
      (ParsedAvro r, ParsedAvro w) \<Rightarrow> avro_can_read F r w l
    | (ParsedJson r, ParsedJson w) \<Rightarrow> json_can_read F r w l
    | (ParsedProtobuf r, ParsedProtobuf w) \<Rightarrow> proto_can_read F r w l
    | _ \<Rightarrow> [''{errorType:'' @ quoted ''SCHEMA_TYPE_CHANGED'' @ '', description:'' @
        quoted (''The '' @ reader_label l @ '' schema is of type '' @ schema_type_as_str (ps_type reader) @
          '' but the '' @ writer_label l @ '' schema is of type '' @ schema_type_as_str (ps_type writer)) @ ''}''])"

definition fp_reference :: "schema_reference \<Rightarrow> bytes" where
  "fp_reference r = ref_name r @ [CHR 0x01] @ ref_subject r @ [CHR 0x01] @ be_bytes 4 (nat (ref_version r mod 2 ^ 32)) @ [NUL]"

definition fp_json :: "'p formats \<Rightarrow> json option \<Rightarrow> bytes" where
  "fp_json F m = (case m of None \<Rightarrow> [] | Some v \<Rightarrow> if json_is_null v then [] else json_print F v)"

definition fp_preimage :: "'p formats \<Rightarrow> schema_type \<Rightarrow> string \<Rightarrow> schema_reference list \<Rightarrow> json option \<Rightarrow> json option
    \<Rightarrow> bytes" where
  "fp_preimage F ty schema references metadata rule_set =
    schema_type_as_str ty @ [NUL] @ schema @ [NUL] @ concat (map fp_reference references) @ [NUL] @
    fp_json F metadata @ [NUL] @ fp_json F rule_set"

definition fingerprint :: "'p formats \<Rightarrow> schema_type \<Rightarrow> string \<Rightarrow> schema_reference list \<Rightarrow> json option \<Rightarrow> json option
    \<Rightarrow> string" where
  "fingerprint F ty schema references metadata rule_set =
    hex_encode F (sha256 F (fp_preimage F ty schema references metadata rule_set))"

record 'p previous =
  pv_version :: u32
  pv_schema :: "'p parsed_schema"

definition MAX_SCHEMA_SIZE_FOR_LOGGING :: nat where
  "MAX_SCHEMA_SIZE_FOR_LOGGING = 10240"

definition is_char_boundary :: "string \<Rightarrow> nat \<Rightarrow> bool" where
  "is_char_boundary s i = (i = 0 \<or> i = length s \<or>
    (i < length s \<and> \<not> (128 \<le> (of_char (s ! i) :: nat) \<and> (of_char (s ! i) :: nat) < 192)))"

fun cut_at_boundary :: "string \<Rightarrow> nat \<Rightarrow> nat" where
  "cut_at_boundary s 0 = 0"
| "cut_at_boundary s (Suc n) = (if is_char_boundary s (Suc n) then Suc n else cut_at_boundary s n)"

definition with_trailer :: "string list \<Rightarrow> 'p previous \<Rightarrow> bool \<Rightarrow> string list" where
  "with_trailer msgs p trailer =
    (if msgs \<noteq> [] \<and> trailer then
       msgs @ [''{oldSchemaVersion: '' @ show_u32 (pv_version p) @ ''}''] @
       (let old = ps_canonical (pv_schema p) in
        if length old \<le> MAX_SCHEMA_SIZE_FOR_LOGGING
        then [''{oldSchema: '' @ quoted old @ ''}'']
        else [''{oldSchema: <truncated> '' @
          quoted (take (cut_at_boundary old MAX_SCHEMA_SIZE_FOR_LOGGING) old @ ''...'') @ ''}''])
     else msgs)"

definition new_reads_old :: labels where
  "new_reads_old = \<lparr>reader_label = ''new'', writer_label = ''old''\<rparr>"

definition old_reads_new :: labels where
  "old_reads_new = \<lparr>reader_label = ''old'', writer_label = ''new''\<rparr>"

definition level_messages :: "'p formats \<Rightarrow> 'p parsed_schema \<Rightarrow> compatibility_level \<Rightarrow> 'p previous \<Rightarrow> string list" where
  "level_messages F new level p =
    (if ps_type (pv_schema p) \<noteq> ps_type new then [''Incompatible because of different schema type'']
     else (case (backward level, forward level) of
         (True, False) \<Rightarrow> with_trailer (can_read F new (pv_schema p) new_reads_old) p True
       | (False, True) \<Rightarrow> with_trailer (can_read F (pv_schema p) new old_reads_new) p True
       | _ \<Rightarrow> with_trailer (can_read F (pv_schema p) new old_reads_new) p False
            @ with_trailer (can_read F new (pv_schema p) new_reads_old) p True))"

fun first_failure :: "'p formats \<Rightarrow> 'p parsed_schema \<Rightarrow> compatibility_level \<Rightarrow> 'p previous list \<Rightarrow> string list" where
  "first_failure F new level [] = []"
| "first_failure F new level (p # ps) =
    (let msgs = level_messages F new level p in if msgs \<noteq> [] then msgs else first_failure F new level ps)"

definition level_candidates :: "compatibility_level \<Rightarrow> 'a list \<Rightarrow> 'a list" where
  "level_candidates level previous = (if transitive level then previous else take (min (length previous) 1) previous)"

definition check_level :: "'p formats \<Rightarrow> 'p parsed_schema \<Rightarrow> 'p previous list \<Rightarrow> compatibility_level \<Rightarrow> string list" where
  "check_level F new previous level =
    (if level = CompatNone then [] else first_failure F new level (level_candidates level previous))"

definition ref_ok :: "schema_reference \<Rightarrow> bool" where
  "ref_ok r \<longleftrightarrow> NUL \<notin> set (ref_name r) \<and> CHR 0x01 \<notin> set (ref_name r) \<and> CHR 0x01 \<notin> set (ref_subject r)
     \<and> - (2 ^ 31) \<le> ref_version r \<and> ref_version r < 2 ^ 31"

text \<open>A small instance of the format parameters: a schema is its text, and equal texts read each other.\<close>

definition sample_formats :: "string formats" where
  "sample_formats =
    \<lparr>avro_parse = (\<lambda>text refs v. Inr \<lparr>fp_canonical = text, fp_normalized = text, fp_normalize_error = None, fp_inner = text\<rparr>),
     json_text_ok = (\<lambda>text. text \<noteq> []),
     json_parse = (\<lambda>text refs. Inr \<lparr>fp_canonical = text, fp_normalized = text, fp_normalize_error = None, fp_inner = text\<rparr>),
     proto_parse = (\<lambda>text refs. Inr \<lparr>fp_canonical = text, fp_normalized = text, fp_normalize_error = None, fp_inner = text\<rparr>),
     avro_can_read = (\<lambda>r w l. if r = w then [] else [''changed'']),
     json_can_read = (\<lambda>r w l. if r = w then [] else [''changed'']),
     proto_can_read = (\<lambda>r w l. if r = w then [] else [''changed'']),
     proto_without_extensions = (\<lambda>text. None),
     proto_serialized = (\<lambda>p. None),
     json_print = (\<lambda>v. ''{}''),
     sha256 = (\<lambda>b. b),
     hex_encode = (\<lambda>b. b)\<rparr>"

definition sample_ref :: schema_reference where
  "sample_ref = \<lparr>ref_name = ''n'', ref_subject = ''s'', ref_version = 2\<rparr>"

section \<open>Content fingerprints\<close>

section \<open>Compatibility levels\<close>

section \<open>Distinct content has distinct preimages\<close>

lemma i32_bytes_inj:
  assumes "- (2 ^ 31) \<le> v" "v < 2 ^ 31" "- (2 ^ 31) \<le> w" "w < (2 ^ 31 :: int)"
    and "be_bytes 4 (nat (v mod 2 ^ 32)) = be_bytes 4 (nat (w mod 2 ^ 32))"
  shows "v = w"
proof -
  have "nat (x mod 2 ^ 32) < 256 ^ 4" for x :: int
  proof -
    have "x mod 2 ^ 32 < 2 ^ 32" by simp
    then show ?thesis by simp
  qed
  then have "nat (v mod 2 ^ 32) = nat (w mod 2 ^ 32)" using assms(5) be_bytes_inj by blast
  then have "v mod 2 ^ 32 = w mod 2 ^ 32" by (simp add: nat_eq_iff)
  moreover have "x = (x + 2 ^ 31) mod 2 ^ 32 - 2 ^ 31" if "- (2 ^ 31) \<le> x" "x < 2 ^ 31" for x :: int
    using that by (simp add: mod_pos_pos_trivial)
  ultimately show ?thesis using assms(1-4) by (metis mod_add_left_eq)
qed

lemma fp_reference_split:
  assumes "ref_ok r" "ref_ok r'" and "fp_reference r @ t = fp_reference r' @ t'"
  shows "r = r' \<and> t = t'"
proof -
  have name: "ref_name r = ref_name r'"
    and "ref_subject r @ CHR 0x01 # be_bytes 4 (nat (ref_version r mod 2 ^ 32)) @ NUL # t
      = ref_subject r' @ CHR 0x01 # be_bytes 4 (nat (ref_version r' mod 2 ^ 32)) @ NUL # t'"
    using assms by (auto simp: ref_ok_def fp_reference_def separated_eq_iff)
  then have sub: "ref_subject r = ref_subject r'"
    and tail: "be_bytes 4 (nat (ref_version r mod 2 ^ 32)) @ NUL # t = be_bytes 4 (nat (ref_version r' mod 2 ^ 32)) @ NUL # t'"
    using assms(1,2) by (auto simp: ref_ok_def separated_eq_iff)
  have "be_bytes 4 (nat (ref_version r mod 2 ^ 32)) = be_bytes 4 (nat (ref_version r' mod 2 ^ 32))" and "t = t'"
    using tail by (auto simp: append_eq_append_conv simp del: be_bytes.simps)
  then show ?thesis
    using name sub i32_bytes_inj [of "ref_version r" "ref_version r'"] assms(1,2) by (simp add: ref_ok_def)
qed

lemma fp_reference_head: "ref_ok r \<Longrightarrow> fp_reference r @ t \<noteq> NUL # u"
  by (cases "ref_name r") (auto simp: fp_reference_def ref_ok_def)

lemma fp_references_split:
  assumes "list_all ref_ok rs" "list_all ref_ok rs'"
    and "concat (map fp_reference rs) @ NUL # t = concat (map fp_reference rs') @ NUL # t'"
  shows "rs = rs' \<and> t = t'"
  using assms
proof (induction rs arbitrary: rs')
  case Nil
  have "rs' = []"
  proof (rule ccontr)
    assume "rs' \<noteq> []"
    then obtain r' rs2 where "rs' = r' # rs2" by (cases rs') auto
    then show False
      using Nil fp_reference_head [of r' "concat (map fp_reference rs2) @ NUL # t'" t] by auto
  qed
  then show ?case using Nil by simp
next
  case (Cons r rs)
  have "rs' \<noteq> []"
    using Cons.prems(1,3) fp_reference_head [of r "concat (map fp_reference rs) @ NUL # t" t'] by auto
  then obtain r' rs2 where rs': "rs' = r' # rs2" by (cases rs') auto
  have "fp_reference r @ (concat (map fp_reference rs) @ NUL # t) = fp_reference r' @ (concat (map fp_reference rs2) @ NUL # t')"
    using Cons.prems(3) rs' by simp
  then have "r = r'" and "concat (map fp_reference rs) @ NUL # t = concat (map fp_reference rs2) @ NUL # t'"
    using fp_reference_split Cons.prems(1,2) rs' by auto
  then show ?case using Cons.IH [of rs2] Cons.prems(1,2) rs' by simp
qed

lemma type_str: "NUL \<notin> set (schema_type_as_str ty)" "schema_type_as_str ty = schema_type_as_str ty' \<longleftrightarrow> ty = ty'"
  by (cases ty; cases ty'; simp)+


section \<open>Levels\<close>

lemma with_trailer_empty [simp]: "with_trailer msgs p a = [] \<longleftrightarrow> msgs = []"
  by (simp add: with_trailer_def)

lemma level_messages_empty:
  "level \<noteq> CompatNone \<Longrightarrow> level_messages F new level p = [] \<longleftrightarrow>
    ps_type (pv_schema p) = ps_type new
    \<and> (backward level \<longrightarrow> can_read F new (pv_schema p) new_reads_old = [])
    \<and> (forward level \<longrightarrow> can_read F (pv_schema p) new old_reads_new = [])"
  by (cases level) (auto simp: level_messages_def backward_def forward_def)

lemma first_failure_empty: "first_failure F new level ps = [] \<longleftrightarrow> (\<forall>p \<in> set ps. level_messages F new level p = [])"
  by (induction ps) (auto simp: Let_def)

lemma first_failure_newest:
  "first_failure F new level ps = msgs \<Longrightarrow> msgs \<noteq> [] \<Longrightarrow>
    \<exists>ok p rest. ps = ok @ p # rest \<and> (\<forall>x \<in> set ok. level_messages F new level x = [])
      \<and> msgs = level_messages F new level p"
proof (induction ps)
  case (Cons p ps)
  show ?case
  proof (cases "level_messages F new level p = []")
    case True
    then obtain ok q rest where "ps = ok @ q # rest" "\<forall>x \<in> set ok. level_messages F new level x = []"
      "msgs = level_messages F new level q"
      using Cons by auto
    then show ?thesis using True by (intro exI [of _ "p # ok"]) auto
  next
    case False
    then show ?thesis using Cons.prems by (intro exI [of _ "[]"]) (auto simp: Let_def)
  qed
qed simp

text \<open>C28. The compatibility check decides exactly the level: it reports nothing iff the level is NONE, or
  every earlier version in question - all of them for a transitive level, only the newest otherwise
  - has the same type, can be read by the new schema when the level asks for BACKWARD, and can read
  the new schema when it asks for FORWARD; otherwise the messages are those of the newest failing
  version.\<close>

theorem check_level_exact:
  "(check_level F new previous level = [] \<longleftrightarrow>
      level = CompatNone \<or>
      list_all (\<lambda>p. ps_type (pv_schema p) = ps_type new
        \<and> \<not> (backward level \<and> can_read F new (pv_schema p) new_reads_old \<noteq> [])
        \<and> \<not> (forward level \<and> can_read F (pv_schema p) new old_reads_new \<noteq> []))
        (if transitive level then previous else take 1 previous))
   \<and> (check_level F new previous level = [] \<or>
      (\<exists>ok p rest. (if transitive level then previous else take 1 previous) = ok @ p # rest
         \<and> list_all (\<lambda>x. level_messages F new level x = []) ok
         \<and> check_level F new previous level = level_messages F new level p))"
proof -
  have cand: "level_candidates level previous = (if transitive level then previous else take 1 previous)"
    by (cases previous) (auto simp: level_candidates_def)
  have "check_level F new previous level = [] \<longleftrightarrow> level = CompatNone \<or>
      (\<forall>p \<in> set (level_candidates level previous). level_messages F new level p = [])"
    by (simp add: check_level_def first_failure_empty)
  then have "check_level F new previous level = [] \<longleftrightarrow> level = CompatNone \<or>
      list_all (\<lambda>p. ps_type (pv_schema p) = ps_type new
        \<and> \<not> (backward level \<and> can_read F new (pv_schema p) new_reads_old \<noteq> [])
        \<and> \<not> (forward level \<and> can_read F (pv_schema p) new old_reads_new \<noteq> [])) (level_candidates level previous)"
    using level_messages_empty [of level F new] by (auto simp: list_all_iff)
  moreover have "check_level F new previous level = [] \<or>
      (\<exists>ok p rest. level_candidates level previous = ok @ p # rest
         \<and> list_all (\<lambda>x. level_messages F new level x = []) ok
         \<and> check_level F new previous level = level_messages F new level p)"
    using first_failure_newest [of F new level "level_candidates level previous"]
    by (auto simp: check_level_def list_all_iff)
  ultimately show ?thesis unfolding cand by blast
qed


end
