(* ===== verification/Json_Values.thy ===== *)
theory Json_Values
  imports Model "HOL-Library.AList"
begin

text \<open>
  JSON values and small string utilities used by the registry: \<open>serde_json::Value\<close> with the
  \<open>preserve_order\<close> feature (members keep insertion order, comparison ignores it, removal moves the
  last member into the gap), white space as \<open>str::trim\<close> sees it, and integer parsing.
\<close>

section \<open>Values\<close>

lemma json_member_size [termination_simp]:
  "(k, v) \<in> set ms \<Longrightarrow> size v < Suc (size_list (size_prod (\<lambda>_. 0) size) ms)"
  by (induction ms) auto

fun json_get :: "json \<Rightarrow> string \<Rightarrow> json option" where
  "json_get (JObject ms) k = map_of ms k"
| "json_get _ k = None"

fun as_array :: "json \<Rightarrow> json list option" where
  "as_array (JArray a) = Some a"
| "as_array _ = None"

fun as_object :: "json \<Rightarrow> (string \<times> json) list option" where
  "as_object (JObject ms) = Some ms"
| "as_object _ = None"

fun as_str :: "json \<Rightarrow> string option" where
  "as_str (JString s) = Some s"
| "as_str _ = None"

definition float_eq :: "string \<Rightarrow> string \<Rightarrow> bool" where
  "float_eq a b = (a = b \<or> (a \<in> {''0.0'', ''-0.0''} \<and> b \<in> {''0.0'', ''-0.0''}))"

fun json_eq :: "json \<Rightarrow> json \<Rightarrow> bool" where
  "json_eq (JObject a) (JObject b) =
    (length a = length b \<and>
     list_all (\<lambda>(k, v). case map_of b k of None \<Rightarrow> False | Some w \<Rightarrow> json_eq v w) a)"
| "json_eq (JArray a) (JArray b) = list_all2 json_eq a b"
| "json_eq (JFloat a) (JFloat b) = float_eq a b"
| "json_eq a b = (a = b)"

definition opt_json_eq :: "json option \<Rightarrow> json option \<Rightarrow> bool" where
  "opt_json_eq a b = (case (a, b) of (None, None) \<Rightarrow> True | (Some x, Some y) \<Rightarrow> json_eq x y | _ \<Rightarrow> False)"

definition json_contains :: "json list \<Rightarrow> json \<Rightarrow> bool" where
  "json_contains xs v = list_ex (\<lambda>x. json_eq x v) xs"

text \<open>\<open>Map::insert\<close> keeps the position of a present key; \<open>Map::remove\<close> swaps with the last member.\<close>

definition map_insert :: "string \<Rightarrow> 'v \<Rightarrow> (string \<times> 'v) list \<Rightarrow> (string \<times> 'v) list" where
  "map_insert k v ms = AList.update k v ms"

definition map_extend :: "(string \<times> 'v) list \<Rightarrow> (string \<times> 'v) list \<Rightarrow> (string \<times> 'v) list" where
  "map_extend ms other = fold (\<lambda>(k, v). map_insert k v) other ms"

fun swap_remove :: "string \<Rightarrow> (string \<times> 'v) list \<Rightarrow> (string \<times> 'v) list" where
  "swap_remove k [] = []"
| "swap_remove k ((k', v) # ms) =
    (if k' = k then (if ms = [] then [] else last ms # butlast ms) else (k', v) # swap_remove k ms)"

text \<open>\<open>v[k] = x\<close>: \<open>None\<close> is the panic of indexing a value that is neither an object nor null.\<close>

fun json_index_set :: "json \<Rightarrow> string \<Rightarrow> json \<Rightarrow> json option" where
  "json_index_set (JObject ms) k x = Some (JObject (map_insert k x ms))"
| "json_index_set JNull k x = Some (JObject [(k, x)])"
| "json_index_set _ k x = None"

section \<open>Text\<close>

text \<open>The length in bytes of the white-space character at the head, 0 if there is none.\<close>

definition ws_len :: "string \<Rightarrow> nat" where
  "ws_len s =
    (let b = (\<lambda>i. if i < length s then of_char (s ! i) else (256 :: nat)) in
     if 9 \<le> b 0 \<and> b 0 \<le> 13 \<or> b 0 = 32 then 1
     else if b 0 = 0xC2 \<and> (b 1 = 0x85 \<or> b 1 = 0xA0) then 2
     else if b 0 = 0xE1 \<and> b 1 = 0x9A \<and> b 2 = 0x80
        \<or> b 0 = 0xE2 \<and> b 1 = 0x80 \<and> (0x80 \<le> b 2 \<and> b 2 \<le> 0x8A \<or> b 2 = 0xA8 \<or> b 2 = 0xA9 \<or> b 2 = 0xAF)
        \<or> b 0 = 0xE2 \<and> b 1 = 0x81 \<and> b 2 = 0x9F
        \<or> b 0 = 0xE3 \<and> b 1 = 0x80 \<and> b 2 = 0x80 then 3
     else 0)"

function trim_start :: "string \<Rightarrow> string" where
  "trim_start s = (if s = [] \<or> ws_len s = 0 then s else trim_start (drop (ws_len s) s))"
  by auto
termination
  by (relation "measure length") auto

declare trim_start.simps [simp del]

definition is_blank :: "string \<Rightarrow> bool" where
  "is_blank s = (trim_start s = [])"

fun trim_end :: "string \<Rightarrow> string" where
  "trim_end [] = []"
| "trim_end (c # cs) = (if is_blank (c # cs) then [] else c # trim_end cs)"

definition trim :: "string \<Rightarrow> string" where
  "trim s = trim_end (trim_start s)"

fun digits_value :: "nat \<Rightarrow> string \<Rightarrow> nat" where
  "digits_value acc [] = acc"
| "digits_value acc (c # cs) = digits_value (10 * acc + (of_char c - 48)) cs"

definition parse_u32 :: "string \<Rightarrow> u32 option" where
  "parse_u32 s =
    (let ds = (case s of (CHR ''+'') # cs \<Rightarrow> cs | _ \<Rightarrow> s) in
     if ds = [] \<or> \<not> list_all is_ascii_digit ds then None
     else if digits_value 0 ds < 2 ^ 32 then Some (of_nat (digits_value 0 ds)) else None)"

definition java_int :: "string \<Rightarrow> i32 option" where
  "java_int s =
    (let neg = starts_with s ''-'';
         ds = (if starts_with s ''+'' \<or> neg then drop 1 s else s) in
     if ds = [] \<or> \<not> list_all is_ascii_digit ds then None
     else let n = int (digits_value 0 ds) in
       if neg then (if n \<le> 2 ^ 31 then Some (- n) else None)
       else if n < 2 ^ 31 then Some n else None)"

definition eq_ignore_ascii_case :: "string \<Rightarrow> string \<Rightarrow> bool" where
  "eq_ignore_ascii_case a b = (to_ascii_uppercase a = to_ascii_uppercase b)"

end
