(* ===== verification/Views.thy ===== *)
theory Views
  imports Formats Json_Values
begin

text \<open>
  The shapes of requests and answers (\<open>src/src/registry/views.rs\<close>) and the helpers of
  \<open>src/src/registry/mod.rs\<close>: version selectors, search limits, merging of metadata and rule sets, the
  draft of a registration, its canonical form, a stored entity, and the comparisons between them.
  The lemmas give the precedence of merged metadata and the version stamp.
\<close>

datatype version_spec = VLatest | VExact u32

definition version_spec_parse :: "string \<Rightarrow> version_spec api_result" where
  "version_spec_parse s =
    (let t = trim s in
     if eq_ignore_ascii_case t ''latest'' then Inr VLatest
     else (case java_int t of
         Some n \<Rightarrow>
           if n = -1 then Inr VLatest
           else if n \<ge> 1 then Inr (VExact (of_int n))
           else Inl (invalid_version (show_int n))
       | None \<Rightarrow> Inl (invalid_version s)))"

fun show_version_spec :: "version_spec \<Rightarrow> string" where
  "show_version_spec VLatest = ''-1''"
| "show_version_spec (VExact n) = show_u32 n"

definition schema_type_view :: "schema_type \<Rightarrow> string option" where
  "schema_type_view t = (if is_avro t then None else Some (schema_type_as_str t))"

record search_limits =
  schema_default :: nat
  schema_max :: nat
  subject_default :: nat
  subject_max :: nat

definition search_limits_default :: search_limits where
  "search_limits_default = \<lparr>schema_default = 1000, schema_max = 1000, subject_default = 20000, subject_max = 20000\<rparr>"

definition limits_normalize :: "i64 \<Rightarrow> nat \<Rightarrow> nat \<Rightarrow> nat" where
  "limits_normalize supplied dflt mx = (if 0 < supplied \<and> nat supplied \<le> mx then nat supplied else dflt)"

definition rule_has_type :: "string \<Rightarrow> json \<Rightarrow> bool" where
  "rule_has_type ty r = (Option.bind (json_get r ''type'') as_str = Some ty)"

definition has_rules_with_type :: "json option \<Rightarrow> string \<Rightarrow> bool" where
  "has_rules_with_type rule_set ty = (case rule_set of
      None \<Rightarrow> False
    | Some rs \<Rightarrow> list_ex (\<lambda>k. is_some_and (Option.bind (json_get rs k) as_array) (list_ex (rule_has_type ty)))
        [''domainRules'', ''migrationRules''])"

definition present :: "json option list \<Rightarrow> json list" where
  "present layers = filter (\<lambda>v. \<not> json_is_null v) (List.map_filter (\<lambda>x. x) layers)"

definition add_sensitive :: "json \<Rightarrow> json list \<Rightarrow> json list" where
  "add_sensitive v acc = (if json_contains acc v then acc else acc @ [v])"

definition merge_object :: "string \<Rightarrow> json \<Rightarrow> (string \<times> json) list \<Rightarrow> (string \<times> json) list" where
  "merge_object key m acc = (case Option.bind (json_get m key) as_object of
      None \<Rightarrow> acc | Some t \<Rightarrow> map_extend acc t)"

definition merge_sensitive :: "json \<Rightarrow> json list \<Rightarrow> json list" where
  "merge_sensitive m acc = (case Option.bind (json_get m ''sensitive'') as_array of
      None \<Rightarrow> acc | Some s \<Rightarrow> fold add_sensitive s acc)"

definition merge_metadata :: "json option list \<Rightarrow> json option" where
  "merge_metadata layers =
    (let ps = present layers in
     if ps = [] then None
     else
       let tags = fold (merge_object ''tags'') ps [];
           props = fold (merge_object ''properties'') ps [];
           sensitive = fold merge_sensitive ps []
       in Some (JObject
           ((if tags \<noteq> [] then [(''tags'', JObject tags)] else []) @
            (if props \<noteq> [] then [(''properties'', JObject props)] else []) @
            (if sensitive \<noteq> [] then [(''sensitive'', JArray sensitive)] else []))))"

fun rule_position :: "json option \<Rightarrow> json list \<Rightarrow> nat option" where
  "rule_position name [] = None"
| "rule_position name (x # xs) =
    (if name \<noteq> None \<and> opt_json_eq (json_get x ''name'') name then Some 0
     else map_option Suc (rule_position name xs))"

definition merge_rule :: "json \<Rightarrow> json list \<Rightarrow> json list" where
  "merge_rule r rules = (case rule_position (json_get r ''name'') rules of
      Some i \<Rightarrow> rules[i := r]
    | None \<Rightarrow> rules @ [r])"

definition rules_of :: "string \<Rightarrow> json \<Rightarrow> json list" where
  "rules_of key rs = unwrap_or (Option.bind (json_get rs key) as_array) []"

definition merged_rules :: "string \<Rightarrow> json list \<Rightarrow> json list" where
  "merged_rules key ps = fold merge_rule (concat (map (rules_of key) ps)) []"

definition merge_rule_sets :: "json option list \<Rightarrow> json option" where
  "merge_rule_sets layers =
    (let ps = present layers in
     if ps = [] then None
     else Some (JObject (concat (map (\<lambda>key.
         let rules = merged_rules key ps in if rules \<noteq> [] then [(key, JArray rules)] else [])
       [''migrationRules'', ''domainRules'', ''encodingRules'']))))"

definition metadata_property :: "json option \<Rightarrow> string \<Rightarrow> json option" where
  "metadata_property m key = Option.bind (Option.bind m (\<lambda>v. json_get v ''properties'')) (\<lambda>p. json_get p key)"

record schema_view =
  sv_subject :: string
  sv_version :: u32
  sv_id :: u32
  sv_schema_type :: "string option"
  sv_references :: "schema_reference list"
  sv_metadata :: "json option"
  sv_rule_set :: "json option"
  sv_schema :: string
  sv_aliases :: "string list option"

record schema_by_id_view =
  siv_schema_type :: "string option"
  siv_schema :: string
  siv_references :: "schema_reference list"
  siv_metadata :: "json option"
  siv_rule_set :: "json option"
  siv_max_id :: "u32 option"

record subject_version =
  sbv_subject :: string
  sbv_version :: u32

record register_response =
  rsp_id :: u32
  rsp_version :: "u32 option"
  rsp_schema_type :: "string option"
  rsp_references :: "schema_reference list"
  rsp_metadata :: "json option"
  rsp_rule_set :: "json option"
  rsp_schema :: "string option"

record draft =
  dr_schema :: "string option"
  dr_schema_type :: "string option"
  dr_refs :: "ref_in list"
  dr_metadata :: "json option"
  dr_rule_set :: "json option"
  dr_version :: i32
  dr_id :: i32

definition draft_from :: "register_request \<Rightarrow> draft" where
  "draft_from r = \<lparr>dr_schema = rr_schema r, dr_schema_type = rr_schema_type r,
     dr_refs = unwrap_or (rr_references r) [], dr_metadata = rr_metadata r, dr_rule_set = rr_rule_set r,
     dr_version = unwrap_or (rr_version r) 0, dr_id = unwrap_or (rr_id r) (-1)\<rparr>"

record 'p canon =
  cn_schema_type :: schema_type
  cn_text :: string
  cn_refs :: "schema_reference list"
  cn_targets :: "(qualified_subject \<times> u32) list"
  cn_metadata :: "json option"
  cn_rule_set :: "json option"
  cn_parsed :: "'p parsed_schema"

record entity =
  en_subject :: string
  en_version :: u32
  en_id :: u32
  en_schema_type :: schema_type
  en_references :: "schema_reference list"
  en_metadata :: "json option"
  en_rule_set :: "json option"
  en_schema :: string

record old_version =
  ov_version :: u32
  ov_id :: u32
  ov_rec :: schema_record

definition response_id :: "u32 \<Rightarrow> register_response" where
  "response_id i = \<lparr>rsp_id = i, rsp_version = None, rsp_schema_type = None, rsp_references = [],
     rsp_metadata = None, rsp_rule_set = None, rsp_schema = None\<rparr>"

definition response_full :: "entity \<Rightarrow> register_response" where
  "response_full e = \<lparr>rsp_id = en_id e, rsp_version = Some (en_version e),
     rsp_schema_type = schema_type_view (en_schema_type e), rsp_references = en_references e,
     rsp_metadata = en_metadata e, rsp_rule_set = en_rule_set e, rsp_schema = Some (en_schema e)\<rparr>"

fun java_string :: "json \<Rightarrow> string" where
  "java_string (JObject ms) = ''{'' @ join '', '' (map (\<lambda>(k, x). k @ ''='' @ java_string x) ms) @ ''}''"
| "java_string (JArray a) = ''['' @ join '', '' (map java_string a) @ '']''"
| "java_string (JString s) = s"
| "java_string JNull = ''null''"
| "java_string (JBool b) = (if b then ''true'' else ''false'')"
| "java_string (JInt n) = show_int n"
| "java_string (JFloat t) = t"

definition java_part :: "json \<Rightarrow> string \<Rightarrow> string \<Rightarrow> string" where
  "java_part m k dflt = (case json_get m k of None \<Rightarrow> dflt | Some v \<Rightarrow> java_string v)"

definition java_metadata :: "json option \<Rightarrow> string" where
  "java_metadata m = (case m of
      None \<Rightarrow> ''null''
    | Some m \<Rightarrow> ''Metadata{tags='' @ java_part m ''tags'' ''{}'' @ '', properties='' @ java_part m ''properties'' ''{}'' @
        '', sensitive='' @ java_part m ''sensitive'' ''[]'' @ ''}'')"

definition java_rule :: "json \<Rightarrow> string" where
  "java_rule x =
    ''Rule{name='' @ java_part x ''name'' ''null'' @ '', doc='' @ java_part x ''doc'' ''null'' @
    '', kind='' @ java_part x ''kind'' ''null'' @ '', mode='' @ java_part x ''mode'' ''null'' @
    '', type='' @ quoted (java_part x ''type'' ''null'') @ '', tags='' @ quoted (java_part x ''tags'' ''null'') @
    '', params='' @ quoted (java_part x ''params'' ''null'') @ '', expr='' @ quoted (java_part x ''expr'' ''null'') @
    '', onSuccess='' @ quoted (java_part x ''onSuccess'' ''null'') @
    '', onFailure='' @ quoted (java_part x ''onFailure'' ''null'') @
    '', disabled='' @ quoted (java_part x ''disabled'' ''false'') @ ''}''"

definition java_rules :: "json \<Rightarrow> string \<Rightarrow> string" where
  "java_rules r k = (case Option.bind (json_get r k) as_array of
      None \<Rightarrow> ''[]''
    | Some a \<Rightarrow> ''['' @ join '', '' (map java_rule a) @ '']'')"

definition java_rule_set :: "json option \<Rightarrow> string" where
  "java_rule_set r = (case r of
      None \<Rightarrow> ''null''
    | Some r \<Rightarrow> ''Rules{migrationRules='' @ java_rules r ''migrationRules'' @
        '', domainRules='' @ java_rules r ''domainRules'' @ ''}'')"

definition refs_string :: "draft \<Rightarrow> string" where
  "refs_string d = ''['' @ join '', '' (map show_ref_in (dr_refs d)) @ '']''"

definition entity_string :: "draft \<Rightarrow> qualified_subject \<Rightarrow> string" where
  "entity_string d q =
    ''{subject='' @ qs_qualified q @ '',version='' @ show_int (dr_version d) @ '',id='' @ show_int (dr_id d) @
    '',schemaType='' @ unwrap_or (dr_schema_type d) ''AVRO'' @ '',references='' @ refs_string d @
    '',metadata='' @ java_metadata (dr_metadata d) @ '',ruleSet='' @ java_rule_set (dr_rule_set d) @
    '',schema='' @ unwrap_or (dr_schema d) ''null'' @ '',schemaTags=null}''"

fun draft_invalid :: "draft \<Rightarrow> qualified_subject \<Rightarrow> error_kind \<Rightarrow> string \<Rightarrow> api_error" where
  "draft_invalid d q ParseFailure detail = api_error_new 42201
    (''Invalid schema '' @ entity_string d q @ '' with refs '' @ refs_string d @ '' of type '' @
     unwrap_or (dr_schema_type d) ''AVRO'' @ '', details: '' @ detail)"
| "draft_invalid d q ValidateFailure detail = api_error_new 42201
    (''Invalid schema '' @ entity_string d q @ '', details: '' @ detail)"

definition canon_fingerprint :: "'p formats \<Rightarrow> 'p canon \<Rightarrow> string" where
  "canon_fingerprint F c = fingerprint F (cn_schema_type c) (cn_text c) (cn_refs c) (cn_metadata c) (cn_rule_set c)"

definition entity_stored :: "qualified_subject \<Rightarrow> u32 \<Rightarrow> u32 \<Rightarrow> schema_record \<Rightarrow> entity" where
  "entity_stored q version i rec = \<lparr>en_subject = qs_qualified q, en_version = version, en_id = i,
     en_schema_type = sr_type rec, en_references = sr_references rec, en_metadata = sr_metadata rec,
     en_rule_set = sr_rule_set rec, en_schema = sr_schema rec\<rparr>"

definition entity_from_canon :: "qualified_subject \<Rightarrow> u32 \<Rightarrow> u32 \<Rightarrow> 'p canon \<Rightarrow> entity" where
  "entity_from_canon q version i c = \<lparr>en_subject = qs_qualified q, en_version = version, en_id = i,
     en_schema_type = cn_schema_type c, en_references = cn_refs c, en_metadata = cn_metadata c,
     en_rule_set = cn_rule_set c, en_schema = cn_text c\<rparr>"

definition entity_fingerprint :: "'p formats \<Rightarrow> entity \<Rightarrow> string" where
  "entity_fingerprint F e = fingerprint F (en_schema_type e) (en_schema e) (en_references e) (en_metadata e) (en_rule_set e)"

definition entity_view :: "entity \<Rightarrow> schema_view" where
  "entity_view e = \<lparr>sv_subject = en_subject e, sv_version = en_version e, sv_id = en_id e,
     sv_schema_type = schema_type_view (en_schema_type e), sv_references = en_references e,
     sv_metadata = en_metadata e, sv_rule_set = en_rule_set e, sv_schema = en_schema e, sv_aliases = None\<rparr>"

definition confluent_version :: "json option \<Rightarrow> string option" where
  "confluent_version m = Option.bind (metadata_property m ''confluent:version'') as_str"

definition without_confluent_version :: "json option \<Rightarrow> json option" where
  "without_confluent_version m = (case m of
      None \<Rightarrow> None
    | Some v \<Rightarrow> (case Option.bind (json_get v ''properties'') as_object of
        None \<Rightarrow> Some v
      | Some props \<Rightarrow>
          let props = swap_remove ''confluent:version'' props;
              ms = unwrap_or (as_object v) [] in
          Some (JObject (if props = [] then swap_remove ''properties'' (map_insert ''properties'' (JObject props) ms)
                         else map_insert ''properties'' (JObject props) ms))))"

definition equivalent :: "'p canon \<Rightarrow> json option \<Rightarrow> entity \<Rightarrow> json option \<Rightarrow> bool" where
  "equivalent c c_meta p p_meta =
    (cn_schema_type c = en_schema_type p \<and> cn_text c = en_schema p \<and> opt_json_eq c_meta p_meta
     \<and> opt_json_eq (cn_rule_set c) (en_rule_set p))"

definition can_lookup_ignoring_version :: "'p canon \<Rightarrow> entity \<Rightarrow> bool" where
  "can_lookup_ignoring_version c p =
    (case (Option.bind (confluent_version (cn_metadata c)) parse_u32, Option.bind (confluent_version (en_metadata p)) parse_u32) of
       (None, Some _) \<Rightarrow> equivalent c (opt_or (cn_metadata c) (Some (JObject []))) p (without_confluent_version (en_metadata p))
     | (Some v, None) \<Rightarrow> v = en_version p
         \<and> equivalent c (without_confluent_version (cn_metadata c)) p (opt_or (en_metadata p) (Some (JObject [])))
     | _ \<Rightarrow> equivalent c (cn_metadata c) p (en_metadata p))"

definition can_lookup :: "'p canon \<Rightarrow> entity \<Rightarrow> bool" where
  "can_lookup c p =
    (if cn_refs c = [] \<and> en_references p \<noteq> [] \<and> can_lookup_ignoring_version c p then True
     else if confluent_version (cn_metadata c) \<noteq> None \<or> confluent_version (en_metadata p) \<noteq> None
     then cn_refs c = en_references p \<and> can_lookup_ignoring_version c p
     else False)"

text \<open>\<open>None\<close> is the panic of indexing metadata that is not an object.\<close>

definition with_confluent_version :: "json option \<Rightarrow> u32 \<Rightarrow> json option" where
  "with_confluent_version metadata version =
    (let m = unwrap_or metadata (JObject []) in
     Option.bind (if is_some_and (json_get m ''properties'') (\<lambda>p. as_object p \<noteq> None) then Some m
                  else json_index_set m ''properties'' (JObject [])) (\<lambda>m.
     Option.bind (json_get m ''properties'') (\<lambda>p.
     Option.bind (json_index_set p ''confluent:version'' (JString (show_u32 version))) (\<lambda>p.
     json_index_set m ''properties'' p))))"

fun members_distinct :: "json option \<Rightarrow> bool" where
  "members_distinct (Some m) = (case Option.bind (json_get m ''properties'') as_object of
      None \<Rightarrow> True | Some ps \<Rightarrow> distinct (map fst ps))"
| "members_distinct None = True"

definition sample_metadata :: "string \<Rightarrow> json option" where
  "sample_metadata v = Some (JObject [(''properties'', JObject [(''owner'', JString v)])])"

fun object_or_none :: "json option \<Rightarrow> bool" where
  "object_or_none (Some (JObject ms)) = True"
| "object_or_none None = True"
| "object_or_none _ = False"

section \<open>Version selectors and limits\<close>

section \<open>Data contracts: metadata and rule sets\<close>

section \<open>Requests and answers\<close>

section \<open>Printing a request the way Java does\<close>

section \<open>Canonical requests and stored entities\<close>

section \<open>Numbers\<close>

lemma digits_value_append: "digits_value acc (a @ b) = digits_value (digits_value acc a) b"
  by (induction acc a rule: digits_value.induct) auto

lemma digit_char_value: "d < 10 \<Longrightarrow> of_char (digit_char d) - 48 = (d :: nat)" "d < 10 \<Longrightarrow> is_ascii_digit (digit_char d)"
  by (simp_all add: digit_char_def is_ascii_digit_def)

lemma show_nat_digits: "digits_value 0 (show_nat n) = n \<and> list_all is_ascii_digit (show_nat n) \<and> show_nat n \<noteq> []"
proof (induction n rule: show_nat.induct)
  case (1 n)
  then show ?case
    by (cases "n < 10") (simp_all add: digits_value_append digit_char_value show_nat.simps [of n])
qed

lemma parse_show_u32: "parse_u32 (show_u32 v) = Some v"
proof -
  have digits: "digits_value 0 (show_nat (unat v)) = unat v" "list_all is_ascii_digit (show_nat (unat v))" "show_nat (unat v) \<noteq> []"
    using show_nat_digits by blast+
  then obtain c cs where s: "show_nat (unat v) = c # cs" by (meson neq_Nil_conv)
  then have "c \<noteq> CHR ''+''" using digits(2) by (auto simp: is_ascii_digit_def)
  then have "(case show_nat (unat v) of (CHR ''+'') # cs \<Rightarrow> cs | _ \<Rightarrow> show_nat (unat v)) = show_nat (unat v)"
    unfolding s by (auto split: char.splits bool.splits)
  moreover have "unat v < 2 ^ 32" using unat_u32_bound [of v] by simp
  ultimately show ?thesis using digits by (simp add: parse_u32_def show_u32_def Let_def)
qed

section \<open>Metadata\<close>

lemma map_of_map_extend: "distinct (map fst other) \<Longrightarrow> map_of (map_extend ms other) k = opt_or (map_of other k) (map_of ms k)"
proof (induction other arbitrary: ms)
  case (Cons p other)
  obtain k' v where p: "p = (k', v)" by fastforce
  have "map_of other k' = None" using Cons.prems p by (simp add: map_of_eq_None_iff)
  moreover have "map_extend ms (p # other) = map_extend (map_insert k' v ms) other"
    by (simp add: map_extend_def p)
  ultimately show ?case
    using Cons p by (cases "map_of other k") (auto simp: map_insert_def update_conv')
qed (simp add: map_extend_def)

lemma map_of_merge_object:
  "members_distinct (Some m) \<Longrightarrow>
    map_of (merge_object ''properties'' m acc) k = opt_or (metadata_property (Some m) k) (map_of acc k)"
proof (cases "json_get m ''properties''")
  case (Some p)
  assume d: "members_distinct (Some m)"
  show ?thesis
  proof (cases p)
    case (JObject ps)
    then show ?thesis
      using Some d by (simp add: merge_object_def map_of_map_extend metadata_property_def)
  qed (use Some in \<open>simp_all add: merge_object_def metadata_property_def\<close>)
qed (simp add: merge_object_def metadata_property_def)

lemma fold_merge_object:
  "\<forall>m \<in> set ps. members_distinct (Some m) \<Longrightarrow>
    map_of (fold (merge_object ''properties'') ps acc) k
      = fold (\<lambda>m r. opt_or (metadata_property (Some m) k) r) ps (map_of acc k)"
  by (induction ps arbitrary: acc) (simp_all add: map_of_merge_object)

lemma merge_metadata_property:
  assumes "\<forall>m \<in> set layers. members_distinct m"
  shows "metadata_property (merge_metadata layers) k = fold (\<lambda>m r. opt_or (metadata_property m k) r) layers None"
proof -
  let ?ps = "present layers"
  have dist: "\<forall>m \<in> set ?ps. members_distinct (Some m)"
    using assms by (auto simp: present_def List.map_filter_def)
  have null: "metadata_property (Some JNull) k = None" "metadata_property None k = None"
    by (simp_all add: metadata_property_def)
  have skip: "fold (\<lambda>m r. opt_or (metadata_property (Some m) k) r) (present ls) r0
      = fold (\<lambda>m r. opt_or (metadata_property m k) r) ls r0" for ls r0
  proof (induction ls arbitrary: r0)
    case (Cons l ls)
    have "present (l # ls) = (case l of None \<Rightarrow> present ls | Some v \<Rightarrow> if json_is_null v then present ls else v # present ls)"
      by (simp add: present_def List.map_filter_def split: option.splits)
    moreover have "json_is_null v \<longleftrightarrow> v = JNull" for v by (cases v) auto
    ultimately show ?case using Cons.IH null by (simp split: option.splits)
  qed (simp add: present_def List.map_filter_def)
  have "metadata_property (merge_metadata layers) k = map_of (fold (merge_object ''properties'') ?ps []) k"
    by (auto simp: merge_metadata_def Let_def metadata_property_def)
  then show ?thesis using fold_merge_object [OF dist, of "[]" k] skip by simp
qed

text \<open>Data contracts merge by precedence: in the merged metadata every property has the value the
  configured override gives it, else the one the request (or the previous version) gives, else the
  configured default.\<close>

theorem merge_metadata_precedence:
  assumes "members_distinct a" "members_distinct b" "members_distinct c"
  shows "metadata_property (merge_metadata [a, b, c]) k
    = opt_or (metadata_property c k) (opt_or (metadata_property b k) (metadata_property a k))"
  using merge_metadata_property [of "[a, b, c]" k] assms by simp

theorem merge_metadata_precedence_witness:
  "metadata_property (merge_metadata [sample_metadata ''a'', None, sample_metadata ''c'']) ''owner'' = Some (JString ''c'')"
  using merge_metadata_precedence [of "sample_metadata ''a''" None "sample_metadata ''c''" "''owner''"]
  by (simp add: sample_metadata_def metadata_property_def)

lemma map_of_map_insert [simp]: "map_of (map_insert k v ms) x = (if x = k then Some v else map_of ms x)"
  by (simp add: map_insert_def update_conv')

lemma json_get_as_object: "json_get a k = map_of (unwrap_or (as_object a) []) k"
  by (cases a) auto

text \<open>Stamping a version into metadata cannot fail on metadata the server accepts, is read back as
  that version, and leaves every other property as it was.\<close>

theorem confluent_version_stamp:
  assumes "object_or_none m"
  shows "\<exists>m'. with_confluent_version m v = Some m'
    \<and> Option.bind (confluent_version (Some m')) parse_u32 = Some v
    \<and> (\<forall>k. k \<noteq> ''confluent:version'' \<longrightarrow> metadata_property (Some m') k = metadata_property m k)"
proof -
  obtain ms where m: "unwrap_or m (JObject []) = JObject ms" "\<And>k. metadata_property m k = metadata_property (Some (JObject ms)) k"
    using assms by (cases m rule: object_or_none.cases) (auto simp: metadata_property_def)
  define ps where "ps = unwrap_or (Option.bind (map_of ms ''properties'') as_object) []"
  let ?ms = "if is_some_and (map_of ms ''properties'') (\<lambda>p. as_object p \<noteq> None) then ms
      else map_insert ''properties'' (JObject []) ms"
  have props: "map_of ?ms ''properties'' = Some (JObject ps)"
    by (auto simp: ps_def is_some_and_def split: option.splits elim!: as_object.elims)
  have old: "metadata_property (Some (JObject ms)) k = map_of ps k" for k
    by (cases "map_of ms ''properties''") (auto simp: ps_def metadata_property_def json_get_as_object)
  have "with_confluent_version m v = Some (JObject (map_insert ''properties''
      (JObject (map_insert ''confluent:version'' (JString (show_u32 v)) ps)) ?ms))"
    using props m(1) by (simp add: with_confluent_version_def Let_def split: if_splits)
  then show ?thesis
    unfolding m(2) old by (simp add: confluent_version_def metadata_property_def parse_show_u32)
qed

theorem confluent_version_stamp_witness:
  "\<exists>m'. with_confluent_version (sample_metadata ''x'') 3 = Some m'
    \<and> metadata_property (Some m') ''owner'' = Some (JString ''x'')"
proof -
  have "object_or_none (sample_metadata ''x'')" by (simp add: sample_metadata_def)
  then obtain m' where "with_confluent_version (sample_metadata ''x'') 3 = Some m'"
    "\<forall>k. k \<noteq> ''confluent:version'' \<longrightarrow> metadata_property (Some m') k = metadata_property (sample_metadata ''x'') k"
    using confluent_version_stamp [of "sample_metadata ''x''" 3] by blast
  then show ?thesis by (simp add: sample_metadata_def metadata_property_def)
qed

end
