(* ===== verification/Registry.thy ===== *)
theory Registry
  imports Commit Views
begin

text \<open>
  The registry object and its reader (\<open>src/src/registry/mod.rs\<close>), and which configuration and mode
  apply to a request (\<open>src/src/registry/resolution.rs\<close>).  The registry holds one container's
  database, the published snapshot, the caches and the server defaults; a reader pins the snapshot.
  A commit writes the batch, updates the body cache and publishes the next snapshot.
\<close>

record 'p registry =
  rg_tenant :: tenant_id
  rg_db :: db
  rg_snapshot :: snapshot
  rg_bodies :: "string \<times> u32 \<Rightarrow> schema_record option"
  rg_parsed_by_id :: "string \<times> u32 \<times> bytes \<Rightarrow> 'p parsed_schema option"
  rg_parsed_by_text :: "bytes \<Rightarrow> 'p parsed_schema option"
  rg_default_compatibility :: compatibility_level
  rg_normalize_default :: bool
  rg_limits :: search_limits
  rg_notices :: "nat list"

definition registry_new :: "tenant_id \<Rightarrow> db \<Rightarrow> snapshot \<Rightarrow> compatibility_level \<Rightarrow> bool \<Rightarrow> 'p registry" where
  "registry_new t d s level norm =
    \<lparr>rg_tenant = t, rg_db = d, rg_snapshot = s, rg_bodies = (\<lambda>_. None), rg_parsed_by_id = (\<lambda>_. None),
     rg_parsed_by_text = (\<lambda>_. None), rg_default_compatibility = level, rg_normalize_default = norm,
     rg_limits = search_limits_default, rg_notices = []\<rparr>"

record 'p reader =
  rd_snap :: snapshot
  rd_reg :: "'p registry"

definition registry_reader :: "'p registry \<Rightarrow> 'p reader" where
  "registry_reader reg = \<lparr>rd_snap = rg_snapshot reg, rd_reg = reg\<rparr>"

definition rd_referenced_by :: "'p reader \<Rightarrow> string \<Rightarrow> string \<Rightarrow> u32 \<Rightarrow> u32 list" where
  "rd_referenced_by r = snap_referenced_by (rd_snap r)"

fun subject_config_row :: "scope \<times> config_record \<Rightarrow> (string \<times> string \<times> config_record) option" where
  "subject_config_row (ScSubject ctx s, c) = Some (ctx, s, c)"
| "subject_config_row _ = None"

definition rd_subject_configs :: "'p reader \<Rightarrow> (string \<times> string \<times> config_record) list" where
  "rd_subject_configs r = List.map_filter subject_config_row (config (rd_snap r))"

definition rd_list_contexts :: "'p reader \<Rightarrow> string list" where
  "rd_list_contexts r = snap_list_contexts (rd_snap r)"

definition rd_get_schema :: "'p reader \<Rightarrow> string \<Rightarrow> u32 \<Rightarrow> schema_record option" where
  "rd_get_schema r ctx i = (case rg_bodies (rd_reg r) (ctx, i) of
      Some rec \<Rightarrow> Some rec
    | None \<Rightarrow> store_get_schema (rg_tenant (rd_reg r)) (rg_db (rd_reg r)) ctx i)"

text \<open>The other effect of a body lookup: a miss that finds the row remembers it.\<close>

definition body_fill :: "string \<Rightarrow> u32 \<Rightarrow> 'p registry \<Rightarrow> 'p registry" where
  "body_fill ctx i reg = (case rg_bodies reg (ctx, i) of
      Some _ \<Rightarrow> reg
    | None \<Rightarrow> (case store_get_schema (rg_tenant reg) (rg_db reg) ctx i of
        None \<Rightarrow> reg
      | Some rec \<Rightarrow> reg\<lparr>rg_bodies := (rg_bodies reg)((ctx, i) \<mapsto> rec)\<rparr>))"

definition rd_get_version :: "'p reader \<Rightarrow> string \<Rightarrow> string \<Rightarrow> u32 \<Rightarrow> version_record option" where
  "rd_get_version r = snap_get_version (rd_snap r)"

definition rd_list_versions :: "'p reader \<Rightarrow> string \<Rightarrow> string \<Rightarrow> (u32 \<times> version_record) list" where
  "rd_list_versions r = snap_list_versions (rd_snap r)"

definition rd_list_subject_names :: "'p reader \<Rightarrow> string \<Rightarrow> string list" where
  "rd_list_subject_names r = snap_list_subject_names (rd_snap r)"

definition rd_id_usages :: "'p reader \<Rightarrow> string \<Rightarrow> u32 \<Rightarrow> (string \<times> u32) list" where
  "rd_id_usages r = snap_id_usages (rd_snap r)"

definition rd_id_for_fingerprint :: "'p reader \<Rightarrow> string \<Rightarrow> string \<Rightarrow> u32 option" where
  "rd_id_for_fingerprint r = snap_id_for_fingerprint (rd_snap r)"

definition rd_next_id :: "'p reader \<Rightarrow> string \<Rightarrow> u32" where
  "rd_next_id r = snap_next_id (rd_snap r)"

definition rd_get_config :: "'p reader \<Rightarrow> scope \<Rightarrow> config_record option" where
  "rd_get_config r = snap_get_config (rd_snap r)"

definition rd_get_mode :: "'p reader \<Rightarrow> scope \<Rightarrow> mode option" where
  "rd_get_mode r = snap_get_mode (rd_snap r)"

definition rd_has_aliases :: "'p reader \<Rightarrow> bool" where
  "rd_has_aliases r = has_aliases (rd_snap r)"

fun cache_op :: "op \<Rightarrow> (string \<times> u32 \<Rightarrow> schema_record option) \<Rightarrow> (string \<times> u32 \<Rightarrow> schema_record option)" where
  "cache_op (OpPutSchema ctx i rec index) bodies = bodies((ctx, i) \<mapsto> rec)"
| "cache_op (OpDeleteSchema ctx i) bodies = bodies((ctx, i) := None)"
| "cache_op _ bodies = bodies"

definition registry_commit :: "tx \<Rightarrow> nat \<Rightarrow> 'p registry \<Rightarrow> 'p registry" where
  "registry_commit x logged_events reg =
    (let (d, xs) = tx_commit x (rg_db reg) in
     reg\<lparr>rg_db := d, rg_bodies := fold cache_op xs (rg_bodies reg),
         rg_snapshot := apply_ops xs (rg_snapshot reg), rg_notices := rg_notices reg @ [logged_events]\<rparr>)"

definition scope_for :: "qualified_subject \<Rightarrow> scope" where
  "scope_for q = (if is_context_only q then ScContext (qs_context q) else ScSubject (qs_context q) (qs_subject q))"

definition filled :: "'p registry \<Rightarrow> config_record \<Rightarrow> config_record" where
  "filled reg c =
    (let c = c\<lparr>cf_compatibility_level := Some (unwrap_or (cf_compatibility_level c) (rg_default_compatibility reg))\<rparr> in
     if rg_normalize_default reg then c\<lparr>cf_normalize := Some (unwrap_or (cf_normalize c) True)\<rparr> else c)"

definition config_of :: "'p reader \<Rightarrow> qualified_subject option \<Rightarrow> config_record option" where
  "config_of r q = (case q of
      None \<Rightarrow> Some (filled (rd_reg r) (unwrap_or (rd_get_config r ScGlobal) config_default))
    | Some q \<Rightarrow> map_option (filled (rd_reg r)) (rd_get_config r (scope_for q)))"

definition config_in_scope :: "'p reader \<Rightarrow> qualified_subject \<Rightarrow> config_record" where
  "config_in_scope r q = (case rd_get_config r (scope_for q) of
      Some c \<Rightarrow> filled (rd_reg r) c
    | None \<Rightarrow>
        let parent = (if qs_context q \<noteq> DEFAULT_CONTEXT then rd_get_config r (ScContext (qs_context q))
                      else rd_get_config r ScGlobal)
        in filled (rd_reg r) (unwrap_or parent config_default))"

definition normalize_in_scope :: "'p reader \<Rightarrow> qualified_subject \<Rightarrow> bool" where
  "normalize_in_scope r q = (cf_normalize (config_in_scope r q) = Some True)"

definition global_mode_in :: "'p reader \<Rightarrow> mode" where
  "global_mode_in r = unwrap_or (rd_get_mode r ScGlobal) Readwrite"

definition mode_of_scope :: "'p reader \<Rightarrow> qualified_subject option \<Rightarrow> mode option" where
  "mode_of_scope r q =
    (let global = global_mode_in r in
     if global = ReadonlyOverride then Some global
     else (case q of None \<Rightarrow> Some global | Some q \<Rightarrow> rd_get_mode r (scope_for q)))"

definition mode_in_scope :: "'p reader \<Rightarrow> qualified_subject \<Rightarrow> mode" where
  "mode_in_scope r q =
    (let global = global_mode_in r in
     if global = ReadonlyOverride then global
     else (case rd_get_mode r (scope_for q) of
         Some m \<Rightarrow> m
       | None \<Rightarrow>
           let parent = (if qs_context q \<noteq> DEFAULT_CONTEXT then rd_get_mode r (ScContext (qs_context q)) else Some global)
           in unwrap_or parent Readwrite))"

definition get_config :: "'p registry \<Rightarrow> string option \<Rightarrow> bool \<Rightarrow> config_record api_result" where
  "get_config reg subject default_to_global =
    (let r = registry_reader reg in
     case subject of
       None \<Rightarrow> Inr (the (config_of r None))
     | Some s \<Rightarrow>
         let q = qs_parse s in
         if default_to_global then Inr (config_in_scope r q)
         else ok_or (config_of r (Some q)) (subject_compat_not_configured (qs_qualified q)))"

definition get_mode :: "'p registry \<Rightarrow> string option \<Rightarrow> bool \<Rightarrow> mode api_result" where
  "get_mode reg subject default_to_global =
    (let r = registry_reader reg in
     case subject of
       None \<Rightarrow> Inr (the (mode_of_scope r None))
     | Some s \<Rightarrow>
         let q = qs_parse s in
         if default_to_global then Inr (mode_in_scope r q)
         else ok_or (mode_of_scope r (Some q)) (subject_mode_not_configured (qs_qualified q)))"

definition parent_scope :: "qualified_subject \<Rightarrow> scope" where
  "parent_scope q = (if qs_context q \<noteq> DEFAULT_CONTEXT then ScContext (qs_context q) else ScGlobal)"

definition sample_registry :: "string registry" where
  "sample_registry = registry_new default_tenant db_empty snapshot_default Backward True"

section \<open>The registry and its reader\<close>

section \<open>Publishing a commit\<close>

section \<open>Which configuration and which mode apply\<close>

section \<open>Resolution is by first match and local\<close>

lemma snap_get_mode_put:
  "snap_get_mode (apply_op (OpPutMode sc m) s) sc' = (if sc' = sc then Some m else snap_get_mode s sc')"
  by (simp add: snap_get_mode_def update_conv')

lemma snap_get_config_put:
  "snap_get_config (apply_op (OpPutConfig sc c) s) sc' = (if sc' = sc then Some c else snap_get_config s sc')"
  by (simp add: snap_get_config_def update_conv')




end
