(* ===== verification/Schemas.thy ===== *)
theory Schemas
  imports Registry
begin

text \<open>
  Turning a request's schema into something storable and a stored schema into something usable
  (\<open>src/src/registry/schemas.rs\<close>): reference resolution, the two parse caches, the canonical form
  of a request, the content-hash lookup and inheritance from the previous version; with the
  version selection of \<open>src/src/registry/lookup.rs\<close> and the existence checks of
  \<open>src/src/registry/listings.rs\<close> they rely on.  A cache is modelled by its lookup and by a separate
  fill step, so that any interleaving of fills and requests is covered.
\<close>

definition get_exact :: "'p reader \<Rightarrow> qualified_subject \<Rightarrow> version_spec \<Rightarrow> bool \<Rightarrow> (u32 \<times> version_record) option" where
  "get_exact r q spec deleted =
    (let vs = rd_list_versions r (qs_context q) (qs_subject q) in
     case spec of
       VLatest \<Rightarrow> find (\<lambda>(_, v). \<not> vr_deleted v) (rev vs)
     | VExact n \<Rightarrow> find (\<lambda>(v, x). v = n \<and> (deleted \<or> \<not> vr_deleted x)) vs)"

definition any_version :: "bool \<Rightarrow> (u32 \<times> version_record) list \<Rightarrow> bool" where
  "any_version deleted vs = list_ex (\<lambda>(_, v). deleted \<or> \<not> vr_deleted v) vs"

definition has_subjects :: "'p reader \<Rightarrow> qualified_subject \<Rightarrow> bool \<Rightarrow> bool" where
  "has_subjects r q deleted =
    (if any_version deleted (rd_list_versions r (qs_context q) (qs_subject q)) then True
     else if is_context_only q
     then list_ex (\<lambda>name. any_version deleted (rd_list_versions r (qs_context q) name))
            (rd_list_subject_names r (qs_context q))
     else False)"

definition has_any_subject :: "'p reader \<Rightarrow> bool \<Rightarrow> bool" where
  "has_any_subject r deleted =
    list_ex (\<lambda>ctx. list_ex (\<lambda>name. any_version deleted (rd_list_versions r ctx name)) (rd_list_subject_names r ctx))
      (rd_list_contexts r)"

definition dquoted :: "string \<Rightarrow> string" where
  "dquoted s = CHR 0x22 # s @ [CHR 0x22]"

definition u32_as_i32 :: "u32 \<Rightarrow> i32" where
  "u32_as_i32 w = (if unat w < 2 ^ 31 then int (unat w) else int (unat w) - 2 ^ 32)"

definition ref_target :: "string \<Rightarrow> schema_reference \<Rightarrow> qualified_subject" where
  "ref_target ctx sr =
    (let q = qs_parse (ref_subject sr) in
     if starts_with (ref_subject sr) '':.'' then q else qs_new ctx (qs_subject q))"

definition ref_version_u32 :: "schema_reference \<Rightarrow> u32" where
  "ref_version_u32 sr = of_int (max 1 (ref_version sr))"

definition no_reference_found :: "qualified_subject \<Rightarrow> string \<Rightarrow> string" where
  "no_reference_found q version =
    ''No schema reference found for subject '' @ dquoted (qs_qualified q) @ '' and version '' @ version"

type_synonym ref_state = "(string \<times> string \<times> u32) list \<times> resolved_ref list"

text \<open>The first argument is 65 minus the depth: at depth 65 the chain is refused.\<close>

function (sequential) collect_ref :: "nat \<Rightarrow> 'p reader \<Rightarrow> string \<Rightarrow> qualified_subject \<Rightarrow> u32 \<Rightarrow> ref_state \<Rightarrow> ref_state api_result"
  and collect_refs :: "nat \<Rightarrow> 'p reader \<Rightarrow> string \<Rightarrow> schema_reference list \<Rightarrow> ref_state \<Rightarrow> ref_state api_result" where
  "collect_ref 0 r name q version st = Inl (invalid_schema ''reference chain too deep'')"
| "collect_ref (Suc n) r name q version st =
    (let (visited, out) = st; key = (qs_context q, qs_subject q, version) in
     if key \<in> set visited then Inr st
     else
       and_then (ok_or (rd_get_version r (qs_context q) (qs_subject q) version)
           (api_error_new 42201 (no_reference_found q (show_u32 version)))) (\<lambda>vr.
       and_then (ok_or (rd_get_schema r (qs_context q) (vr_id vr)) schema_not_found) (\<lambda>rec.
       and_then (collect_refs n r (qs_context q) (sr_references rec) (key # visited, out)) (\<lambda>(visited, out).
       Inr (visited, out @ [\<lparr>rs_name = name, rs_schema = sr_schema rec\<rparr>])))))"
| "collect_refs n r ctx [] st = Inr st"
| "collect_refs n r ctx (sr # srs) st =
    and_then (collect_ref n r (ref_name sr) (ref_target ctx sr) (ref_version_u32 sr) st) (\<lambda>st.
    collect_refs n r ctx srs st)"
  by pat_completeness auto

termination
  by (relation "inv_image (less_than <*lex*> less_than)
      (\<lambda>x. case x of Inl (n, _) \<Rightarrow> (n, 0) | Inr (n, _, _, srs, _) \<Rightarrow> (n, Suc (length srs)))") auto

definition null_reference :: string where
  "null_reference = ''Cannot invoke '' @
     dquoted ''io.confluent.kafka.schemaregistry.client.rest.entities.SchemaReference.getName()'' @
     '' because '' @ dquoted ''reference'' @ '' is null''"

definition reference_spec :: "i32 \<Rightarrow> string + version_spec" where
  "reference_spec version =
    (if version = -1 then Inr VLatest
     else if version > 0 then Inr (VExact (of_int version))
     else Inl (''io.confluent.kafka.schemaregistry.exceptions.InvalidVersionException: '' @ show_int version))"

fun message_of :: "'a api_result \<Rightarrow> string + 'a" where
  "message_of (Inl e) = Inl (err_message e)"
| "message_of (Inr x) = Inr x"

type_synonym resolved = "schema_reference list \<times> resolved_ref list \<times> (qualified_subject \<times> u32) list"

fun resolve_loop :: "'p reader \<Rightarrow> string \<Rightarrow> ref_in list \<Rightarrow> schema_reference list \<Rightarrow> (qualified_subject \<times> u32) list
    \<Rightarrow> ref_state \<Rightarrow> string + resolved" where
  "resolve_loop r ctx [] concrete targets st = Inr (concrete, snd st, targets)"
| "resolve_loop r ctx (rin # refs) concrete targets st =
    (if rin_null rin then Inl null_reference
     else (case (rin_name rin, rin_subject rin, rin_version rin) of
         (Some name, Some subject, Some version) \<Rightarrow>
           let q = ref_target ctx \<lparr>ref_name = name, ref_subject = subject, ref_version = version\<rparr> in
           and_then (reference_spec version) (\<lambda>spec.
           and_then (ok_or (get_exact r q spec True) (no_reference_found q (show_int version))) (\<lambda>(v, _).
           and_then (message_of (collect_ref 65 r name q v st)) (\<lambda>st.
             resolve_loop r ctx refs
                (concrete @ [\<lparr>ref_name = name, ref_subject = subject, ref_version = u32_as_i32 v\<rparr>])
                (targets @ [(q, v)]) st)))
       | _ \<Rightarrow> Inl (''Invalid reference: '' @ show_ref_in rin)))"

definition resolve_references :: "'p reader \<Rightarrow> string \<Rightarrow> ref_in list \<Rightarrow> string + resolved" where
  "resolve_references r ctx refs = resolve_loop r ctx refs [] [] ([], [])"

definition resolve_stored :: "'p reader \<Rightarrow> string \<Rightarrow> schema_reference list \<Rightarrow> resolved_ref list api_result" where
  "resolve_stored r ctx refs = (case resolve_references r ctx (map ref_in_of refs) of
      Inl e \<Rightarrow> Inl (internal_error e)
    | Inr (_, out, _) \<Rightarrow> Inr out)"

definition refs_bytes :: "resolved_ref list \<Rightarrow> bytes" where
  "refs_bytes refs = concat (map (\<lambda>r. NUL # rs_name r @ CHR 0x01 # rs_schema r) refs)"

definition parse_preimage :: "schema_type \<Rightarrow> string \<Rightarrow> resolved_ref list \<Rightarrow> bool \<Rightarrow> bytes" where
  "parse_preimage ty text refs validate_defaults =
    schema_type_as_str ty @ [if validate_defaults then CHR 0x01 else NUL] @ text @ refs_bytes refs"

definition parse_key :: "'p formats \<Rightarrow> schema_type \<Rightarrow> string \<Rightarrow> resolved_ref list \<Rightarrow> bool \<Rightarrow> bytes" where
  "parse_key F ty text refs validate_defaults = sha256 F (parse_preimage ty text refs validate_defaults)"

definition parse_cached :: "'p formats \<Rightarrow> 'p registry \<Rightarrow> schema_type \<Rightarrow> string \<Rightarrow> resolved_ref list \<Rightarrow> bool
    \<Rightarrow> schema_error + 'p parsed_schema" where
  "parse_cached F reg ty text refs validate_defaults =
    (case rg_parsed_by_text reg (parse_key F ty text refs validate_defaults) of
       Some p \<Rightarrow> Inr p
     | None \<Rightarrow> parse_with F ty text refs validate_defaults)"

text \<open>The other effect of a parse: a successful miss is remembered.\<close>

definition parse_fill :: "'p formats \<Rightarrow> schema_type \<Rightarrow> string \<Rightarrow> resolved_ref list \<Rightarrow> bool \<Rightarrow> 'p registry \<Rightarrow> 'p registry" where
  "parse_fill F ty text refs validate_defaults reg =
    (let key = parse_key F ty text refs validate_defaults in
     case rg_parsed_by_text reg key of
       Some _ \<Rightarrow> reg
     | None \<Rightarrow> (case parse_with F ty text refs validate_defaults of
         Inl _ \<Rightarrow> reg
       | Inr p \<Rightarrow> reg\<lparr>rg_parsed_by_text := (rg_parsed_by_text reg)(key \<mapsto> p)\<rparr>))"

definition deps_fingerprint :: "'p formats \<Rightarrow> resolved_ref list \<Rightarrow> bytes" where
  "deps_fingerprint F resolved = (if resolved = [] then replicate 32 NUL else sha256 F (refs_bytes resolved))"

definition parse_stored :: "'p formats \<Rightarrow> schema_record \<Rightarrow> resolved_ref list \<Rightarrow> 'p parsed_schema api_result" where
  "parse_stored F rec resolved = (case parse_with F (sr_type rec) (sr_schema rec) resolved False of
      Inl e \<Rightarrow> Inl (internal_error (''stored schema no longer parses: '' @ se_message e))
    | Inr p \<Rightarrow> Inr p)"

definition parse_record :: "'p formats \<Rightarrow> 'p reader \<Rightarrow> string \<Rightarrow> u32 \<Rightarrow> schema_record \<Rightarrow> 'p parsed_schema api_result" where
  "parse_record F r ctx i rec =
    and_then (resolve_stored r ctx (sr_references rec)) (\<lambda>resolved.
    case rg_parsed_by_id (rd_reg r) (ctx, i, deps_fingerprint F resolved) of
      Some p \<Rightarrow> Inr p
    | None \<Rightarrow> parse_stored F rec resolved)"

definition record_fill :: "'p formats \<Rightarrow> string \<Rightarrow> u32 \<Rightarrow> schema_record \<Rightarrow> 'p registry \<Rightarrow> 'p registry" where
  "record_fill F ctx i rec reg = (case resolve_stored (registry_reader reg) ctx (sr_references rec) of
      Inl _ \<Rightarrow> reg
    | Inr resolved \<Rightarrow>
        let key = (ctx, i, deps_fingerprint F resolved) in
        (case rg_parsed_by_id reg key of
           Some _ \<Rightarrow> reg
         | None \<Rightarrow> (case parse_stored F rec resolved of
             Inl _ \<Rightarrow> reg
           | Inr p \<Rightarrow> reg\<lparr>rg_parsed_by_id := (rg_parsed_by_id reg)(key \<mapsto> p)\<rparr>)))"

definition canonicalize :: "'p formats \<Rightarrow> 'p reader \<Rightarrow> qualified_subject \<Rightarrow> draft \<Rightarrow> bool \<Rightarrow> bool \<Rightarrow> 'p canon option api_result" where
  "canonicalize F r q d is_new norm =
    (case dr_schema d of
       None \<Rightarrow> Inr None
     | Some text \<Rightarrow>
         if is_blank text then Inr None
         else
           and_then (schema_type_parse (dr_schema_type d)) (\<lambda>ty.
           case resolve_references r (qs_context q) (dr_refs d) of
             Inl detail \<Rightarrow> Inl (draft_invalid d q ParseFailure detail)
           | Inr (refs, resolved, targets) \<Rightarrow>
               (case parse_cached F (rd_reg r) ty text resolved (norm \<and> is_new) of
                  Inl e \<Rightarrow> Inl (draft_invalid d q (se_kind e) (se_message e))
                | Inr p \<Rightarrow>
                    (case (if norm then ps_normalize_error p else None) of
                       Some e \<Rightarrow> Inl (draft_invalid d q ValidateFailure e)
                     | None \<Rightarrow> Inr (Some
                         \<lparr>cn_schema_type = ty, cn_text = (if norm then ps_normalized p else ps_canonical p),
                          cn_refs = refs, cn_targets = targets, cn_metadata = dr_metadata d,
                          cn_rule_set = dr_rule_set d, cn_parsed = p\<rparr>)))))"

fun list_max :: "u32 list \<Rightarrow> u32 option" where
  "list_max [] = None"
| "list_max (v # vs) = Some (fold max vs v)"

definition hash_lookup :: "'p formats \<Rightarrow> 'p reader \<Rightarrow> qualified_subject \<Rightarrow> 'p canon
    \<Rightarrow> (u32 \<times> (u32 \<times> version_record) option) option" where
  "hash_lookup F r q c = (case rd_id_for_fingerprint r (qs_context q) (canon_fingerprint F c) of
      None \<Rightarrow> None
    | Some i \<Rightarrow>
        let usages = rd_id_usages r (qs_context q) i in
        if usages = [] then None
        else Some (i, (case list_max (map snd (filter (\<lambda>(s, _). s = qs_subject q) usages)) of
            None \<Rightarrow> None
          | Some v \<Rightarrow> map_option (\<lambda>vr. (v, vr)) (rd_get_version r (qs_context q) (qs_subject q) v))))"

definition entity_of :: "'p reader \<Rightarrow> qualified_subject \<Rightarrow> u32 \<Rightarrow> version_record \<Rightarrow> entity api_result" where
  "entity_of r q version vr =
    map_ok (entity_stored q version (vr_id vr)) (ok_or (rd_get_schema r (qs_context q) (vr_id vr)) schema_not_found)"

definition formatted :: "'p formats \<Rightarrow> 'p reader \<Rightarrow> string \<Rightarrow> u32 \<Rightarrow> schema_record \<Rightarrow> string option \<Rightarrow> string api_result" where
  "formatted F r ctx i rec fmt =
    (if sr_type rec = Protobuf \<and> fmt = Some ''ignore_extensions'' \<and> proto_without_extensions F (sr_schema rec) \<noteq> None
     then Inr (the (proto_without_extensions F (sr_schema rec)))
     else if sr_type rec = Protobuf \<and> fmt = Some ''serialized''
     then map_ok (\<lambda>p. case ps_inner p of
         ParsedProtobuf x \<Rightarrow> unwrap_or (proto_serialized F x) (sr_schema rec)
       | _ \<Rightarrow> sr_schema rec) (parse_record F r ctx i rec)
     else Inr (sr_schema rec))"

definition panicked :: api_error where
  "panicked = api_error_new 500 ''panic''"

definition no_text :: "draft \<Rightarrow> bool" where
  "no_text d = (case dr_schema d of None \<Rightarrow> True | Some s \<Rightarrow> is_blank s)"

definition inherit_schema :: "entity option \<Rightarrow> draft \<Rightarrow> (draft \<times> bool) api_result" where
  "inherit_schema previous d =
    (if no_text d then (case previous of
        None \<Rightarrow> Inl (api_error_new 42201 ''Empty schema'')
      | Some p \<Rightarrow> Inr (d\<lparr>dr_schema := Some (en_schema p),
            dr_schema_type := Some (schema_type_as_str (en_schema_type p)),
            dr_refs := map ref_in_of (en_references p)\<rparr>, True))
     else Inr (d, False))"

definition inherit_contract :: "config_record \<Rightarrow> entity option \<Rightarrow> draft \<Rightarrow> bool \<Rightarrow> u32 \<Rightarrow> (draft \<times> bool) api_result" where
  "inherit_contract cfg previous d populated new_version =
    (let specific_meta = opt_or (dr_metadata d) (Option.bind previous en_metadata);
         metadata = merge_metadata [cf_default_metadata cfg, specific_meta, cf_override_metadata cfg];
         specific_rules = opt_or (dr_rule_set d) (Option.bind previous en_rule_set);
         rule_set = merge_rule_sets [cf_default_rule_set cfg, specific_rules, cf_override_rule_set cfg] in
     and_then (if dr_version d \<noteq> 0 \<or> metadata_property metadata ''confluent:version'' \<noteq> None
               then (case with_confluent_version metadata new_version of
                   None \<Rightarrow> Inl panicked
                 | Some m \<Rightarrow> Inr (Some m))
               else Inr metadata) (\<lambda>metadata.
     if metadata \<noteq> None \<or> rule_set \<noteq> None
     then Inr (d\<lparr>dr_metadata := metadata, dr_rule_set := rule_set\<rparr>, True)
     else Inr (d, populated)))"

definition populate_from_previous :: "'p reader \<Rightarrow> qualified_subject \<Rightarrow> config_record \<Rightarrow> draft
    \<Rightarrow> (u32 \<times> version_record) option \<Rightarrow> u32 \<Rightarrow> (draft \<times> bool) api_result" where
  "populate_from_previous r q cfg d latest_live new_version =
    and_then (case latest_live of
        None \<Rightarrow> Inr None
      | Some (v, vr) \<Rightarrow> map_ok Some (entity_of r q v vr)) (\<lambda>previous.
    and_then (inherit_schema previous d) (\<lambda>(d, populated).
    inherit_contract cfg previous d populated new_version))"

definition ref_key :: "string \<Rightarrow> schema_reference \<Rightarrow> string \<times> string \<times> u32" where
  "ref_key ctx sr = (qs_context (ref_target ctx sr), qs_subject (ref_target ctx sr), ref_version_u32 sr)"

definition closed_in :: "'p reader \<Rightarrow> (string \<times> string \<times> u32) set \<Rightarrow> string \<times> string \<times> u32 \<Rightarrow> bool" where
  "closed_in r V = (\<lambda>(c, s, v). \<exists>vr rec. rd_get_version r c s v = Some vr \<and> rd_get_schema r c (vr_id vr) = Some rec
     \<and> ref_key c ` set (sr_references rec) \<subseteq> V)"

definition target_key :: "qualified_subject \<times> u32 \<Rightarrow> string \<times> string \<times> u32" where
  "target_key = (\<lambda>(q, v). (qs_context q, qs_subject q, v))"

definition closure_state :: "'p reader \<Rightarrow> ref_state \<Rightarrow> bool" where
  "closure_state r = (\<lambda>(V, out). distinct V \<and> length out = length V \<and> (\<forall>k \<in> set V. closed_in r (set V) k))"

definition clean_refs :: "resolved_ref list \<Rightarrow> bool" where
  "clean_refs refs = list_all (\<lambda>r. NUL \<notin> set (rs_name r) \<and> CHR 0x01 \<notin> set (rs_name r) \<and> NUL \<notin> set (rs_schema r)) refs"

definition text_cache_ok :: "'p formats \<Rightarrow> 'p registry \<Rightarrow> bool" where
  "text_cache_ok F reg \<longleftrightarrow> (\<forall>ty text refs vd p. NUL \<notin> set text \<longrightarrow> clean_refs refs \<longrightarrow>
     rg_parsed_by_text reg (parse_key F ty text refs vd) = Some p \<longrightarrow> parse_with F ty text refs vd = Inr p)"

definition sample_record :: "string \<Rightarrow> schema_record" where
  "sample_record text = \<lparr>sr_type = Avro, sr_schema = text, sr_references = [], sr_metadata = None, sr_rule_set = None,
     sr_fingerprint = text, sr_schema_fingerprint = text, sr_guid = []\<rparr>"

definition sample_reader :: "string reader" where
  "sample_reader = \<lparr>rd_snap = apply_op (OpPutVersion ''.'' ''s'' 1 \<lparr>vr_id = 1, vr_deleted = False, vr_ts = 0\<rparr>) snapshot_default,
     rd_reg = sample_registry\<lparr>rg_bodies := [(''.'', 1) \<mapsto> sample_record ''a'']\<rparr>\<rparr>"

section \<open>The reference closure\<close>

lemma closed_in_mono: "closed_in r V k \<Longrightarrow> V \<subseteq> W \<Longrightarrow> closed_in r W k"
  unfolding closed_in_def by fastforce

lemma collect_closure:
  "collect_ref n r name q version (V, out) = Inr (V', out') \<Longrightarrow>
     set V \<subseteq> set V' \<and> (qs_context q, qs_subject q, version) \<in> set V' \<and> (distinct V \<longrightarrow> distinct V')
     \<and> length out' + length V = length out + length V'
     \<and> (\<forall>k \<in> set V' - set V. closed_in r (set V') k)"
  "collect_refs n r ctx srs (V, out) = Inr (V', out') \<Longrightarrow>
     set V \<subseteq> set V' \<and> ref_key ctx ` set srs \<subseteq> set V' \<and> (distinct V \<longrightarrow> distinct V')
     \<and> length out' + length V = length out + length V'
     \<and> (\<forall>k \<in> set V' - set V. closed_in r (set V') k)"
proof (induction n r name q version "(V, out)" and n r ctx srs "(V, out)"
    arbitrary: V out V' out' and V out V' out' rule: collect_ref_collect_refs.induct)
  case (2 n r name q version)
  let ?key = "(qs_context q, qs_subject q, version)"
  show ?case
  proof (cases "?key \<in> set V")
    case True
    then show ?thesis using "2.prems" by auto
  next
    case False
    obtain vr rec W out1 where vr: "rd_get_version r (qs_context q) (qs_subject q) version = Some vr"
      and rec: "rd_get_schema r (qs_context q) (vr_id vr) = Some rec"
      and refs: "collect_refs n r (qs_context q) (sr_references rec) (?key # V, out) = Inr (W, out1)"
      and res: "V' = W" "out' = out1 @ [\<lparr>rs_name = name, rs_schema = sr_schema rec\<rparr>]"
      using "2.prems" False by (auto simp: Let_def and_then_Inr_iff ok_or_Inr_iff split: prod.splits)
    have ih: "set (?key # V) \<subseteq> set W \<and> ref_key (qs_context q) ` set (sr_references rec) \<subseteq> set W
        \<and> (distinct (?key # V) \<longrightarrow> distinct W) \<and> length out1 + length (?key # V) = length out + length W
        \<and> (\<forall>k \<in> set W - set (?key # V). closed_in r (set W) k)"
      using "2.hyps" [OF refl refl refl False refs] .
    have "closed_in r (set W) ?key" using vr rec ih by (auto simp: closed_in_def)
    then show ?thesis using ih False res by auto
  qed
next
  case (4 n r ctx sr srs)
  obtain V1 out1 where one: "collect_ref n r (ref_name sr) (ref_target ctx sr) (ref_version_u32 sr) (V, out) = Inr (V1, out1)"
    and rest: "collect_refs n r ctx srs (V1, out1) = Inr (V', out')"
    using "4.prems" by (auto simp: and_then_Inr_iff)
  note h1 = "4.hyps"(1) [OF one] and h2 = "4.hyps"(2) [OF rest]
  have "closed_in r (set V') k" if "k \<in> set V' - set V" for k
    using h1 h2 that closed_in_mono [of r "set V1" k "set V'"] by (cases "k \<in> set V1") auto
  then show ?case using h1 h2 by (auto simp: ref_key_def)
qed auto

lemma collect_closure_state:
  assumes "closure_state r (V, out)" and "collect_ref n r name q v (V, out) = Inr (V', out')"
  shows "closure_state r (V', out')" and "set V \<subseteq> set V'" and "target_key (q, v) \<in> set V'"
proof -
  note c = collect_closure(1) [OF assms(2)]
  have "closed_in r (set V') k" if "k \<in> set V'" for k
    using that c assms(1) closed_in_mono [of r "set V" k "set V'"] by (cases "k \<in> set V") (auto simp: closure_state_def)
  then show "closure_state r (V', out')" using c assms(1) by (simp add: closure_state_def)
  show "set V \<subseteq> set V'" "target_key (q, v) \<in> set V'" using c by (auto simp: target_key_def)
qed

lemma message_of_Inr_iff: "message_of x = Inr y \<longleftrightarrow> x = Inr y"
  by (cases x) auto

lemma resolve_loop_closure:
  assumes "closure_state r (V, out0)" and "resolve_loop r ctx refs concrete0 targets0 (V, out0) = Inr (concrete, out, targets)"
    and "target_key ` set targets0 \<subseteq> set V" and "length concrete0 = length targets0"
  shows "length targets = length targets0 + length refs \<and> length concrete = length targets
    \<and> (\<exists>V'. closure_state r (V', out) \<and> target_key ` set targets \<subseteq> set V')"
  using assms
proof (induction refs arbitrary: concrete0 targets0 V out0)
  case Nil
  then show ?case by auto
next
  case (Cons rin refs)
  obtain name subject version q spec v vr V1 out1 where
    step: "collect_ref 65 r name q v (V, out0) = Inr (V1, out1)"
    and rest: "resolve_loop r ctx refs (concrete0 @ [\<lparr>ref_name = name, ref_subject = subject, ref_version = u32_as_i32 v\<rparr>])
        (targets0 @ [(q, v)]) (V1, out1) = Inr (concrete, out, targets)"
    using Cons.prems(2)
    by (auto simp: Let_def and_then_Inr_iff ok_or_Inr_iff message_of_Inr_iff split: if_splits option.splits)
  note c = collect_closure_state [OF Cons.prems(1) step]
  have "target_key ` set (targets0 @ [(q, v)]) \<subseteq> set V1" using Cons.prems(3) c(2,3) by auto
  then show ?case using Cons.IH [OF c(1) rest] Cons.prems(4) by simp
qed


section \<open>The parse caches\<close>

lemma nul_tail_split:
  assumes "s @ a = t @ b" "NUL \<notin> set s" "NUL \<notin> set t" and "a = [] \<or> hd a = NUL" "b = [] \<or> hd b = NUL"
  shows "s = t \<and> a = b"
proof (cases a)
  case Nil
  then have "b = []" using assms by (cases b) auto
  then show ?thesis using Nil assms(1) by simp
next
  case (Cons c a')
  then have "b \<noteq> []" using assms by auto
  then obtain b' where "b = NUL # b'" using assms(5) by (cases b) auto
  then show ?thesis using assms Cons by (simp add: separated_eq_iff)
qed

lemma refs_bytes_head: "refs_bytes u = [] \<or> hd (refs_bytes u) = NUL"
  by (cases u) (auto simp: refs_bytes_def)

lemmas text_refs_split = nul_tail_split [OF _ _ _ refs_bytes_head refs_bytes_head]

lemma refs_bytes_inj: "clean_refs a \<Longrightarrow> clean_refs b \<Longrightarrow> refs_bytes a = refs_bytes b \<Longrightarrow> a = b"
proof (induction a arbitrary: b)
  case Nil
  then show ?case by (cases b) (auto simp: refs_bytes_def)
next
  case (Cons x a)
  then obtain y b' where b: "b = y # b'" by (cases b) (auto simp: refs_bytes_def)
  have tail: "rs_name x @ CHR 0x01 # rs_schema x @ refs_bytes a = rs_name y @ CHR 0x01 # rs_schema y @ refs_bytes b'"
    using Cons.prems(3) b by (simp add: refs_bytes_def)
  then have name: "rs_name x = rs_name y" and rest: "rs_schema x @ refs_bytes a = rs_schema y @ refs_bytes b'"
    using Cons.prems(1,2) b by (auto simp: clean_refs_def separated_eq_iff)
  have "rs_schema x = rs_schema y \<and> refs_bytes a = refs_bytes b'"
    using text_refs_split [OF rest] Cons.prems(1,2) b by (simp add: clean_refs_def)
  then show ?case using Cons.IH [of b'] Cons.prems(1,2) b name by (simp add: clean_refs_def)
qed

text \<open>The keys of the parse cache separate the requests a client can legitimately send: text and resolved
  schemas without byte 0.\<close>

lemma parse_preimage_inj:
  assumes "parse_preimage ty text refs vd = parse_preimage ty' text' refs' vd'"
    and "NUL \<notin> set text" "NUL \<notin> set text'" "clean_refs refs" "clean_refs refs'"
  shows "ty = ty' \<and> text = text' \<and> refs = refs' \<and> vd = vd'"
proof -
  have "ty = ty' \<and> vd = vd' \<and> text @ refs_bytes refs = text' @ refs_bytes refs'"
    using assms(1) by (cases ty; cases ty'; cases vd; cases vd'; simp add: parse_preimage_def)
  then show ?thesis
    using text_refs_split [of "text" refs text' refs'] refs_bytes_inj [OF assms(4,5)] assms(2,3) by blast
qed


text \<open>With byte 0 in a request the parse cache confuses requests: once a schema with a reference has
  been parsed, a request without references whose text is that text followed by byte 0, the
  reference's name, byte 1 and the referenced schema is answered with the cached parse of the other
  request, although its own text was never looked at.\<close>

theorem parse_cache_confusable:
  assumes "rg_parsed_by_text reg (parse_key F ty text [ref] vd) = None" and "parse_with F ty text [ref] vd = Inr p"
  shows "parse_cached F (parse_fill F ty text [ref] vd reg) ty (text @ NUL # rs_name ref @ CHR 0x01 # rs_schema ref) [] vd = Inr p"
proof -
  have "parse_key F ty (text @ NUL # rs_name ref @ CHR 0x01 # rs_schema ref) [] vd = parse_key F ty text [ref] vd"
    by (simp add: parse_key_def parse_preimage_def refs_bytes_def)
  then show ?thesis using assms by (simp add: parse_cached_def parse_fill_def)
qed

lemma resolve_stored_Nil [simp]: "resolve_stored r ctx [] = Inr []"
  by (simp add: resolve_stored_def resolve_references_def)

text \<open>The cache of parsed stored schemas outlives a commit that replaces the content of an id: once the
  schema stored under an id has been parsed, every later lookup of that id gives this parse, whatever
  was committed in between and whatever content the id has by then (schemas without references).\<close>

theorem parsed_by_id_outlives_content:
  assumes "sr_references rec = []" "sr_references rec' = []"
    and "rg_parsed_by_id reg (ctx, i, replicate 32 NUL) = None" and "parse_stored F rec [] = Inr p"
  shows "parse_record F (registry_reader (registry_commit x n (record_fill F ctx i rec reg))) ctx i rec' = Inr p"
proof -
  have fill: "record_fill F ctx i rec reg = reg\<lparr>rg_parsed_by_id := (rg_parsed_by_id reg)((ctx, i, replicate 32 NUL) \<mapsto> p)\<rparr>"
    using assms by (simp add: record_fill_def deps_fingerprint_def)
  have "rg_parsed_by_id (registry_commit x n (record_fill F ctx i rec reg)) = rg_parsed_by_id (record_fill F ctx i rec reg)"
    by (simp add: registry_commit_def split: prod.splits)
  then show ?thesis
    using assms(2) by (simp add: parse_record_def deps_fingerprint_def registry_reader_def fill)
qed

theorem parsed_by_id_outlives_content_witness:
  "\<exists>p. parse_record sample_formats (registry_reader (registry_commit \<lparr>tx_store = default_tenant,
      tx_batch = [BSchemas (RPut (store_key default_tenant (schema_key ''.'' 1)) (sample_record ''b''))], tx_log_seq = 0,
      tx_log_dirty = False, tx_ops = []\<rparr> 0 (record_fill sample_formats ''.'' 1 (sample_record ''a'') sample_registry)))
    ''.'' 1 (sample_record ''b'') = Inr p \<and> ps_canonical p = ''a''"
proof -
  define p :: "string parsed_schema" where
    "p = \<lparr>ps_type = Avro, ps_canonical = ''a'', ps_normalized = ''a'', ps_normalize_error = None, ps_inner = ParsedAvro ''a''\<rparr>"
  have "parse_stored sample_formats (sample_record ''a'') [] = Inr p"
    by (simp add: parse_stored_def parse_with_def sample_formats_def sample_record_def p_def)
  moreover have "sr_references (sample_record t) = []" for t by (simp add: sample_record_def)
  moreover have "rg_parsed_by_id sample_registry k = None" for k by (simp add: sample_registry_def registry_new_def)
  ultimately show ?thesis
    using parsed_by_id_outlives_content [of "sample_record ''a''" "sample_record ''b''" sample_registry "''.''" 1 sample_formats p]
    by (auto simp: p_def)
qed

theorem parse_cache_confusable_witness:
  "\<exists>p. parse_cached sample_formats (parse_fill sample_formats Avro ''a'' [\<lparr>rs_name = ''n'', rs_schema = ''b''\<rparr>] True sample_registry)
    Avro (''a'' @ NUL # ''n'' @ CHR 0x01 # ''b'') [] True = Inr p \<and> ps_canonical p = ''a''"
proof -
  let ?ref = "\<lparr>rs_name = ''n'', rs_schema = ''b''\<rparr>"
  have "rg_parsed_by_text sample_registry k = None" for k by (simp add: sample_registry_def registry_new_def)
  moreover obtain p where "parse_with sample_formats Avro ''a'' [?ref] True = Inr p" "ps_canonical p = ''a''"
    by (simp add: parse_with_def sample_formats_def)
  ultimately show ?thesis
    using parse_cache_confusable [of sample_registry sample_formats Avro "''a''" ?ref True p] by auto
qed


lemmas sample_reader_simps = sample_reader_def queries_ctx_state put_version_ctx_def snapshot_default_def small_insert_def
  binary_search_def Let_def ctx_mut_def ctx_state_of_def ctx_default_def find_version_def set_insert_def set_remove_def version_of_def

lemma sample_reader_facts:
  "rd_list_versions sample_reader ''.'' ''s'' = [(1, \<lparr>vr_id = 1, vr_deleted = False, vr_ts = 0\<rparr>)]"
  "rd_get_version sample_reader ''.'' ''s'' 1 = Some \<lparr>vr_id = 1, vr_deleted = False, vr_ts = 0\<rparr>"
  "rd_get_schema sample_reader ''.'' 1 = Some (sample_record ''a'')"
  by (simp_all add: rd_list_versions_def rd_get_version_def rd_get_schema_def sample_reader_simps bsearch.simps)


end
