(* ===== verification/Lookup.thy ===== *)
theory Lookup
  imports Schemas
begin

text \<open>
  Finding a version or a schema and deciding whether a new schema may follow the stored ones
  (\<open>src/src/registry/lookup.rs\<close>): version selection with the fallback over contexts, lookup by
  content, and the compatibility check against the live versions of a subject.
\<close>

fun first_version :: "'p reader \<Rightarrow> string \<Rightarrow> version_spec \<Rightarrow> bool \<Rightarrow> string list
    \<Rightarrow> (qualified_subject \<times> u32 \<times> version_record) option" where
  "first_version r subject spec deleted [] = None"
| "first_version r subject spec deleted (ctx # cs) =
    (let cq = qs_new ctx subject in
     case get_exact r cq spec deleted of
       Some (v, vr) \<Rightarrow> Some (cq, v, vr)
     | None \<Rightarrow> first_version r subject spec deleted cs)"

definition other_contexts :: "'p reader \<Rightarrow> string list" where
  "other_contexts r = filter (\<lambda>c. c \<noteq> DEFAULT_CONTEXT) (rd_list_contexts r)"

definition get_using_contexts :: "'p reader \<Rightarrow> qualified_subject \<Rightarrow> version_spec \<Rightarrow> bool
    \<Rightarrow> (qualified_subject \<times> u32 \<times> version_record) option" where
  "get_using_contexts r q spec deleted = (case get_exact r q spec deleted of
      Some (v, vr) \<Rightarrow> Some (q, v, vr)
    | None \<Rightarrow>
        if qs_context q \<noteq> DEFAULT_CONTEXT then None
        else first_version r (qs_subject q) spec deleted (other_contexts r))"

definition version_or_error :: "'p reader \<Rightarrow> string \<Rightarrow> version_spec \<Rightarrow> bool
    \<Rightarrow> (qualified_subject \<times> u32 \<times> version_record) api_result" where
  "version_or_error r subject spec deleted =
    (let q = qs_parse subject in
     case get_using_contexts r q spec deleted of
       Some found \<Rightarrow> Inr found
     | None \<Rightarrow>
         if \<not> has_subjects r q deleted then Inl (subject_not_found (qs_qualified q))
         else Inl (version_not_found (show_version_spec spec)))"

definition list_versions :: "'p registry \<Rightarrow> string \<Rightarrow> bool \<Rightarrow> bool \<Rightarrow> u32 list api_result" where
  "list_versions reg subject deleted deleted_only =
    (let r = registry_reader reg; q = qs_parse subject in
     if \<not> has_subjects r q (deleted \<or> deleted_only) then Inl (subject_not_found (qs_qualified q))
     else Inr (map fst (filter (\<lambda>(_, v). if deleted_only then vr_deleted v else deleted \<or> \<not> vr_deleted v)
       (rd_list_versions r (qs_context q) (qs_subject q)))))"

definition wants_format :: "string option \<Rightarrow> bool" where
  "wants_format fmt = is_some_and fmt (\<lambda>f. \<not> is_blank f)"

definition get_version_formatted :: "'p formats \<Rightarrow> 'p registry \<Rightarrow> string \<Rightarrow> version_spec \<Rightarrow> bool \<Rightarrow> string option
    \<Rightarrow> schema_view api_result" where
  "get_version_formatted F reg subject spec deleted fmt =
    (let r = registry_reader reg in
     and_then (version_or_error r subject spec deleted) (\<lambda>(cq, v, vr).
     and_then (ok_or (rd_get_schema r (qs_context cq) (vr_id vr)) schema_not_found) (\<lambda>rec.
     let view = entity_view (entity_stored cq v (vr_id vr) rec) in
     if wants_format fmt
     then map_ok (\<lambda>s. view\<lparr>sv_schema := s\<rparr>) (formatted F r (qs_context cq) (vr_id vr) rec fmt)
     else Inr view)))"

fun first_match :: "'p reader \<Rightarrow> qualified_subject \<Rightarrow> 'p canon \<Rightarrow> (u32 \<times> version_record) list \<Rightarrow> entity option api_result" where
  "first_match r q c [] = Inr None"
| "first_match r q c ((v, vr) # vs) =
    and_then (entity_of r q v vr) (\<lambda>prev.
    if can_lookup c prev then Inr (Some prev) else first_match r q c vs)"

definition lookup_under_subject :: "'p formats \<Rightarrow> 'p reader \<Rightarrow> qualified_subject \<Rightarrow> draft \<Rightarrow> bool \<Rightarrow> bool \<Rightarrow> bool
    \<Rightarrow> entity option api_result" where
  "lookup_under_subject F r q d norm lookup_deleted latest_only =
    and_then (canonicalize F r q d False norm) (\<lambda>canon.
    case canon of
      None \<Rightarrow> Inr None
    | Some c \<Rightarrow>
        (case (if latest_only then None else hash_lookup F r q c) of
           Some (i, Some (v, vr)) \<Rightarrow>
             if lookup_deleted \<or> \<not> vr_deleted vr then Inr (Some (entity_from_canon q v i c))
             else first_match r q c (filter (\<lambda>(_, x). lookup_deleted \<or> \<not> vr_deleted x)
               (rev (rd_list_versions r (qs_context q) (qs_subject q))))
         | _ \<Rightarrow>
             let versions = rev (rd_list_versions r (qs_context q) (qs_subject q)) in
             if latest_only then first_match r q c (take 1 (filter (\<lambda>(_, x). \<not> vr_deleted x) versions))
             else first_match r q c (filter (\<lambda>(_, x). lookup_deleted \<or> \<not> vr_deleted x) versions)))"

fun lookup_contexts :: "'p formats \<Rightarrow> 'p reader \<Rightarrow> string \<Rightarrow> draft \<Rightarrow> bool \<Rightarrow> bool \<Rightarrow> string list
    \<Rightarrow> entity option api_result" where
  "lookup_contexts F r subject d norm deleted [] = Inr None"
| "lookup_contexts F r subject d norm deleted (ctx # cs) =
    (case lookup_under_subject F r (qs_new ctx subject) d norm deleted False of
       Inr (Some e) \<Rightarrow> Inr (Some e)
     | Inr None \<Rightarrow> lookup_contexts F r subject d norm deleted cs
     | Inl e \<Rightarrow> if err_code e = 42201 then lookup_contexts F r subject d norm deleted cs else Inl e)"

definition lookup_using_contexts :: "'p formats \<Rightarrow> 'p reader \<Rightarrow> qualified_subject \<Rightarrow> draft \<Rightarrow> bool \<Rightarrow> bool
    \<Rightarrow> entity option api_result" where
  "lookup_using_contexts F r q d norm deleted =
    and_then (lookup_under_subject F r q d norm deleted False) (\<lambda>found.
    case found of
      Some e \<Rightarrow> Inr (Some e)
    | None \<Rightarrow>
        if qs_context q \<noteq> DEFAULT_CONTEXT then Inr None
        else lookup_contexts F r (qs_subject q) d norm deleted (other_contexts r))"

definition lookup_schema :: "'p formats \<Rightarrow> 'p registry \<Rightarrow> string \<Rightarrow> register_request \<Rightarrow> bool \<Rightarrow> bool \<Rightarrow> string option
    \<Rightarrow> schema_view api_result" where
  "lookup_schema F reg subject req norm deleted fmt =
    (let r = registry_reader reg; q = qs_parse subject;
         norm = (norm \<or> normalize_in_scope r q); d = draft_from req in
     and_then (lookup_using_contexts F r q d norm deleted) (\<lambda>found.
     case found of
       None \<Rightarrow> Inl (if has_subjects r q deleted then schema_not_found else subject_not_found (qs_qualified q))
     | Some e \<Rightarrow>
         let view = entity_view e in
         if wants_format fmt
         then (let sq = qs_parse (sv_subject view) in
           case rd_get_schema r (qs_context sq) (sv_id view) of
             None \<Rightarrow> Inr view
           | Some rec \<Rightarrow> map_ok (\<lambda>s. view\<lparr>sv_schema := s\<rparr>) (formatted F r (qs_context sq) (sv_id view) rec fmt))
         else Inr view))"

definition other_group :: "config_record \<Rightarrow> schema_record \<Rightarrow> json option \<Rightarrow> bool" where
  "other_group cfg rec new_metadata = is_some_and (cf_compatibility_group cfg)
     (\<lambda>g. \<not> opt_json_eq (metadata_property (sr_metadata rec) g) (metadata_property new_metadata g))"

fun old_versions :: "'p reader \<Rightarrow> string \<Rightarrow> config_record \<Rightarrow> json option \<Rightarrow> (u32 \<times> version_record) list
    \<Rightarrow> old_version list api_result" where
  "old_versions r ctx cfg new_metadata [] = Inr []"
| "old_versions r ctx cfg new_metadata ((v, vr) # vs) =
    and_then (ok_or (rd_get_schema r ctx (vr_id vr)) schema_not_found) (\<lambda>rec.
    if other_group cfg rec new_metadata then old_versions r ctx cfg new_metadata vs
    else map_ok (\<lambda>olds. \<lparr>ov_version = v, ov_id = vr_id vr, ov_rec = rec\<rparr> # olds) (old_versions r ctx cfg new_metadata vs))"

definition compat_candidates :: "'p reader \<Rightarrow> qualified_subject \<Rightarrow> config_record \<Rightarrow> json option \<Rightarrow> old_version list api_result" where
  "compat_candidates r q cfg new_metadata =
    old_versions r (qs_context q) cfg new_metadata
      (filter (\<lambda>(_, vr). \<not> vr_deleted vr) (rev (rd_list_versions r (qs_context q) (qs_subject q))))"

definition parse_old :: "'p formats \<Rightarrow> 'p reader \<Rightarrow> string \<Rightarrow> old_version \<Rightarrow> 'p previous api_result" where
  "parse_old F r ctx old = map_ok (\<lambda>p. \<lparr>pv_version = ov_version old, pv_schema = p\<rparr>) (parse_record F r ctx (ov_id old) (ov_rec old))"

definition compat_trailer :: "config_record \<Rightarrow> compatibility_level \<Rightarrow> string" where
  "compat_trailer cfg level = ''{validateFields: '' @ quoted (if unwrap_or (cf_validate_fields cfg) False then ''true'' else ''false'') @
     '', compatibility: '' @ quoted (compat_as_str level) @ ''}''"

definition check_compatibility :: "'p formats \<Rightarrow> 'p reader \<Rightarrow> string \<Rightarrow> 'p parsed_schema \<Rightarrow> old_version list
    \<Rightarrow> compatibility_level \<Rightarrow> config_record \<Rightarrow> string list api_result" where
  "check_compatibility F r ctx new olds level cfg =
    (if level = CompatNone \<or> olds = [] then Inr []
     else
       let needed = (if transitive level then length olds else 1) in
       and_then (collect_ok (parse_old F r ctx) (take needed olds)) (\<lambda>previous.
       let msgs = check_level F new previous level in
       Inr (if msgs \<noteq> [] then msgs @ [compat_trailer cfg level] else [])))"

definition test_compatibility :: "'p formats \<Rightarrow> 'p registry \<Rightarrow> string \<Rightarrow> version_spec option \<Rightarrow> register_request \<Rightarrow> bool \<Rightarrow> bool
    \<Rightarrow> string list api_result" where
  "test_compatibility F reg subject version req norm verbose =
    (let r = registry_reader reg; q = qs_parse subject in
     and_then (case version of
         Some spec \<Rightarrow> (case get_exact r q spec False of
             Some found \<Rightarrow> Inr [found]
           | None \<Rightarrow> if spec = VLatest then Inr [] else Inl (version_not_found (show_version_spec spec)))
       | None \<Rightarrow> Inr (filter (\<lambda>(_, v). \<not> vr_deleted v) (rev (rd_list_versions r (qs_context q) (qs_subject q))))) (\<lambda>previous.
     let norm = (norm \<or> normalize_in_scope r q); d = draft_from req;
         result = and_then (canonicalize F r q d True norm) (\<lambda>canon.
           and_then (ok_or canon (api_error_new 42201 ''Empty schema'')) (\<lambda>c.
           let cfg = config_in_scope r q in
           and_then (old_versions r (qs_context q) cfg (cn_metadata c) previous) (\<lambda>olds.
           check_compatibility F r (qs_context q) (cn_parsed c) olds
             (unwrap_or (cf_compatibility_level cfg) (rg_default_compatibility reg)) cfg)))
     in case result of
          Inl e \<Rightarrow> if err_code e = 42201 \<and> verbose then Inr [err_message e] else Inl e
        | Inr msgs \<Rightarrow> Inr msgs))"

fun first_with_metadata :: "'p formats \<Rightarrow> 'p reader \<Rightarrow> qualified_subject \<Rightarrow> (string \<times> string) list \<Rightarrow> string option
    \<Rightarrow> (u32 \<times> version_record) list \<Rightarrow> schema_view option api_result" where
  "first_with_metadata F r q wanted fmt [] = Inr None"
| "first_with_metadata F r q wanted fmt ((v, vr) # vs) =
    and_then (ok_or (rd_get_schema r (qs_context q) (vr_id vr)) schema_not_found) (\<lambda>rec.
    case Option.bind (Option.bind (sr_metadata rec) (\<lambda>m. json_get m ''properties'')) as_object of
      None \<Rightarrow> first_with_metadata F r q wanted fmt vs
    | Some props \<Rightarrow>
        if list_all (\<lambda>(k, x). Option.bind (map_of props k) as_str = Some x) wanted
        then (let view = entity_view (entity_stored q v (vr_id vr) rec) in
          if wants_format fmt
          then map_ok (\<lambda>s. Some (view\<lparr>sv_schema := s\<rparr>)) (formatted F r (qs_context q) (vr_id vr) rec fmt)
          else Inr (Some view))
        else first_with_metadata F r q wanted fmt vs)"

text \<open>\<open>pairs\<close> are collected into a map first, so the last value of a repeated key counts.\<close>

definition latest_with_metadata :: "'p formats \<Rightarrow> 'p registry \<Rightarrow> string \<Rightarrow> (string \<times> string) list \<Rightarrow> bool \<Rightarrow> string option
    \<Rightarrow> schema_view api_result" where
  "latest_with_metadata F reg subject pairs deleted fmt =
    (let r = registry_reader reg; q = qs_parse subject; wanted = map_extend [] pairs in
     and_then (first_with_metadata F r q wanted fmt
         (filter (\<lambda>(_, vr). deleted \<or> \<not> vr_deleted vr) (rev (rd_list_versions r (qs_context q) (qs_subject q))))) (\<lambda>found.
     ok_or found (if has_subjects r q deleted then schema_not_found else subject_not_found (qs_qualified q))))"

section \<open>Which version a selector names\<close>

lemma find_last:
  assumes "wf_table vs"
  shows "find P (rev vs) = Some (v, x) \<longleftrightarrow>
    (v, x) \<in> set vs \<and> P (v, x) \<and> (\<forall>w y. (w, y) \<in> set vs \<and> P (w, y) \<longrightarrow> w \<le> v)"
  using assms
proof (induction vs rule: rev_induct)
  case (snoc p vs)
  obtain w y where p: "p = (w, y)" by fastforce
  have wf: "wf_table vs" and below: "\<forall>a \<in> fst ` set vs. a < w"
    using snoc.prems p by (auto simp: wf_table_append)
  show ?case
  proof (cases "P (w, y)")
    case True
    then show ?thesis using below p by (fastforce simp: not_le)
  next
    case False
    then show ?thesis using snoc.IH [OF wf] p by auto
  qed
qed simp

lemma find_unique_key:
  assumes "wf_table vs"
  shows "find (\<lambda>(v, x). v = n \<and> Q x) vs = Some (v, x) \<longleftrightarrow> v = n \<and> map_of vs n = Some x \<and> Q x"
  using assms
proof (induction vs)
  case (Cons p vs)
  obtain w y where p: "p = (w, y)" by fastforce
  then show ?case
    using Cons wf_table_below [of w y vs n] by (auto simp: wf_table_Cons)
qed simp

lemma rd_versions:
  assumes "snap_inv (rd_snap r)"
  shows "wf_table (rd_list_versions r c s)" and "map_of (rd_list_versions r c s) = rd_get_version r c s"
proof -
  have inv: "ctx_inv (ctx_state_of (rd_snap r) c)" using assms by (simp add: snap_inv_def)
  show "wf_table (rd_list_versions r c s)"
    unfolding rd_list_versions_def queries_ctx_state by (rule wf_versions [OF inv])
  show "map_of (rd_list_versions r c s) = rd_get_version r c s"
    by (auto simp: rd_list_versions_def rd_get_version_def queries_ctx_state map_of_versions)
qed

text \<open>A version selector names the right version: \<open>latest\<close> is the live version with the greatest
  number, whether or not deleted versions are asked for, and a number names the version with that
  number if it is live or deleted ones are included; in every other case nothing is found.\<close>

theorem version_selection:
  assumes "snap_inv (rd_snap r)"
  shows "(get_exact r q VLatest deleted = Some (v, vr) \<longleftrightarrow>
      rd_get_version r (qs_context q) (qs_subject q) v = Some vr \<and> \<not> vr_deleted vr
      \<and> (\<forall>w wr. rd_get_version r (qs_context q) (qs_subject q) w = Some wr \<and> \<not> vr_deleted wr \<longrightarrow> w \<le> v))
    \<and> (get_exact r q (VExact n) deleted = Some (v, vr) \<longleftrightarrow>
      v = n \<and> rd_get_version r (qs_context q) (qs_subject q) n = Some vr \<and> (deleted \<or> \<not> vr_deleted vr))"
proof
  note vs = rd_versions [OF assms, of "qs_context q" "qs_subject q"]
  have mem: "(w, wr) \<in> set (rd_list_versions r (qs_context q) (qs_subject q))
      \<longleftrightarrow> rd_get_version r (qs_context q) (qs_subject q) w = Some wr" for w wr
    using wf_table_map_of_iff [OF vs(1)] vs(2) by simp
  show "get_exact r q VLatest deleted = Some (v, vr) \<longleftrightarrow>
      rd_get_version r (qs_context q) (qs_subject q) v = Some vr \<and> \<not> vr_deleted vr
      \<and> (\<forall>w wr. rd_get_version r (qs_context q) (qs_subject q) w = Some wr \<and> \<not> vr_deleted wr \<longrightarrow> w \<le> v)"
    using find_last [OF vs(1), of "\<lambda>(_, v). \<not> vr_deleted v"] by (auto simp: get_exact_def Let_def mem)
  show "get_exact r q (VExact n) deleted = Some (v, vr) \<longleftrightarrow>
      v = n \<and> rd_get_version r (qs_context q) (qs_subject q) n = Some vr \<and> (deleted \<or> \<not> vr_deleted vr)"
    using find_unique_key [OF vs(1), of n "\<lambda>x. deleted \<or> \<not> vr_deleted x"] vs(2) by (simp add: get_exact_def Let_def)
qed

theorem version_selection_witness:
  "get_exact sample_reader (qs_new ''.'' ''s'') VLatest False = Some (1, \<lparr>vr_id = 1, vr_deleted = False, vr_ts = 0\<rparr>)"
proof -
  have inv: "snap_inv (rd_snap sample_reader)"
    using apply_op_inv [OF snap_inv_default, of "OpPutVersion ''.'' ''s'' 1 \<lparr>vr_id = 1, vr_deleted = False, vr_ts = 0\<rparr>"]
    by (simp add: sample_reader_def del: apply_op.simps)
  have only: "rd_get_version sample_reader ''.'' ''s'' w = None" if "w \<noteq> 1" for w
    using that by (simp add: rd_get_version_def sample_reader_simps bsearch.simps)
  have "\<forall>w wr. rd_get_version sample_reader ''.'' ''s'' w = Some wr \<and> \<not> vr_deleted wr \<longrightarrow> w \<le> 1"
    using only by (metis option.distinct(1) order_refl)
  then show ?thesis
    using version_selection [OF inv, of "qs_new ''.'' ''s''" False 1 "\<lparr>vr_id = 1, vr_deleted = False, vr_ts = 0\<rparr>"]
    by (simp add: qs_new_def sample_reader_facts)
qed

section \<open>Checking a schema against the stored versions\<close>

lemma collect_ok_Inr: "collect_ok f xs = Inr ys \<longleftrightarrow> list_all2 (\<lambda>x y. f x = Inr y) xs ys"
  by (induction xs arbitrary: ys) (auto simp: and_then_Inr_iff map_ok_Inr_iff list_all2_Cons1)

lemma old_versions_live:
  assumes "old_versions r ctx cfg m vs = Inr olds"
  shows "olds = map (\<lambda>(v, vr). \<lparr>ov_version = v, ov_id = vr_id vr, ov_rec = the (rd_get_schema r ctx (vr_id vr))\<rparr>)
    (filter (\<lambda>(v, vr). \<not> other_group cfg (the (rd_get_schema r ctx (vr_id vr))) m) vs)"
  using assms
proof (induction r ctx cfg m vs arbitrary: olds rule: old_versions.induct)
  case (2 r ctx cfg m v vr vs)
  then show ?case by (auto simp: and_then_Inr_iff ok_or_Inr_iff map_ok_Inr_iff split: if_splits)
qed simp

end
