(* ===== verification/Listings.thy ===== *)
theory Listings
  imports Lookup Java_Order "HOL-Library.Multiset"
begin

text \<open>
  What is in the registry (\<open>src/src/registry/listings.rs\<close>, and \<open>referenced_by\<close> of
  \<open>src/src/registry/mod.rs\<close>): subject and schema listings, the search for the context that holds an
  id, the subjects and versions that use an id, the referrers of a version, and the reads the exporter
  needs.  Name parsing never fails in the source, so it is a total function here.  The listing of an
  id's versions contains an \<open>expect\<close>; its panic is the outer \<open>None\<close>.
\<close>

section \<open>Subjects and schemas\<close>

definition contexts_matching :: "'p reader \<Rightarrow> string \<Rightarrow> string list" where
  "contexts_matching r ctx = (if ctx = WILDCARD_CONTEXT then rd_list_contexts r else [ctx])"

definition parse_prefix :: "string option \<Rightarrow> qualified_subject" where
  "parse_prefix prefix = (case prefix of None \<Rightarrow> qs_new WILDCARD_CONTEXT [] | Some p \<Rightarrow> qs_parse p)"

definition listed :: "bool \<Rightarrow> bool \<Rightarrow> (u32 \<times> version_record) list \<Rightarrow> bool" where
  "listed deleted deleted_only versions =
    (let live = list_ex (\<lambda>(_, v). \<not> vr_deleted v) versions in
     if deleted_only then \<not> live \<and> versions \<noteq> [] else live \<or> (deleted \<and> versions \<noteq> []))"

definition list_subjects_in :: "'p reader \<Rightarrow> string option \<Rightarrow> bool \<Rightarrow> bool \<Rightarrow> string list" where
  "list_subjects_in r prefix deleted deleted_only =
    (let p = parse_prefix prefix in
     sort (concat (map (\<lambda>ctx. map (qualify ctx) (filter (\<lambda>name. starts_with name (qs_subject p)
         \<and> listed deleted deleted_only (rd_list_versions r ctx name)) (rd_list_subject_names r ctx)))
       (contexts_matching r (qs_context p)))))"

definition list_subjects :: "'p registry \<Rightarrow> string option \<Rightarrow> bool \<Rightarrow> bool \<Rightarrow> string list" where
  "list_subjects reg prefix deleted deleted_only = list_subjects_in (registry_reader reg) prefix deleted deleted_only"

text \<open>The alias targets, as a sorted map from the target's qualified name to its aliases.\<close>

definition alias_target :: "string \<Rightarrow> string \<Rightarrow> qualified_subject" where
  "alias_target ctx alias =
    (let target = qs_parse alias in if starts_with alias '':'' then target else qs_new ctx (qs_subject target))"

definition add_alias :: "string list \<Rightarrow> string \<Rightarrow> string \<times> string \<times> config_record \<Rightarrow> (string \<times> string list) list
    \<Rightarrow> (string \<times> string list) list" where
  "add_alias prefix_ctxs name_prefix = (\<lambda>(ctx, subject, cfg) aliases. case cf_alias cfg of
      None \<Rightarrow> aliases
    | Some a \<Rightarrow>
        if a = [] \<or> \<not> (ctx \<in> set prefix_ctxs \<and> starts_with subject name_prefix) then aliases
        else let target = qs_qualified (alias_target ctx a) in
          om_update target (unwrap_or (map_of aliases target) [] @ [qualify ctx subject]) aliases)"

definition alias_map :: "'p reader \<Rightarrow> bool \<Rightarrow> string list \<Rightarrow> string \<Rightarrow> (string \<times> string list) list" where
  "alias_map r include_aliases prefix_ctxs name_prefix =
    (if include_aliases then fold (add_alias prefix_ctxs name_prefix) (rd_subject_configs r) [] else [])"

definition add_subject :: "qualified_subject \<Rightarrow> qualified_subject list \<Rightarrow> qualified_subject list" where
  "add_subject q qs = (if q \<in> set qs then qs else qs @ [q])"

definition listed_subjects :: "'p reader \<Rightarrow> string list \<Rightarrow> string \<Rightarrow> (string \<times> string list) list \<Rightarrow> qualified_subject list" where
  "listed_subjects r prefix_ctxs name_prefix aliases =
    fold (\<lambda>target. add_subject (qs_parse target)) (map fst aliases)
      (concat (map (\<lambda>ctx. map (qs_new ctx) (filter (\<lambda>name. starts_with name name_prefix) (rd_list_subject_names r ctx)))
        prefix_ctxs))"

definition subject_views :: "'p reader \<Rightarrow> bool \<Rightarrow> bool \<Rightarrow> bool \<Rightarrow> string option \<Rightarrow> (string \<times> string list) list
    \<Rightarrow> qualified_subject \<Rightarrow> schema_view list api_result" where
  "subject_views r deleted latest_only include_aliases rule_type aliases q =
    (let versions = filter (\<lambda>(_, v). deleted \<or> \<not> vr_deleted v) (rd_list_versions r (qs_context q) (qs_subject q));
         chosen = (if latest_only then (if versions = [] then [] else [last versions]) else versions) in
     map_ok (\<lambda>es. map (\<lambda>view. if include_aliases
           then view\<lparr>sv_aliases := map_option sort (map_of aliases (qs_qualified q))\<rparr> else view)
         (filter (\<lambda>view. case rule_type of
             None \<Rightarrow> True | Some t \<Rightarrow> t = [] \<or> has_rules_with_type (sv_rule_set view) t) (map entity_view es)))
       (collect_ok (\<lambda>(v, vr). entity_of r q v vr) chosen))"

definition list_schemas :: "'p registry \<Rightarrow> string option \<Rightarrow> bool \<Rightarrow> bool \<Rightarrow> bool \<Rightarrow> string option \<Rightarrow> schema_view list api_result" where
  "list_schemas reg prefix deleted latest_only include_aliases rule_type =
    (let r = registry_reader reg; p = parse_prefix prefix;
         prefix_ctxs = contexts_matching r (qs_context p);
         aliases = alias_map r include_aliases prefix_ctxs (qs_subject p);
         subjects = listed_subjects r prefix_ctxs (qs_subject p) aliases in
     map_ok (\<lambda>views. sort_key (\<lambda>v. (sv_subject v, sv_version v)) (concat views))
       (collect_ok (subject_views r deleted latest_only include_aliases rule_type aliases) subjects))"

section \<open>The id index\<close>

definition found_id :: "'p reader \<Rightarrow> u32 \<Rightarrow> string \<Rightarrow> string option \<Rightarrow> schema_record option" where
  "found_id r i ctx name =
    (let usages = rd_id_usages r ctx i;
         used = (case name of None \<Rightarrow> usages \<noteq> [] | Some n \<Rightarrow> list_ex (\<lambda>(s, _). s = n) usages) in
     if used then rd_get_schema r ctx i else None)"

fun first_found :: "'p reader \<Rightarrow> u32 \<Rightarrow> string \<Rightarrow> string list \<Rightarrow> (string \<times> schema_record) option" where
  "first_found r i name [] = None"
| "first_found r i name (ctx # cs) = (case found_id r i ctx (Some name) of
      Some rec \<Rightarrow> Some (ctx, rec)
    | None \<Rightarrow> first_found r i name cs)"

definition locate_id :: "'p reader \<Rightarrow> u32 \<Rightarrow> string option \<Rightarrow> (string \<times> schema_record) api_result" where
  "locate_id r i subject =
    (let hint = (case subject of
           None \<Rightarrow> None
         | Some s \<Rightarrow> if s = [] then None else Some (qs_parse s, starts_with s '':.'')) in
     ok_or
       (if is_some_and hint (\<lambda>(q, qualified_name). qualified_name \<and> qs_context q \<noteq> DEFAULT_CONTEXT)
        then (let q = fst (the hint); name = (if qs_subject q \<noteq> [] then Some (qs_subject q) else None) in
          map_option (\<lambda>rec. (qs_context q, rec)) (found_id r i (qs_context q) name))
        else opt_or
          (if is_some_and hint (\<lambda>(q, _). qs_subject q \<noteq> [])
           then first_found r i (qs_subject (fst (the hint))) (DEFAULT_CONTEXT # other_contexts r) else None)
          (map_option (\<lambda>rec. (DEFAULT_CONTEXT, rec)) (found_id r i DEFAULT_CONTEXT None)))
       (schema_id_not_found (show_u32 i)))"

definition positive_u32 :: "i64 \<Rightarrow> u32 option" where
  "positive_u32 i = (if 0 < i \<and> i < 2 ^ 32 then Some (of_int i) else None)"

definition get_schema_by_id :: "'p formats \<Rightarrow> 'p registry \<Rightarrow> i64 \<Rightarrow> string option \<Rightarrow> bool \<Rightarrow> string option
    \<Rightarrow> schema_by_id_view api_result" where
  "get_schema_by_id F reg i subject fetch_max_id fmt =
    (let r = registry_reader reg in
     and_then (ok_or (positive_u32 i) (schema_id_not_found (show_int i))) (\<lambda>uid.
     and_then (locate_id r uid subject) (\<lambda>(ctx, rec).
     let max_id = (if fetch_max_id then Some (if rd_next_id r ctx = 0 then 0 else rd_next_id r ctx - 1) else None) in
     map_ok (\<lambda>text. \<lparr>siv_schema_type = schema_type_view (sr_type rec), siv_schema = text, siv_references = sr_references rec,
         siv_metadata = sr_metadata rec, siv_rule_set = sr_rule_set rec, siv_max_id = max_id\<rparr>)
       (formatted F r ctx uid rec fmt))))"

fun note_usage :: "string \<Rightarrow> u32 \<Rightarrow> i64 \<Rightarrow> (string \<times> u32 \<times> i64) list \<Rightarrow> (string \<times> u32 \<times> i64) list" where
  "note_usage s v ts [] = [(s, v, ts)]"
| "note_usage s v ts ((x, w, t) # ps) =
    (if x = s then (x, max w v, min t ts) # ps else (x, w, t) # note_usage s v ts ps)"

definition per_subject :: "'p reader \<Rightarrow> string \<Rightarrow> u32 \<Rightarrow> (string \<times> u32 \<times> i64) list" where
  "per_subject r ctx i = fold (\<lambda>(s, v) ps. case rd_get_version r ctx s v of
       None \<Rightarrow> ps | Some vr \<Rightarrow> note_usage s v (vr_ts vr) ps) (rd_id_usages r ctx i) []"

text \<open>The outer \<open>None\<close> is the panic of looking up a subject that is not in the table.\<close>

definition id_versions_in :: "'p reader \<Rightarrow> i64 \<Rightarrow> string option \<Rightarrow> bool \<Rightarrow> subject_version list api_result option" where
  "id_versions_in r i subject deleted = (case positive_u32 i of
      None \<Rightarrow> Some (Inl schema_not_found)
    | Some uid \<Rightarrow> (case locate_id r uid subject of
        Inl _ \<Rightarrow> Some (Inl schema_not_found)
      | Inr (ctx, _) \<Rightarrow>
          let ps = sort_key (\<lambda>(s, v, ts). (ts, v, s)) (per_subject r ctx uid);
              names = chm_order java_hash (map (\<lambda>(s, _). qualify ctx s) ps) in
          if list_all (\<lambda>name. map_of ps (qs_subject (qs_parse name)) \<noteq> None) names
          then Some (Inr (List.map_filter (\<lambda>name.
              let s = qs_subject (qs_parse name); v = fst (the (map_of ps s)) in
              if deleted \<or> is_some_and (rd_get_version r ctx s v) (\<lambda>vr. \<not> vr_deleted vr)
              then Some \<lparr>sbv_subject = name, sbv_version = v\<rparr> else None) names))
          else None))"

definition id_versions :: "'p registry \<Rightarrow> i64 \<Rightarrow> string option \<Rightarrow> bool \<Rightarrow> subject_version list api_result option" where
  "id_versions reg i subject deleted = id_versions_in (registry_reader reg) i subject deleted"

definition id_subjects :: "'p registry \<Rightarrow> i64 \<Rightarrow> string option \<Rightarrow> bool \<Rightarrow> string list api_result option" where
  "id_subjects reg i subject deleted =
    map_option (map_ok (map sbv_subject)) (id_versions_in (registry_reader reg) i subject deleted)"

section \<open>References and exports\<close>

definition live_referrers :: "'p reader \<Rightarrow> string \<Rightarrow> string \<Rightarrow> u32 \<Rightarrow> u32 list" where
  "live_referrers r ctx subject version =
    remdups_adj (sort (filter (\<lambda>i. list_ex (\<lambda>(s, v). is_some_and (rd_get_version r ctx s v) (\<lambda>vr. \<not> vr_deleted vr))
      (rd_id_usages r ctx i)) (rd_referenced_by r ctx subject version)))"

definition check_not_referenced :: "'p reader \<Rightarrow> qualified_subject \<Rightarrow> u32 \<Rightarrow> unit api_result" where
  "check_not_referenced r q version =
    (if live_referrers r (qs_context q) (qs_subject q) version \<noteq> []
     then Inl (reference_exists (''One or more references exist to the schema {magic=1,keytype=SCHEMA,subject='' @
       qs_qualified q @ '',version='' @ show_u32 version @ ''}.''))
     else Inr ())"

definition referenced_by :: "'p registry \<Rightarrow> string \<Rightarrow> version_spec \<Rightarrow> u32 list api_result" where
  "referenced_by reg subject spec =
    (let r = registry_reader reg in
     map_ok (\<lambda>(cq, v, _). live_referrers r (qs_context cq) (qs_subject cq) v) (version_or_error r subject spec True))"

definition all_subject_versions :: "'p registry \<Rightarrow> (string \<times> string \<times> u32) list" where
  "all_subject_versions reg =
    (let r = registry_reader reg in
     concat (map (\<lambda>ctx. concat (map (\<lambda>subject. map (\<lambda>(v, _). (ctx, subject, v)) (rd_list_versions r ctx subject))
       (rd_list_subject_names r ctx))) (rd_list_contexts r)))"

definition export_payload :: "'p registry \<Rightarrow> string \<Rightarrow> string \<Rightarrow> u32 \<Rightarrow> (version_record \<times> schema_record) option api_result" where
  "export_payload reg ctx subject version =
    (let r = registry_reader reg in
     case rd_get_version r ctx subject version of
       None \<Rightarrow> Inr None
     | Some vr \<Rightarrow> map_ok (\<lambda>rec. Some (vr, rec)) (ok_or (rd_get_schema r ctx (vr_id vr)) schema_not_found))"

definition alias_of :: "'p registry \<Rightarrow> string \<Rightarrow> string option" where
  "alias_of reg subject =
    (let r = registry_reader reg in
     if \<not> rd_has_aliases r then None
     else Option.bind (rd_get_config r (scope_for (qs_parse subject))) cf_alias)"

definition panic_reader :: "string reader" where
  "panic_reader = \<lparr>rd_snap = apply_op (OpPutVersion ''.'' '':.x:s'' 1 \<lparr>vr_id = 1, vr_deleted = False, vr_ts = 0\<rparr>) snapshot_default,
     rd_reg = sample_registry\<lparr>rg_bodies := [(''.'', 1) \<mapsto> sample_record ''a'']\<rparr>\<rparr>"

definition holder :: "'p reader \<Rightarrow> string \<Rightarrow> u32 \<Rightarrow> string \<Rightarrow> u32 \<Rightarrow> bool" where
  "holder r ctx i s v \<longleftrightarrow> (s, v) \<in> set (rd_id_usages r ctx i) \<and> rd_get_version r ctx s v \<noteq> None"

definition latest_holder :: "'p reader \<Rightarrow> string \<Rightarrow> u32 \<Rightarrow> string \<Rightarrow> u32 \<Rightarrow> bool" where
  "latest_holder r ctx i s v \<longleftrightarrow> holder r ctx i s v \<and> (\<forall>w. holder r ctx i s w \<longrightarrow> w \<le> v)"

text \<open>When every holder's name reads back as itself, nothing is missing and nothing is reported twice.\<close>

definition names_read_back :: "'p reader \<Rightarrow> string \<Rightarrow> u32 \<Rightarrow> bool" where
  "names_read_back r ctx i = list_all (\<lambda>(s, _). qs_subject (qs_parse (qualify ctx s)) = s) (rd_id_usages r ctx i)"

section \<open>Listing subjects\<close>

lemma mset_concat_filter_split:
  assumes "\<And>c x. P c x \<longleftrightarrow> Q c x \<or> R c x" and "\<And>c x. \<not> (Q c x \<and> R c x)"
  shows "mset (concat (map (\<lambda>c. map (f c) (filter (P c) (g c))) cs)) =
    mset (concat (map (\<lambda>c. map (f c) (filter (Q c) (g c))) cs)) + mset (concat (map (\<lambda>c. map (f c) (filter (R c) (g c))) cs))"
proof -
  have "filter_mset (P c) M = filter_mset (Q c) M + filter_mset (R c) M" for c M
    using assms by (induction M) auto
  then show ?thesis by (induction cs) (simp_all add: mset_map mset_filter)
qed


section \<open>Where an id is found\<close>

lemma opt_or_Some_iff: "opt_or x y = Some z \<longleftrightarrow> x = Some z \<or> x = None \<and> y = Some z"
  by (cases x) auto

lemma first_found_Some:
  "first_found r i name cs = Some (ctx, rec) \<Longrightarrow> ctx \<in> set cs \<and> found_id r i ctx (Some name) = Some rec"
  by (induction cs) (auto split: option.splits)

lemma first_found_None: "first_found r i name cs = None \<longleftrightarrow> (\<forall>ctx \<in> set cs. found_id r i ctx (Some name) = None)"
  by (induction cs) (auto split: option.splits)

lemma found_id_used: "found_id r i ctx name = Some rec \<Longrightarrow> rd_id_usages r ctx i \<noteq> [] \<and> rd_get_schema r ctx i = Some rec"
  by (auto simp: found_id_def Let_def list_ex_iff split: option.splits if_splits)



section \<open>Subjects and versions of an id\<close>

lemma note_usage_keys: "map fst (note_usage s v t ps) = (if s \<in> fst ` set ps then map fst ps else map fst ps @ [s])"
  by (induction ps) (force split: if_splits)+

lemma note_usage_map_of:
  "map_of (note_usage s v t ps) x = (if x \<noteq> s then map_of ps x
     else Some (case map_of ps s of None \<Rightarrow> (v, t) | Some (w, u) \<Rightarrow> (max w v, min u t)))"
  by (induction ps) auto

lemma per_subject_fold:
  fixes r :: "'p reader" and ctx :: string
  defines "f \<equiv> \<lambda>(s, v) ps. case rd_get_version r ctx s v of None \<Rightarrow> ps | Some vr \<Rightarrow> note_usage s v (vr_ts vr) ps"
    and "H \<equiv> \<lambda>us s v. (s, v) \<in> set us \<and> rd_get_version r ctx s v \<noteq> None"
  shows "distinct (map fst (fold f us [])) \<and>
    (\<forall>s. case map_of (fold f us []) s of None \<Rightarrow> \<forall>v. \<not> H us s v
      | Some (v, t) \<Rightarrow> H us s v \<and> (\<forall>w. H us s w \<longrightarrow> w \<le> v))"
proof (induction us rule: rev_induct)
  case Nil
  then show ?case by (simp add: H_def)
next
  case (snoc u us)
  obtain s v where u: "u = (s, v)" by fastforce
  show ?case
  proof (cases "rd_get_version r ctx s v")
    case None
    then have "H (us @ [u]) = H us" by (auto simp: H_def u fun_eq_iff)
    moreover have "fold f (us @ [u]) [] = fold f us []" using None by (simp add: f_def u)
    ultimately show ?thesis using snoc by (simp only: simp_thms)
  next
    case (Some vr)
    let ?ps = "fold f us []"
    have step: "fold f (us @ [u]) [] = note_usage s v (vr_ts vr) ?ps" using Some by (simp add: f_def u)
    have H: "H (us @ [u]) x w \<longleftrightarrow> H us x w \<or> x = s \<and> w = v" for x w using Some by (auto simp: H_def u)
    have d: "distinct (map fst (note_usage s v (vr_ts vr) ?ps))" using snoc by (auto simp: note_usage_keys)
    have "case map_of (note_usage s v (vr_ts vr) ?ps) x of None \<Rightarrow> \<forall>w. \<not> H (us @ [u]) x w
      | Some (w, t) \<Rightarrow> H (us @ [u]) x w \<and> (\<forall>y. H (us @ [u]) x y \<longrightarrow> y \<le> w)" for x
      using conjunct2 [OF snoc, rule_format, of x]
      by (auto simp: note_usage_map_of H max_def split: option.splits)
    then show ?thesis using d step by simp
  qed
qed

lemma per_subject_spec:
  "distinct (map fst (per_subject r ctx i))"
  "map_of (per_subject r ctx i) s = Some (v, t) \<Longrightarrow> latest_holder r ctx i s v"
  "map_of (per_subject r ctx i) s = None \<Longrightarrow> \<not> holder r ctx i s v"
  using per_subject_fold [of r ctx "rd_id_usages r ctx i"]
  by (auto simp: per_subject_def latest_holder_def holder_def dest!: spec [of _ s])

lemma chm_order_set: "distinct (chm_order h ks)" "set (chm_order h ks) = set ks"
  using chm_fold [of "([], 16)" ks] by (cases "fold chm_insert ks ([], 16)"; simp add: chm_order_def)+

lemma per_subject_sorted:
  fixes r :: "'p reader"
  defines "ps \<equiv> \<lambda>ctx i. sort_key (\<lambda>(s, v, ts). (ts, v, s)) (per_subject r ctx i)"
  shows "map_of (ps ctx i) = map_of (per_subject r ctx i)" and "fst ` set (ps ctx i) = {s. \<exists>v. holder r ctx i s v}"
proof -
  have "distinct (map fst (ps ctx i))"
    using per_subject_spec(1) [of r ctx i] by (simp add: ps_def distinct_map)
  then show m: "map_of (ps ctx i) = map_of (per_subject r ctx i)"
    using per_subject_spec(1) [of r ctx i] map_of_inject_set [of "ps ctx i" "per_subject r ctx i"] by (simp add: ps_def)
  have "s \<in> fst ` set (ps ctx i) \<longleftrightarrow> (\<exists>v. holder r ctx i s v)" for s
  proof (cases "map_of (per_subject r ctx i) s")
    case None
    then show ?thesis using per_subject_spec(3) [OF None] map_of_eq_None_iff [of "ps ctx i" s] m by simp
  next
    case (Some p)
    then have "s \<in> fst ` set (ps ctx i)" using map_of_eq_None_iff [of "ps ctx i" s] m by fastforce
    then show ?thesis using Some per_subject_spec(2) [of r ctx i s "fst p" "snd p"] by (auto simp: latest_holder_def)
  qed
  then show "fst ` set (ps ctx i) = {s. \<exists>v. holder r ctx i s v}" by blast
qed

lemma per_subject_latest:
  fixes r :: "'p reader"
  defines "ps \<equiv> \<lambda>ctx i. sort_key (\<lambda>(s, v, ts). (ts, v, s)) (per_subject r ctx i)"
  shows "(\<exists>t. map_of (ps ctx i) s = Some (v, t)) \<longleftrightarrow> latest_holder r ctx i s v"
    and "holder r ctx i s w \<Longrightarrow> \<exists>v. latest_holder r ctx i s v"
proof -
  have m: "map_of (ps ctx i) = map_of (per_subject r ctx i)" unfolding ps_def by (rule per_subject_sorted)
  show "(\<exists>t. map_of (ps ctx i) s = Some (v, t)) \<longleftrightarrow> latest_holder r ctx i s v"
  proof (cases "map_of (per_subject r ctx i) s")
    case None
    then show ?thesis using per_subject_spec(3) [OF None] m by (auto simp: latest_holder_def)
  next
    case (Some p)
    then show ?thesis using per_subject_spec(2) [of r ctx i s "fst p" "snd p"] m
      by (cases p) (auto simp: latest_holder_def intro: antisym)
  qed
  show "\<exists>v. latest_holder r ctx i s v" if "holder r ctx i s w"
    using per_subject_spec(2,3) [of r ctx i s] that by (cases "map_of (per_subject r ctx i) s") auto
qed

lemma set_map_filter_iff: "x \<in> set (List.map_filter f xs) \<longleftrightarrow> (\<exists>y \<in> set xs. f y = Some x)"
  by (induction xs) (auto simp: List.map_filter_simps split: option.splits)

lemma map_filter_keys:
  assumes "\<And>n x. f n = Some x \<Longrightarrow> g x = n"
  shows "map g (List.map_filter f xs) = filter (\<lambda>n. f n \<noteq> None) xs"
  using assms by (induction xs) (auto simp: List.map_filter_simps split: option.splits)

text \<open>C38. The versions listed for an id are exact.  Provided the names of the subjects that use the id read
  back from their qualified form, the listing succeeds and names each subject once, with the greatest
  of its versions that carries the id, and the subjects are those for which that version is live, or
  all of them when deleted ones are asked for.\<close>

theorem id_versions_exact:
  assumes "positive_u32 i = Some uid" and "locate_id r uid hint = Inr (ctx, rec)" and "names_read_back r ctx uid"
  shows "\<exists>out. id_versions_in r i hint deleted = Some (Inr out) \<and> distinct (map sbv_subject out)
    \<and> set out = {\<lparr>sbv_subject = qualify ctx s, sbv_version = v\<rparr> | s v. latest_holder r ctx uid s v
        \<and> (deleted \<or> is_some_and (rd_get_version r ctx s v) (\<lambda>vr. \<not> vr_deleted vr))}"
proof -
  define ps where "ps = sort_key (\<lambda>(s, v, ts). (ts, v, s)) (per_subject r ctx uid)"
  define names where "names = chm_order java_hash (map (\<lambda>(s, _). qualify ctx s) ps)"
  define pick where "pick = (\<lambda>name. let s = qs_subject (qs_parse name); v = fst (the (map_of ps s)) in
      if deleted \<or> is_some_and (rd_get_version r ctx s v) (\<lambda>vr. \<not> vr_deleted vr)
      then Some \<lparr>sbv_subject = name, sbv_version = v\<rparr> else None)"
  have "set names = qualify ctx ` fst ` set ps"
    by (simp add: names_def chm_order_set image_image case_prod_beta)
  then have names: "distinct names" "set names = qualify ctx ` {s. \<exists>v. holder r ctx uid s v}"
    using per_subject_sorted(2) [of r ctx uid] by (simp_all add: names_def chm_order_set ps_def)
  have reads: "qs_subject (qs_parse (qualify ctx s)) = s" if "holder r ctx uid s v" for s v
    using assms(3) that by (auto simp: names_read_back_def holder_def list_all_iff)
  note latest = per_subject_latest [where r = r and ctx = ctx and i = uid, folded ps_def]
  have all: "list_all (\<lambda>name. map_of ps (qs_subject (qs_parse name)) \<noteq> None) names"
    unfolding list_all_iff names(2) using reads latest(1,2) by fastforce
  have res: "id_versions_in r i hint deleted = Some (Inr (List.map_filter pick names))"
    using assms(1,2) all by (simp add: id_versions_in_def Let_def ps_def names_def pick_def)
  have subj: "pick n = Some x \<Longrightarrow> sbv_subject x = n" for n x by (auto simp: pick_def Let_def split: if_splits)
  then have "map sbv_subject (List.map_filter pick names) = filter (\<lambda>n. pick n \<noteq> None) names"
    by (rule map_filter_keys)
  moreover have "set (List.map_filter pick names) = {\<lparr>sbv_subject = qualify ctx s, sbv_version = v\<rparr> | s v.
      latest_holder r ctx uid s v \<and> (deleted \<or> is_some_and (rd_get_version r ctx s v) (\<lambda>vr. \<not> vr_deleted vr))}"
    (is "?L = ?R")
  proof
    show "?L \<subseteq> ?R"
    proof
      fix x assume "x \<in> ?L"
      then obtain s w where s: "holder r ctx uid s w" and x: "pick (qualify ctx s) = Some x"
        by (auto simp: set_map_filter_iff names(2))
      obtain v t where v: "map_of ps s = Some (v, t)" "latest_holder r ctx uid s v" using latest [of s] s by blast
      show "x \<in> ?R" using x v reads [OF s] by (auto simp: pick_def Let_def split: if_splits)
    qed
    show "?R \<subseteq> ?L"
    proof
      fix x assume "x \<in> ?R"
      then obtain s v where x: "x = \<lparr>sbv_subject = qualify ctx s, sbv_version = v\<rparr>" and v: "latest_holder r ctx uid s v"
        and live: "deleted \<or> is_some_and (rd_get_version r ctx s v) (\<lambda>vr. \<not> vr_deleted vr)" by blast
      have h: "holder r ctx uid s v" using v by (simp add: latest_holder_def)
      have "pick (qualify ctx s) = Some x" using latest(1) [of s v] v live reads [OF h] x by (auto simp: pick_def Let_def)
      then show "x \<in> ?L" using h by (auto simp: set_map_filter_iff names(2))
    qed
  qed
  ultimately show ?thesis using res names(1) by simp
qed

lemma sample_usages: "rd_id_usages sample_reader ''.'' 1 = [(''s'', 1)]"
  by (simp add: rd_id_usages_def sample_reader_simps usages_of_def bsearch.simps)

theorem id_versions_exact_witness:
  "\<exists>out. id_versions_in sample_reader 1 None False = Some (Inr out) \<and> \<lparr>sbv_subject = ''s'', sbv_version = 1\<rparr> \<in> set out"
proof -
  have l: "locate_id sample_reader 1 None = Inr (''.'', sample_record ''a'')"
    by (simp add: locate_id_def found_id_def Let_def DEFAULT_CONTEXT_def sample_usages sample_reader_facts)
  have n: "names_read_back sample_reader ''.'' 1"
    by (simp add: names_read_back_def sample_usages qualify_def qs_parse_def qs_new_def strip_prefix_def starts_with_def DEFAULT_CONTEXT_def)
  have "latest_holder sample_reader ''.'' 1 ''s'' 1"
    by (auto simp: latest_holder_def holder_def sample_usages sample_reader_facts)
  moreover have "qualify ''.'' ''s'' = ''s''" by (simp add: qualify_def DEFAULT_CONTEXT_def)
  ultimately show ?thesis
    using id_versions_exact [of 1 1 sample_reader None "''.''" "sample_record ''a''" False] l n
    by (force simp: positive_u32_def sample_reader_facts)
qed



end
