(* ===== verification/Mutations.thy ===== *)
theory Mutations
  imports Listings
begin

text \<open>
  The verbs (\<open>src/src/mutations\<close>) except registration and the exporters: what a mutation is (its target,
  intent, gate and plan), the view a plan reads, the rows a permanent delete removes
  (\<open>hard_delete_writes\<close> of \<open>src/src/registry/mod.rs\<close>), the deletes of subjects, versions and contexts,
  and the changes of mode and configuration.  A verb is the record of the methods of the trait
  \<open>Mutation\<close>; its constructor has the name of the struct.
\<close>

datatype target = TSubject qualified_subject | TContext string | TGlobal | TExporters

datatype gate = BeforePlan | AfterPlan

record 'o plan =
  pl_writes :: "registry_write list"
  pl_events :: "log_event list"
  pl_output :: 'o

definition plan_new :: "'o \<Rightarrow> 'o plan" where
  "plan_new out = \<lparr>pl_writes = [], pl_events = [], pl_output = out\<rparr>"

definition plan_write :: "registry_write \<Rightarrow> 'o plan \<Rightarrow> 'o plan" where
  "plan_write w p = p\<lparr>pl_writes := pl_writes p @ [w]\<rparr>"

definition plan_writes :: "registry_write list \<Rightarrow> 'o plan \<Rightarrow> 'o plan" where
  "plan_writes ws p = p\<lparr>pl_writes := pl_writes p @ ws\<rparr>"

text \<open>The registry as a verb sees it.  The time and the fresh identifier are fixed when the view is made.\<close>

record 'p read_view =
  vw_reader :: "'p reader"
  vw_now :: i64
  vw_guid :: string

definition view_new :: "'p registry \<Rightarrow> i64 \<Rightarrow> string \<Rightarrow> 'p read_view" where
  "view_new reg now guid = \<lparr>vw_reader = registry_reader reg, vw_now = now, vw_guid = guid\<rparr>"

abbreviation vw_reg :: "'p read_view \<Rightarrow> 'p registry" where
  "vw_reg v \<equiv> rd_reg (vw_reader v)"

definition view_exporter :: "'p read_view \<Rightarrow> string \<Rightarrow> exporter_record option" where
  "view_exporter v name = store_get_exporter (rg_tenant (vw_reg v)) (rg_db (vw_reg v)) name"

definition view_config :: "'p read_view \<Rightarrow> scope \<Rightarrow> config_record option" where
  "view_config v = rd_get_config (vw_reader v)"

definition stored_config :: "'p read_view \<Rightarrow> qualified_subject option \<Rightarrow> config_record option" where
  "stored_config v = config_of (vw_reader v)"

fun mode_for :: "'p read_view \<Rightarrow> target \<Rightarrow> mode" where
  "mode_for v (TSubject q) = mode_in_scope (vw_reader v) q"
| "mode_for v (TContext ctx) = mode_in_scope (vw_reader v) (qs_new ctx [])"
| "mode_for v TGlobal = global_mode_in (vw_reader v)"
| "mode_for v TExporters = global_mode_in (vw_reader v)"

fun scope_name :: "target \<Rightarrow> string" where
  "scope_name (TSubject q) = qs_qualified q"
| "scope_name (TContext ctx) = qs_qualified (qs_new ctx [])"
| "scope_name TGlobal = ''null''"
| "scope_name TExporters = ''null''"

text \<open>A verb: the methods of the trait, as functions of the view.\<close>

record ('p, 'o) mutation =
  fast_path :: "'p read_view \<Rightarrow> 'o option api_result"
  mu_target :: target
  mu_intent :: intent
  mu_gate :: gate
  mu_plan :: "'p read_view \<Rightarrow> 'o plan api_result"

definition no_fast_path :: "'p read_view \<Rightarrow> 'o option api_result" where
  "no_fast_path v = Inr None"

definition hard_delete_event :: "qualified_subject \<Rightarrow> u32 \<Rightarrow> version_record \<Rightarrow> log_event" where
  "hard_delete_event q version vr = \<lparr>ev_ctx = qs_context q, ev_subject = qs_subject q, ev_version = version,
     ev_id = vr_id vr, ev_kind = HardDelete\<rparr>"

definition still_used :: "'p reader \<Rightarrow> qualified_subject \<Rightarrow> u32 \<Rightarrow> version_record \<Rightarrow> (string \<times> u32) list \<Rightarrow> bool" where
  "still_used r q version vr also_removed =
    list_ex (\<lambda>(s, v). \<not> (s = qs_subject q \<and> (v = version \<or> (s, v) \<in> set also_removed)))
      (rd_id_usages r (qs_context q) (vr_id vr))"

definition drop_refby :: "qualified_subject \<Rightarrow> u32 \<Rightarrow> schema_reference \<Rightarrow> registry_write" where
  "drop_refby q i reference =
    (let t = ref_target (qs_context q) reference in
     WDeleteRefby (qs_context t) (qs_subject t) (ref_version_u32 reference) i)"

definition hard_delete_writes :: "'p reader \<Rightarrow> qualified_subject \<Rightarrow> u32 \<Rightarrow> version_record \<Rightarrow> (string \<times> u32) list
    \<Rightarrow> registry_write list \<times> log_event" where
  "hard_delete_writes r q version vr also_removed =
    (WDeleteVersion (qs_context q) (qs_subject q) version (vr_id vr) #
       (if still_used r q version vr also_removed then []
        else (case rd_get_schema r (qs_context q) (vr_id vr) of
            None \<Rightarrow> []
          | Some rec \<Rightarrow> map (drop_refby q (vr_id vr)) (sr_references rec) @ [WDeleteSchema (qs_context q) (vr_id vr)])),
     hard_delete_event q version vr)"

definition hard_deletes :: "'p reader \<Rightarrow> (qualified_subject \<times> u32 \<times> version_record) list \<Rightarrow> (string \<times> u32) list
    \<Rightarrow> registry_write list \<times> log_event list" where
  "hard_deletes r doomed also_removed =
    (let steps = map (\<lambda>(q, v, vr). hard_delete_writes r q v vr also_removed) doomed in
     (concat (map fst steps), map snd steps))"

section \<open>Deleting\<close>

definition soft_deleted :: "qualified_subject \<Rightarrow> u32 \<Rightarrow> version_record \<Rightarrow> registry_write" where
  "soft_deleted q v vr = WPutVersion (qs_context q) (qs_subject q) v (vr\<lparr>vr_deleted := True\<rparr>)"

definition soft_delete_event :: "qualified_subject \<Rightarrow> u32 \<Rightarrow> version_record \<Rightarrow> log_event" where
  "soft_delete_event q v vr = \<lparr>ev_ctx = qs_context q, ev_subject = qs_subject q, ev_version = v,
     ev_id = vr_id vr, ev_kind = SoftDelete\<rparr>"

definition drop_settings :: "qualified_subject \<Rightarrow> registry_write list" where
  "drop_settings q = (let scope = ScSubject (qs_context q) (qs_subject q) in [WDeleteMode scope, WDeleteConfig scope])"

definition check_deletable :: "'p reader \<Rightarrow> qualified_subject \<Rightarrow> bool \<Rightarrow> u32 \<times> version_record \<Rightarrow> unit api_result" where
  "check_deletable r q permanent = (\<lambda>(v, vr).
    and_then (check_not_referenced r q v) (\<lambda>_.
    if permanent \<and> \<not> vr_deleted vr then Inl (subject_not_soft_deleted (qs_qualified q)) else Inr ()))"

definition delete_subject_plan :: "qualified_subject \<Rightarrow> bool \<Rightarrow> 'p read_view \<Rightarrow> u32 list plan api_result" where
  "delete_subject_plan q permanent vw =
    (let r = vw_reader vw in
     if \<not> has_subjects r q True then Inl (subject_not_found (qs_qualified q))
     else if \<not> permanent \<and> \<not> has_subjects r q False then Inl (subject_soft_deleted (qs_qualified q))
     else
       let versions = filter (\<lambda>(_, v). permanent \<or> \<not> vr_deleted v) (rd_list_versions r (qs_context q) (qs_subject q)) in
       and_then (collect_ok (check_deletable r q permanent) versions) (\<lambda>_.
       let (writes, events) =
         (if permanent
          then hard_deletes r (map (\<lambda>(v, vr). (q, v, vr)) versions) (map (\<lambda>(v, _). (qs_subject q, v)) versions)
          else (map (\<lambda>(v, vr). soft_deleted q v vr) versions @ drop_settings q,
                map (\<lambda>(v, vr). soft_delete_event q v vr) versions)) in
       Inr (plan_writes writes (plan_new (map fst versions))\<lparr>pl_events := events\<rparr>)))"

definition DeleteSubject :: "string \<Rightarrow> bool \<Rightarrow> ('p, u32 list) mutation" where
  "DeleteSubject subject permanent =
    (let q = qs_parse subject in
     \<lparr>fast_path = no_fast_path, mu_target = TSubject q, mu_intent = IModify, mu_gate = AfterPlan,
      mu_plan = delete_subject_plan q permanent\<rparr>)"

definition delete_version_plan :: "qualified_subject \<Rightarrow> version_spec \<Rightarrow> bool \<Rightarrow> 'p read_view \<Rightarrow> u32 plan api_result" where
  "delete_version_plan q spec permanent vw =
    (let r = vw_reader vw; any = get_exact r q spec True in
     if any \<noteq> None \<and> \<not> permanent \<and> get_exact r q spec False = None
     then Inl (version_soft_deleted (qs_qualified q) (fst (the any)))
     else (case any of
         None \<Rightarrow> Inl (if has_subjects r q True then version_not_found (show_version_spec spec)
                       else subject_not_found (qs_qualified q))
       | Some (version, vr) \<Rightarrow>
           and_then (check_not_referenced r q version) (\<lambda>_.
           if permanent \<and> \<not> vr_deleted vr then Inl (version_not_soft_deleted (qs_qualified q) version)
           else
             let (writes, events) =
               (if permanent then hard_deletes r [(q, version, vr)] []
                else
                  let live_left = list_ex (\<lambda>(v, x). v \<noteq> version \<and> \<not> vr_deleted x)
                        (rd_list_versions r (qs_context q) (qs_subject q)) in
                  (soft_deleted q version vr # (if live_left then [] else drop_settings q),
                   [soft_delete_event q version vr])) in
             Inr (plan_writes writes (plan_new version)\<lparr>pl_events := events\<rparr>))))"

definition DeleteSubjectVersion :: "string \<Rightarrow> version_spec \<Rightarrow> bool \<Rightarrow> ('p, u32) mutation" where
  "DeleteSubjectVersion subject spec permanent =
    (let q = qs_parse subject in
     \<lparr>fast_path = no_fast_path, mu_target = TSubject q, mu_intent = IModify, mu_gate = AfterPlan,
      mu_plan = delete_version_plan q spec permanent\<rparr>)"

definition delete_context_plan :: "string \<Rightarrow> 'p read_view \<Rightarrow> unit plan api_result" where
  "delete_context_plan ctx vw =
    (if rd_list_subject_names (vw_reader vw) ctx \<noteq> [] then Inl (context_not_empty ctx)
     else Inr (plan_write (WDeleteMode (ScContext ctx)) (plan_write (WDeleteConfig (ScContext ctx))
       (plan_write (WDeleteContext ctx) (plan_new ())))))"

definition delete_context_verb :: "string \<Rightarrow> ('p, unit) mutation" where
  "delete_context_verb ctx = \<lparr>fast_path = no_fast_path, mu_target = TContext ctx, mu_intent = INotSchemaState,
     mu_gate = BeforePlan, mu_plan = delete_context_plan ctx\<rparr>"

definition DeleteContext :: "string \<Rightarrow> ('p, unit) mutation api_result" where
  "DeleteContext name =
    and_then (ok_or (normalize_context name) (invalid_subject name)) (\<lambda>ctx.
    if ctx = DEFAULT_CONTEXT \<or> ctx = WILDCARD_CONTEXT
    then Inl (operation_not_permitted ''The default context cannot be deleted'')
    else Inr (delete_context_verb ctx))"

section \<open>Settings\<close>

definition scope_of :: "qualified_subject option \<Rightarrow> scope" where
  "scope_of subject = (case subject of None \<Rightarrow> ScGlobal | Some q \<Rightarrow> scope_for q)"

definition target_of :: "qualified_subject option \<Rightarrow> target" where
  "target_of subject = (case subject of
      None \<Rightarrow> TGlobal
    | Some q \<Rightarrow> if is_context_only q then TContext (qs_context q) else TSubject q)"

definition subjects_in_scope :: "'p read_view \<Rightarrow> qualified_subject option \<Rightarrow> qualified_subject list" where
  "subjects_in_scope vw subject =
    (let r = vw_reader vw in
     case subject of
       None \<Rightarrow> concat (map (\<lambda>ctx. map (qs_new ctx) (rd_list_subject_names r ctx)) (rd_list_contexts r))
     | Some q \<Rightarrow> if is_context_only q then map (qs_new (qs_context q)) (rd_list_subject_names r (qs_context q)) else [q])"

definition doomed_versions :: "'p read_view \<Rightarrow> qualified_subject option
    \<Rightarrow> (qualified_subject \<times> u32 \<times> version_record) list api_result" where
  "doomed_versions vw subject =
    (let r = vw_reader vw in
     collect_ok (\<lambda>(sq, v, vr). map_ok (\<lambda>_. (sq, v, vr)) (check_not_referenced r sq v))
       (concat (map (\<lambda>sq. map (\<lambda>(v, vr). (sq, v, vr)) (rd_list_versions r (qs_context sq) (qs_subject sq)))
         (subjects_in_scope vw subject))))"

definition set_mode_plan :: "qualified_subject option \<Rightarrow> mode \<Rightarrow> bool \<Rightarrow> 'p read_view \<Rightarrow> unit plan api_result" where
  "set_mode_plan subject mode force vw =
    (let r = vw_reader vw; current = mode_for vw (target_of subject) in
     map_ok (\<lambda>(writes, events). plan_writes (writes @ [WPutMode (scope_of subject) mode]) (plan_new ())\<lparr>pl_events := events\<rparr>)
       (if mode = Import \<and> current \<noteq> Import \<and> \<not> force
        then
          if (case subject of Some q \<Rightarrow> has_subjects r q False | None \<Rightarrow> has_any_subject r False)
          then Inl (operation_not_permitted ''Cannot import since found existing subjects'')
          else map_ok (\<lambda>doomed. hard_deletes r doomed (map (\<lambda>(q, v, _). (qs_subject q, v)) doomed)) (doomed_versions vw subject)
        else Inr ([], [])))"

definition SetMode :: "string option \<Rightarrow> mode \<Rightarrow> bool \<Rightarrow> ('p, unit) mutation" where
  "SetMode subject mode force =
    (let s = map_option qs_parse subject in
     \<lparr>fast_path = no_fast_path, mu_target = target_of s, mu_intent = ISetMode, mu_gate = BeforePlan,
      mu_plan = set_mode_plan s mode force\<rparr>)"

definition delete_mode_plan :: "qualified_subject \<Rightarrow> 'p read_view \<Rightarrow> mode plan api_result" where
  "delete_mode_plan q vw =
    and_then (ok_or (mode_of_scope (vw_reader vw) (Some q)) (subject_not_found (qs_qualified q))) (\<lambda>previous.
    Inr (plan_write (WDeleteMode (scope_for q)) (plan_new previous)))"

definition DeleteMode :: "string \<Rightarrow> ('p, mode) mutation" where
  "DeleteMode subject =
    (let q = qs_parse subject in
     \<lparr>fast_path = no_fast_path, mu_target = target_of (Some q), mu_intent = ISetMode, mu_gate = AfterPlan,
      mu_plan = delete_mode_plan q\<rparr>)"

definition update_compatibility_plan :: "qualified_subject option \<Rightarrow> config_record \<Rightarrow> 'p read_view \<Rightarrow> unit plan api_result" where
  "update_compatibility_plan subject update vw =
    (let scope = scope_of subject;
         merged = merged_with (unwrap_or (view_config vw scope) config_default) update in
     Inr (plan_write (WPutConfig scope merged) (plan_new ())))"

definition UpdateCompatibility :: "string option \<Rightarrow> config_record \<Rightarrow> ('p, unit) mutation" where
  "UpdateCompatibility subject update =
    (let s = map_option qs_parse subject in
     \<lparr>fast_path = no_fast_path, mu_target = target_of s, mu_intent = IModify, mu_gate = BeforePlan,
      mu_plan = update_compatibility_plan s update\<rparr>)"

definition delete_config_plan :: "qualified_subject option \<Rightarrow> 'p read_view \<Rightarrow> config_record plan api_result" where
  "delete_config_plan subject vw =
    and_then (case subject of
        None \<Rightarrow> ok_or (stored_config vw None) panicked
      | Some q \<Rightarrow> ok_or (stored_config vw (Some q)) (subject_not_found (qs_qualified q))) (\<lambda>previous.
    Inr (plan_write (WDeleteConfig (scope_of subject)) (plan_new previous)))"

definition DeleteSubjectConfig :: "string option \<Rightarrow> ('p, config_record) mutation" where
  "DeleteSubjectConfig subject =
    (let s = map_option qs_parse subject in
     \<lparr>fast_path = no_fast_path, mu_target = target_of s, mu_intent = IModify, mu_gate = AfterPlan,
      mu_plan = delete_config_plan s\<rparr>)"

end
