(* ===== verification/Register.thy ===== *)
theory Register
  imports Mutations
begin

text \<open>
  Registering a schema (\<open>src/src/mutations/register_schema.rs\<close>, and \<open>register_fast_path\<close> of
  \<open>src/src/registry/mod.rs\<close>): the answer that needs no lock, and the plan, stage by stage as the source
  has it - content already stored, content of a version of the subject, compatibility, the version
  number, the id, the versions replaced and the rows written.  \<open>as u32\<close> and \<open>as i32\<close> casts are the
  conversions of words, so an id beyond the signed range turns negative as it does in the source.
\<close>

definition register_fast_path :: "'p formats \<Rightarrow> 'p reader \<Rightarrow> qualified_subject \<Rightarrow> draft \<Rightarrow> bool \<Rightarrow> register_response option api_result" where
  "register_fast_path F r q d norm =
    (if has_defaults_or_overrides (config_in_scope r q) then Inr None
     else
       let is_latest = (dr_version d = -1) in
       and_then (lookup_under_subject F r q d norm False is_latest) (\<lambda>found.
       case found of
         None \<Rightarrow> Inr None
       | Some existing \<Rightarrow>
           if dr_version d = 0 \<or> is_latest
           then Inr (if dr_id d < 0 \<or> of_int (dr_id d) = en_id existing then Some (response_id (en_id existing)) else None)
           else if dr_id d \<ge> 0 \<and> en_id existing = of_int (dr_id d)
           then
             if dr_version d > 0 \<and> en_version existing = of_int (dr_version d) then Inr (Some (response_full existing))
             else if dr_version d > 0
             then (case get_exact r q (VExact (of_int (dr_version d))) False of
                 None \<Rightarrow> Inr None
               | Some (v, vr) \<Rightarrow> map_ok (\<lambda>older.
                     if en_id older = en_id existing \<and> entity_fingerprint F older = entity_fingerprint F existing
                     then Some (response_full older) else None) (entity_of r q v vr))
             else Inr None
           else Inr None))"

definition register_normalize :: "'p reader \<Rightarrow> qualified_subject \<Rightarrow> bool \<Rightarrow> bool" where
  "register_normalize r q requested = (requested \<or> normalize_in_scope r q)"

definition answer :: "bool \<Rightarrow> entity \<Rightarrow> register_response" where
  "answer modified e = (if modified then response_full e else response_id (en_id e))"

text \<open>Whether the content is already stored: an answer, or the id to register under (negative for none).\<close>

definition by_hash :: "'p formats \<Rightarrow> 'p reader \<Rightarrow> qualified_subject \<Rightarrow> draft \<Rightarrow> 'p canon option \<Rightarrow> entity + i32" where
  "by_hash F r q d canon = (case canon of
      None \<Rightarrow> Inr (dr_id d)
    | Some c \<Rightarrow> (case hash_lookup F r q c of
        None \<Rightarrow> Inr (dr_id d)
      | Some (i, sv) \<Rightarrow>
          if dr_id d < 0 \<or> of_int (dr_id d) = i
          then (case sv of
              Some (v, vr) \<Rightarrow> if dr_version d = 0 \<and> \<not> vr_deleted vr then Inl (entity_from_canon q v i c) else Inr (u32_as_i32 i)
            | None \<Rightarrow> Inr (u32_as_i32 i))
          else Inr (dr_id d)))"

fun by_version :: "'p reader \<Rightarrow> qualified_subject \<Rightarrow> 'p canon \<Rightarrow> i32 \<Rightarrow> (u32 \<times> version_record) list \<Rightarrow> entity option api_result" where
  "by_version r q c schema_id [] = Inr None"
| "by_version r q c schema_id ((v, vr) # vs) =
    (if schema_id \<ge> 0 \<and> of_int schema_id \<noteq> vr_id vr then by_version r q c schema_id vs
     else and_then (entity_of r q v vr) (\<lambda>e.
       if can_lookup c e then Inr (Some (entity_from_canon q v (vr_id vr) c)) else by_version r q c schema_id vs))"

definition next_version :: "(u32 \<times> version_record) list \<Rightarrow> u32" where
  "next_version versions = (case list_max (map fst versions) of None \<Rightarrow> 1 | Some m \<Rightarrow> m + 1)"

definition check_register :: "'p formats \<Rightarrow> 'p reader \<Rightarrow> qualified_subject \<Rightarrow> config_record \<Rightarrow> bool \<Rightarrow> 'p canon \<Rightarrow> unit api_result" where
  "check_register F r q cfg import c =
    (if import then Inr ()
     else
       let level = unwrap_or (cf_compatibility_level cfg) (rg_default_compatibility (rd_reg r)) in
       and_then (compat_candidates r q cfg (cn_metadata c)) (\<lambda>olds.
       and_then (check_compatibility F r (qs_context q) (cn_parsed c) olds level cfg) (\<lambda>msgs.
       if msgs \<noteq> [] then Inl (incompatible (qs_qualified q) msgs) else Inr ())))"

definition choose_version :: "draft \<Rightarrow> bool \<Rightarrow> u32 \<Rightarrow> u32 api_result" where
  "choose_version d import new_version =
    (if dr_version d \<le> 0 then Inr new_version
     else if new_version \<noteq> of_int (dr_version d) \<and> \<not> import
     then Inl (api_error_new 42201 ''Version is not one more than previous version'')
     else Inr (of_int (dr_version d)))"

definition choose_id :: "'p reader \<Rightarrow> qualified_subject \<Rightarrow> string \<Rightarrow> i32 \<Rightarrow> u32 api_result" where
  "choose_id r q fp schema_id =
    (if schema_id \<ge> 0
     then
       let i = of_int schema_id in
       if rd_id_usages r (qs_context q) i \<noteq> []
         \<and> is_some_and (rd_get_schema r (qs_context q) i) (\<lambda>existing. sr_fingerprint existing \<noteq> fp)
       then Inl (operation_not_permitted (''Overwrite new schema with id '' @ show_u32 i @ '' is not permitted.''))
       else Inr i
     else Inr (rd_next_id r (qs_context q)))"

definition stored_record :: "'p formats \<Rightarrow> 'p read_view \<Rightarrow> qualified_subject \<Rightarrow> 'p canon \<Rightarrow> u32 \<Rightarrow> schema_record" where
  "stored_record F vw q c i =
    (let fresh = \<lparr>sr_type = cn_schema_type c, sr_schema = cn_text c, sr_references = cn_refs c, sr_metadata = cn_metadata c,
           sr_rule_set = cn_rule_set c, sr_fingerprint = canon_fingerprint F c,
           sr_schema_fingerprint = fingerprint F (cn_schema_type c) (ps_normalized (cn_parsed c)) (cn_refs c) None None,
           sr_guid = vw_guid vw\<rparr> in
     case rd_get_schema (vw_reader vw) (qs_context q) i of
       Some existing \<Rightarrow> if sr_fingerprint existing = canon_fingerprint F c then existing else fresh
     | None \<Rightarrow> fresh)"

text \<open>The versions a registration removes: the one whose number it takes, and older deleted ones with its id.\<close>

definition replaced :: "qualified_subject \<Rightarrow> u32 \<Rightarrow> (u32 \<times> version_record) list \<Rightarrow> (qualified_subject \<times> u32 \<times> version_record) list" where
  "replaced q version versions = (case find (\<lambda>(v, _). v = version) versions of
      None \<Rightarrow> [] | Some (_, old) \<Rightarrow> [(q, version, old)])"

definition stale :: "qualified_subject \<Rightarrow> u32 \<Rightarrow> u32 \<Rightarrow> (u32 \<times> version_record) list \<Rightarrow> (qualified_subject \<times> u32 \<times> version_record) list" where
  "stale q version i versions =
    map (\<lambda>(v, vr). (q, v, vr)) (filter (\<lambda>(v, vr). vr_deleted vr \<and> vr_id vr = i \<and> v < version) versions)"

definition store_plan :: "'p formats \<Rightarrow> 'p read_view \<Rightarrow> qualified_subject \<Rightarrow> bool \<Rightarrow> 'p canon \<Rightarrow> u32 \<Rightarrow> u32
    \<Rightarrow> (u32 \<times> version_record) list \<Rightarrow> register_response plan" where
  "store_plan F vw q modified c version i versions =
    (let r = vw_reader vw;
         (ws1, evs1) = hard_deletes r (replaced q version versions) [];
         gone = stale q version i versions;
         (ws2, evs2) = hard_deletes r gone (map (\<lambda>(_, v, _). (qs_subject q, v)) gone);
         writes = ws1 @ ws2 @ [WPutSchema (qs_context q) i (stored_record F vw q c i) True]
           @ (if i \<ge> rd_next_id r (qs_context q) then [WSetNextId (qs_context q) (i + 1)] else [])
           @ [WPutVersion (qs_context q) (qs_subject q) version \<lparr>vr_id = i, vr_deleted = False, vr_ts = vw_now vw\<rparr>]
           @ map (\<lambda>(t, v). WPutRefby (qs_context t) (qs_subject t) v i) (cn_targets c);
         events = evs1 @ evs2 @ [\<lparr>ev_ctx = qs_context q, ev_subject = qs_subject q, ev_version = version, ev_id = i, ev_kind = Register\<rparr>]
     in plan_writes writes (plan_new (answer modified (entity_from_canon q version i c)))\<lparr>pl_events := events\<rparr>)"

text \<open>The plan for content the subject does not have, and the plan for a canonical request.\<close>

definition register_new :: "'p formats \<Rightarrow> 'p read_view \<Rightarrow> qualified_subject \<Rightarrow> draft \<Rightarrow> bool \<Rightarrow> 'p canon option \<Rightarrow> i32
    \<Rightarrow> register_response plan api_result" where
  "register_new F vw q d modified canon schema_id =
    (let r = vw_reader vw;
         import = (mode_for vw (TSubject q) = Import);
         versions = rd_list_versions r (qs_context q) (qs_subject q) in
     and_then (ok_or canon (api_error_new 42201 ''Empty schema'')) (\<lambda>c.
     and_then (check_register F r q (config_in_scope r q) import c) (\<lambda>_.
     and_then (choose_version d import (next_version versions)) (\<lambda>version.
     and_then (choose_id r q (canon_fingerprint F c) schema_id) (\<lambda>i.
     Inr (store_plan F vw q modified c version i versions))))))"

definition register_canonical :: "'p formats \<Rightarrow> 'p read_view \<Rightarrow> qualified_subject \<Rightarrow> draft \<Rightarrow> bool \<Rightarrow> 'p canon option
    \<Rightarrow> register_response plan api_result" where
  "register_canonical F vw q d modified canon =
    (let r = vw_reader vw;
         undeleted = filter (\<lambda>(_, v). \<not> vr_deleted v) (rev (rd_list_versions r (qs_context q) (qs_subject q))) in
     case by_hash F r q d canon of
       Inl e \<Rightarrow> Inr (plan_new (answer modified e))
     | Inr schema_id \<Rightarrow>
         and_then (case canon of
             Some c \<Rightarrow> if dr_version d = 0 then by_version r q c schema_id undeleted else Inr None
           | None \<Rightarrow> Inr None) (\<lambda>known.
         case known of
           Some e \<Rightarrow> Inr (plan_new (answer modified e))
         | None \<Rightarrow> register_new F vw q d modified canon schema_id))"

definition register_plan :: "'p formats \<Rightarrow> qualified_subject \<Rightarrow> draft \<Rightarrow> bool \<Rightarrow> 'p read_view \<Rightarrow> register_response plan api_result" where
  "register_plan F q draft norm_requested vw =
    (let r = vw_reader vw;
         norm = register_normalize r q norm_requested;
         import = (mode_for vw (TSubject q) = Import);
         versions = rd_list_versions r (qs_context q) (qs_subject q);
         undeleted = filter (\<lambda>(_, v). \<not> vr_deleted v) (rev versions) in
     and_then (if import then Inr (draft, False)
               else populate_from_previous r q (config_in_scope r q) draft
                 (case undeleted of [] \<Rightarrow> None | x # _ \<Rightarrow> Some x) (next_version versions)) (\<lambda>(d, modified).
     and_then (canonicalize F r q d (dr_id d < 0) norm) (\<lambda>canon.
     register_canonical F vw q d modified canon)))"

definition register_verb :: "'p formats \<Rightarrow> qualified_subject \<Rightarrow> draft \<Rightarrow> bool \<Rightarrow> ('p, register_response) mutation" where
  "register_verb F q d norm =
    \<lparr>fast_path = (\<lambda>vw. register_fast_path F (vw_reader vw) q d (register_normalize (vw_reader vw) q norm)),
     mu_target = TSubject q, mu_intent = (if dr_id d \<ge> 0 then IImport else IWrite), mu_gate = BeforePlan,
     mu_plan = register_plan F q d norm\<rparr>"

definition RegisterSchema :: "'p formats \<Rightarrow> string \<Rightarrow> register_request \<Rightarrow> bool \<Rightarrow> ('p, register_response) mutation api_result" where
  "RegisterSchema F subject req norm =
    (if \<not> is_valid_subject subject then Inl (invalid_subject subject)
     else
       let q = qs_parse subject; d = draft_from req in
       Inr (register_verb F q d norm))"

end
