(* ===== verification/Exporters.thy ===== *)
theory Exporters
  imports Mutations
begin

text \<open>
  Exporter records (\<open>src/src/mutations/exporters.rs\<close>, and the worker's bookkeeping in
  \<open>src/src/registry/mod.rs\<close>): validation of a configuration, the verbs that create, restore, update,
  delete, pause, resume and reset an exporter, and the update the worker writes after an attempt.
\<close>

definition valid_exporter_name :: "string \<Rightarrow> bool" where
  "valid_exporter_name name \<longleftrightarrow> name \<noteq> [] \<and> length name \<le> 256 \<and> list_all context_char name"

definition add_context :: "string \<Rightarrow> string list \<Rightarrow> string list" where
  "add_context ctx seen = (if ctx \<in> set seen then seen else seen @ [ctx])"

definition wildcard_refused :: "exporter_info \<Rightarrow> api_error" where
  "wildcard_refused info = invalid_exporter (''Exporter '' @ quoted (ei_name info) @ '' with contextType '' @ ei_context_type info @
     '' cannot use the context wildcard '' @ quoted '':*:'' @ '': ids are per context and could not be preserved in '' @
     quoted (unwrap_or (ei_context info) DEFAULT_CONTEXT))"

fun pattern_contexts :: "exporter_info \<Rightarrow> string list \<Rightarrow> string list \<Rightarrow> string list api_result" where
  "pattern_contexts info [] seen = Inr seen"
| "pattern_contexts info (p # ps) seen =
    (let q = qs_parse p in
     if is_wildcard q then Inl (wildcard_refused info) else pattern_contexts info ps (add_context (qs_context q) seen))"

definition check_context_type :: "exporter_info \<Rightarrow> unit api_result" where
  "check_context_type info =
    (let ty = ei_context_type info in
     if ty = ''AUTO'' \<or> ty = ''NONE'' \<or> ty = ''DEFAULT'' then Inr ()
     else if ty = ''CUSTOM''
     then (if (case ei_context info of None \<Rightarrow> True | Some c \<Rightarrow> normalize_context c = None)
           then Inl (invalid_exporter (''Context type CUSTOM requires a valid '' @ quoted ''context'')) else Inr ())
     else Inl (invalid_exporter (''Invalid context type '' @ quoted ty)))"

definition check_one_context :: "exporter_info \<Rightarrow> unit api_result" where
  "check_one_context info =
    (if ei_context_type info = ''CUSTOM'' \<or> ei_context_type info = ''DEFAULT''
     then and_then (pattern_contexts info (ei_subjects info) []) (\<lambda>seen.
       if length seen > 1
       then Inl (invalid_exporter (''Exporter '' @ quoted (ei_name info) @ '' with contextType '' @ ei_context_type info @
         '' would merge contexts '' @ join '', '' seen @
         '' into one destination context; ids are per context and could not be preserved''))
       else Inr ())
     else Inr ())"

definition exporter_url :: "exporter_info \<Rightarrow> string option" where
  "exporter_url info = Option.bind (map_of (ei_config info) ''schema.registry.url'') as_str"

definition exporter_validate :: "exporter_info \<Rightarrow> unit api_result" where
  "exporter_validate info =
    (if \<not> valid_exporter_name (ei_name info) then Inl (invalid_exporter (''Invalid exporter name '' @ quoted (ei_name info)))
     else and_then (check_context_type info) (\<lambda>_.
       if \<not> is_some_and (exporter_url info) (\<lambda>s. s \<noteq> [])
       then Inl (invalid_exporter (''Missing required config '' @ quoted ''schema.registry.url''))
       else if ei_subjects info = [] then Inl (invalid_exporter (''Exporter '' @ quoted ''subjects'' @ '' must not be empty''))
       else check_one_context info))"

definition exporter_plan :: "exporter_record \<Rightarrow> string plan" where
  "exporter_plan rec = plan_write (WPutExporter rec) (plan_new (ei_name (er_info rec)))"

definition restore_exporter_plan :: "exporter_record \<Rightarrow> 'p read_view \<Rightarrow> bool plan api_result" where
  "restore_exporter_plan rec vw =
    (if view_exporter vw (ei_name (er_info rec)) \<noteq> None then Inr (plan_new False)
     else map_ok (\<lambda>_. plan_write (WPutExporter rec) (plan_new True)) (exporter_validate (er_info rec)))"

definition RestoreExporter :: "exporter_record \<Rightarrow> ('p, bool) mutation" where
  "RestoreExporter rec = \<lparr>fast_path = no_fast_path, mu_target = TExporters, mu_intent = INotSchemaState,
     mu_gate = BeforePlan, mu_plan = restore_exporter_plan rec\<rparr>"

definition exporter_info_new :: "exporter_update_request \<Rightarrow> exporter_info" where
  "exporter_info_new req = \<lparr>ei_name = unwrap_or (eu_name req) [], ei_subjects = unwrap_or (eu_subjects req) [''*''],
     ei_context_type = unwrap_or (map_option to_ascii_uppercase (eu_context_type req)) ''AUTO'',
     ei_context = eu_context req, ei_subject_rename_format = eu_subject_rename_format req,
     ei_config = unwrap_or (eu_config req) []\<rparr>"

definition create_exporter_plan :: "exporter_update_request \<Rightarrow> 'p read_view \<Rightarrow> string plan api_result" where
  "create_exporter_plan req vw =
    (let info = exporter_info_new req in
     if view_exporter vw (ei_name info) \<noteq> None then Inl (exporter_exists (ei_name info))
     else map_ok (\<lambda>_. exporter_plan \<lparr>er_info = info, er_state = Running, er_offset = 0, er_ts = vw_now vw, er_trace = []\<rparr>)
       (exporter_validate info))"

definition exporter_verb :: "('p read_view \<Rightarrow> 'o plan api_result) \<Rightarrow> ('p, 'o) mutation" where
  "exporter_verb plan = \<lparr>fast_path = no_fast_path, mu_target = TExporters, mu_intent = INotSchemaState,
     mu_gate = AfterPlan, mu_plan = plan\<rparr>"

definition CreateExporter :: "exporter_update_request \<Rightarrow> ('p, string) mutation" where
  "CreateExporter req = exporter_verb (create_exporter_plan req)"

definition exporter_info_update :: "exporter_update_request \<Rightarrow> exporter_info \<Rightarrow> exporter_info" where
  "exporter_info_update req info = info
     \<lparr>ei_subjects := unwrap_or (eu_subjects req) (ei_subjects info),
      ei_context_type := unwrap_or (map_option to_ascii_uppercase (eu_context_type req)) (ei_context_type info),
      ei_context := opt_or (eu_context req) (ei_context info),
      ei_subject_rename_format := opt_or (eu_subject_rename_format req) (ei_subject_rename_format info),
      ei_config := (case eu_config req of None \<Rightarrow> ei_config info | Some cfg \<Rightarrow> map_extend (ei_config info) cfg)\<rparr>"

definition update_exporter_plan :: "string \<Rightarrow> exporter_update_request \<Rightarrow> 'p read_view \<Rightarrow> string plan api_result" where
  "update_exporter_plan name req vw =
    and_then (ok_or (view_exporter vw name) (exporter_not_found name)) (\<lambda>rec.
    let info = exporter_info_update req (er_info rec) in
    map_ok (\<lambda>_. exporter_plan (rec\<lparr>er_info := info, er_ts := vw_now vw\<rparr>)) (exporter_validate info))"

definition UpdateExporter :: "string \<Rightarrow> exporter_update_request \<Rightarrow> ('p, string) mutation" where
  "UpdateExporter name req = exporter_verb (update_exporter_plan name req)"

definition config_only :: "string \<Rightarrow> (string \<times> json) list \<Rightarrow> ('p, string) mutation" where
  "config_only name cfg = UpdateExporter name \<lparr>eu_name = None, eu_subjects = None, eu_context_type = None, eu_context = None,
     eu_subject_rename_format = None, eu_config = Some cfg\<rparr>"

definition delete_exporter_plan :: "string \<Rightarrow> 'p read_view \<Rightarrow> unit plan api_result" where
  "delete_exporter_plan name vw =
    map_ok (\<lambda>_. plan_write (WDeleteExporter name) (plan_new ())) (ok_or (view_exporter vw name) (exporter_not_found name))"

definition DeleteExporter :: "string \<Rightarrow> ('p, unit) mutation" where
  "DeleteExporter name = exporter_verb (delete_exporter_plan name)"

definition transition :: "string \<Rightarrow> string \<Rightarrow> exporter_record \<Rightarrow> exporter_record api_result" where
  "transition name action rec =
    (if action = ''pause'' then Inr (rec\<lparr>er_state := Paused\<rparr>)
     else if action = ''resume''
     then (if er_state rec = Failed
           then Inl (operation_not_permitted (''Exporter '' @ name @
             '' has failed and cannot be resumed; reset it to start over. Last error: '' @ er_trace rec))
           else Inr (rec\<lparr>er_state := Running, er_trace := []\<rparr>))
     else if action = ''reset''
     then Inr (rec\<lparr>er_offset := 0, er_trace := [], er_state := (if er_state rec \<noteq> Paused then Running else Paused)\<rparr>)
     else Inl (unprocessable (''unknown action '' @ action)))"

definition transition_plan :: "string \<Rightarrow> string \<Rightarrow> 'p read_view \<Rightarrow> string plan api_result" where
  "transition_plan name action vw =
    and_then (ok_or (view_exporter vw name) (exporter_not_found name)) (\<lambda>rec.
    map_ok (\<lambda>rec. exporter_plan (rec\<lparr>er_ts := vw_now vw\<rparr>)) (transition name action rec))"

definition TransitionExporter :: "string \<Rightarrow> string \<Rightarrow> ('p, string) mutation" where
  "TransitionExporter name action = exporter_verb (transition_plan name action)"

text \<open>The worker's bookkeeping, outside the engine.\<close>

definition worker_update :: "i64 \<Rightarrow> u64 \<Rightarrow> u64 \<Rightarrow> exporter_state \<Rightarrow> string option \<Rightarrow> exporter_record \<Rightarrow> exporter_record option" where
  "worker_update now expected_offset new_offset state trace rec =
    (if er_offset rec \<noteq> expected_offset \<or> er_state rec \<in> {Paused, Failed} then None
     else Some (rec\<lparr>er_offset := new_offset, er_ts := now, er_state := state, er_trace := unwrap_or trace []\<rparr>))"

definition set_exporter_state :: "i64 \<Rightarrow> string \<Rightarrow> u64 \<Rightarrow> u64 \<Rightarrow> exporter_state \<Rightarrow> string option \<Rightarrow> 'p registry \<Rightarrow> 'p registry" where
  "set_exporter_state now name expected_offset new_offset state trace reg =
    (case Option.bind (store_get_exporter (rg_tenant reg) (rg_db reg) name)
        (worker_update now expected_offset new_offset state trace) of
       None \<Rightarrow> reg
     | Some rec \<Rightarrow> reg\<lparr>rg_db := store_put_exporter (rg_tenant reg) rec Allowed (rg_db reg)\<rparr>)"

definition exporter_progress :: "i64 \<Rightarrow> string \<Rightarrow> u64 \<Rightarrow> u64 \<Rightarrow> string option \<Rightarrow> 'p registry \<Rightarrow> 'p registry" where
  "exporter_progress now name expected_offset new_offset err reg =
    set_exporter_state now name expected_offset new_offset (if err \<noteq> None then Error else Running) err reg"

definition get_exporter :: "'p registry \<Rightarrow> string \<Rightarrow> exporter_record api_result" where
  "get_exporter reg name = ok_or (store_get_exporter (rg_tenant reg) (rg_db reg) name) (exporter_not_found name)"

definition list_exporters :: "'p registry \<Rightarrow> string list" where
  "list_exporters reg = map (\<lambda>e. ei_name (er_info e)) (store_list_exporters (rg_tenant reg) (rg_db reg))"

end
