(* ===== verification/Engine.thy ===== *)
theory Engine
  imports Register Exporters
begin

text \<open>
  The engine (\<open>src/src/engine.rs\<close>): the one path a change takes - lock-free answer, mode check before or
  after the plan, plan, one batch, publication of the next snapshot.  Metrics and logging are not
  modelled.
\<close>

section \<open>The engine\<close>

definition engine_apply :: "'p registry \<Rightarrow> 'o plan \<Rightarrow> allowed \<Rightarrow> ('p registry \<times> 'o) api_result" where
  "engine_apply reg plan a =
    map_ok (\<lambda>x. (registry_commit (apply_tx a (pl_writes plan) (pl_events plan) x) (length (pl_events plan)) reg, pl_output plan))
      (ok_or (store_tx (rg_tenant reg) (rg_db reg)) panicked)"

text \<open>The part under the lock, and the whole: the lock-free view is made before the lock is taken, so it may
  be of an earlier state than the one the plan sees.\<close>

definition run_locked :: "'p registry \<Rightarrow> ('p, 'o) mutation \<Rightarrow> i64 \<Rightarrow> string \<Rightarrow> ('p registry \<times> 'o) api_result" where
  "run_locked reg m now guid =
    (let vw = view_new reg now guid;
         target = mu_target m;
         mode = mode_for vw target;
         gate = gate_check (mu_intent m) mode (scope_name target) in
     case mu_gate m of
       BeforePlan \<Rightarrow> and_then gate (\<lambda>a. and_then (mu_plan m vw) (\<lambda>plan. engine_apply reg plan a))
     | AfterPlan \<Rightarrow> and_then (mu_plan m vw) (\<lambda>plan. and_then gate (\<lambda>a. engine_apply reg plan a)))"

definition run_inner :: "'p read_view \<Rightarrow> 'p registry \<Rightarrow> ('p, 'o) mutation \<Rightarrow> i64 \<Rightarrow> string \<Rightarrow> ('p registry \<times> 'o) api_result" where
  "run_inner early reg m now guid =
    and_then (fast_path m early) (\<lambda>answered.
    case answered of
      Some out \<Rightarrow> Inr (reg, out)
    | None \<Rightarrow> run_locked reg m now guid)"

end
