(* ===== verification/Contents.thy ===== *)
theory Contents
  imports Engine
begin

text \<open>
  An abstract view of one container: maps for versions, bodies, id counters, fingerprints, reference
  edges, settings and exporters, and what each \<open>Write\<close> means for them.  The engine's batch, the
  snapshot operations and the body cache together refine it: applying a plan to a sound registry
  gives exactly the contents that its writes describe, and leaves rows, snapshot and cache in
  agreement.  The theory also states what well-formed contents are - every version has its body, ids
  in use are below the counter, names can stand in keys - and what lists of deletions do to them.
\<close>

record contents =
  ct_version :: "string \<times> string \<times> u32 \<Rightarrow> version_record option"
  ct_body :: "string \<times> u32 \<Rightarrow> schema_record option"
  ct_next :: "string \<Rightarrow> u32 option"
  ct_fp :: "string \<times> string \<Rightarrow> u32 option"
  ct_refby :: "string \<times> string \<times> u32 \<Rightarrow> u32 set"
  ct_config :: "scope \<Rightarrow> config_record option"
  ct_mode :: "scope \<Rightarrow> mode option"
  ct_exporter :: "string \<Rightarrow> exporter_record option"

definition contents_of :: "tenant_id \<Rightarrow> db \<Rightarrow> snapshot \<Rightarrow> contents" where
  "contents_of t d s =
    \<lparr>ct_version = (\<lambda>(c, u, v). snap_get_version s c u v),
     ct_body = (\<lambda>(c, i). store_get_schema t d c i),
     ct_next = (\<lambda>c. cs_next_id (ctx_state_of s c)),
     ct_fp = (\<lambda>(c, f). snap_id_for_fingerprint s c f),
     ct_refby = (\<lambda>(c, u, v). set (snap_referenced_by s c u v)),
     ct_config = snap_get_config s,
     ct_mode = snap_get_mode s,
     ct_exporter = store_get_exporter t d\<rparr>"

definition registry_contents :: "'p registry \<Rightarrow> contents" where
  "registry_contents reg = contents_of (rg_tenant reg) (rg_db reg) (rg_snapshot reg)"

fun spec_write :: "registry_write \<Rightarrow> contents \<Rightarrow> contents" where
  "spec_write (WPutSchema c i rec index) a =
    a\<lparr>ct_body := (ct_body a)((c, i) \<mapsto> rec),
      ct_fp := (if index then (ct_fp a)((c, sr_fingerprint rec) \<mapsto> i) else ct_fp a)\<rparr>"
| "spec_write (WPutVersion c u v vr) a = a\<lparr>ct_version := (ct_version a)((c, u, v) \<mapsto> vr)\<rparr>"
| "spec_write (WDeleteVersion c u v i) a = a\<lparr>ct_version := (ct_version a)((c, u, v) := None)\<rparr>"
| "spec_write (WDeleteSchema c i) a = a\<lparr>ct_body := (ct_body a)((c, i) := None)\<rparr>"
| "spec_write (WPutRefby c u v i) a = a\<lparr>ct_refby := (ct_refby a)((c, u, v) := insert i (ct_refby a (c, u, v)))\<rparr>"
| "spec_write (WDeleteRefby c u v i) a = a\<lparr>ct_refby := (ct_refby a)((c, u, v) := ct_refby a (c, u, v) - {i})\<rparr>"
| "spec_write (WSetNextId c n) a = a\<lparr>ct_next := (ct_next a)(c \<mapsto> n)\<rparr>"
| "spec_write (WPutConfig sc rec) a = a\<lparr>ct_config := (ct_config a)(sc \<mapsto> rec)\<rparr>"
| "spec_write (WDeleteConfig sc) a = a\<lparr>ct_config := (ct_config a)(sc := None)\<rparr>"
| "spec_write (WPutMode sc m) a = a\<lparr>ct_mode := (ct_mode a)(sc \<mapsto> m)\<rparr>"
| "spec_write (WDeleteMode sc) a = a\<lparr>ct_mode := (ct_mode a)(sc := None)\<rparr>"
| "spec_write (WDeleteContext c) a = a"
| "spec_write (WPutExporter rec) a = a\<lparr>ct_exporter := (ct_exporter a)(ei_name (er_info rec) \<mapsto> rec)\<rparr>"
| "spec_write (WDeleteExporter name) a = a\<lparr>ct_exporter := (ct_exporter a)(name := None)\<rparr>"

definition spec_writes :: "registry_write list \<Rightarrow> contents \<Rightarrow> contents" where
  "spec_writes ws a = fold spec_write ws a"

section \<open>A plan\<close>

text \<open>The body cache never disagrees with the rows.\<close>

definition bodies_ok :: "'p registry \<Rightarrow> bool" where
  "bodies_ok reg \<longleftrightarrow> rg_bodies reg \<subseteq>\<^sub>m ct_body (registry_contents reg)"

definition registry_sound :: "'p registry \<Rightarrow> bool" where
  "registry_sound reg \<longleftrightarrow> at_rest (rg_tenant reg) (rg_db reg) (rg_snapshot reg) \<and> bodies_ok reg"

fun write_ok_at :: "registry_write \<Rightarrow> contents \<Rightarrow> bool" where
  "write_ok_at (WDeleteVersion c u v i) a = (case ct_version a (c, u, v) of None \<Rightarrow> True | Some vr \<Rightarrow> vr_id vr = i)"
| "write_ok_at (WDeleteContext c) a = (\<forall>u v. ct_version a (c, u, v) = None)"
| "write_ok_at _ a = True"

fun spec_ok :: "registry_write list \<Rightarrow> contents \<Rightarrow> bool" where
  "spec_ok [] a = True"
| "spec_ok (w # ws) a = (write_ok_at w a \<and> spec_ok ws (spec_write w a))"

text \<open>Names in the references of a stored schema can stand in a key.\<close>

definition qs_named :: "qualified_subject \<Rightarrow> bool" where
  "qs_named q \<longleftrightarrow> nul_free (qs_context q) \<and> nul_free (qs_subject q)"

definition refs_named :: "string \<Rightarrow> schema_record \<Rightarrow> bool" where
  "refs_named c rec = list_all (\<lambda>sr. qs_named (ref_target c sr)) (sr_references rec)"

definition contents_ok :: "contents \<Rightarrow> bool" where
  "contents_ok a \<longleftrightarrow>
     (\<forall>c u v vr. ct_version a (c, u, v) = Some vr \<longrightarrow> ct_body a (c, vr_id vr) \<noteq> None)
     \<and> (\<forall>c u v vr. ct_version a (c, u, v) = Some vr \<longrightarrow> vr_id vr < unwrap_or (ct_next a c) 1)
     \<and> (\<forall>c i rec. ct_body a (c, i) = Some rec \<longrightarrow> refs_named c rec)"

definition registry_ok :: "'p registry \<Rightarrow> bool" where
  "registry_ok reg \<longleftrightarrow> registry_sound reg \<and> contents_ok (registry_contents reg)"

fun named_target :: "target \<Rightarrow> bool" where
  "named_target (TSubject q) = qs_named q"
| "named_target (TContext c) = nul_free c"
| "named_target _ = True"

text \<open>The id counter of a context has not reached the last id.\<close>

definition ids_left :: "'p registry \<Rightarrow> bool" where
  "ids_left reg \<longleftrightarrow> (\<forall>c. ct_next (registry_contents reg) c \<noteq> Some (- 1))"

fun is_deletion :: "registry_write \<Rightarrow> bool" where
  "is_deletion (WDeleteVersion c u v i) = True"
| "is_deletion (WDeleteRefby c u v i) = True"
| "is_deletion (WDeleteSchema c i) = True"
| "is_deletion _ = False"

definition gone_versions :: "registry_write list \<Rightarrow> (string \<times> string \<times> u32) set" where
  "gone_versions ws = {(c, u, v). \<exists>i. WDeleteVersion c u v i \<in> set ws}"

definition gone_bodies :: "registry_write list \<Rightarrow> (string \<times> u32) set" where
  "gone_bodies ws = {(c, i). WDeleteSchema c i \<in> set ws}"

text \<open>A list of deletions is sound when it frees a body only together with every version that holds it.\<close>

definition frees_unused :: "registry_write list \<Rightarrow> contents \<Rightarrow> bool" where
  "frees_unused ws a \<longleftrightarrow> (\<forall>c i u v vr. (c, i) \<in> gone_bodies ws \<longrightarrow> ct_version a (c, u, v) = Some vr \<longrightarrow> vr_id vr = i
     \<longrightarrow> (c, u, v) \<in> gone_versions ws)"

definition reader_ok :: "'p reader \<Rightarrow> bool" where
  "reader_ok r \<longleftrightarrow> registry_ok (rd_reg r) \<and> rd_snap r = rg_snapshot (rd_reg r)"

abbreviation seen :: "'p reader \<Rightarrow> contents" where
  "seen r \<equiv> registry_contents (rd_reg r)"

definition version_key_of :: "qualified_subject \<times> u32 \<times> version_record \<Rightarrow> string \<times> string \<times> u32" where
  "version_key_of = (\<lambda>(q, v, _). (qs_context q, qs_subject q, v))"

definition doomed_ok :: "'p reader \<Rightarrow> (qualified_subject \<times> u32 \<times> version_record) list \<Rightarrow> (string \<times> u32) list \<Rightarrow> bool" where
  "doomed_ok r doomed also_removed \<longleftrightarrow>
     (\<forall>(q, v, vr) \<in> set doomed. ct_version (seen r) (qs_context q, qs_subject q, v) = Some vr)
     \<and> (\<forall>(q, v, vr) \<in> set doomed. \<forall>w. (qs_subject q, w) \<in> set also_removed
          \<longrightarrow> ct_version (seen r) (qs_context q, qs_subject q, w) \<noteq> None
          \<longrightarrow> (qs_context q, qs_subject q, w) \<in> version_key_of ` set doomed)"

section \<open>One write\<close>

lemma contents_of_simps:
  "ct_version (contents_of t d s) (c, u, v) = version_of (ctx_state_of s c) u v"
  "ct_body (contents_of t d s) (c, i) = store_get_schema t d c i"
  "ct_next (contents_of t d s) c = cs_next_id (ctx_state_of s c)"
  "ct_fp (contents_of t d s) (c, f) = map_of (fingerprints (ctx_state_of s c)) f"
  "ct_refby (contents_of t d s) (c, u, v) = set (refby_of (ctx_state_of s c) (u, v))"
  "ct_config (contents_of t d s) = map_of (config s)"
  "ct_mode (contents_of t d s) = map_of (modes s)"
  "ct_exporter (contents_of t d s) = store_get_exporter t d"
  by (simp_all add: contents_of_def queries_ctx_state snap_get_config_def snap_get_mode_def fun_eq_iff)

lemma contents_eqI:
  assumes "\<And>c u v. ct_version a (c, u, v) = ct_version b (c, u, v)" and "\<And>c i. ct_body a (c, i) = ct_body b (c, i)"
    and "\<And>c. ct_next a c = ct_next b c" and "\<And>c f. ct_fp a (c, f) = ct_fp b (c, f)"
    and "\<And>c u v. ct_refby a (c, u, v) = ct_refby b (c, u, v)" and "\<And>sc. ct_config a sc = ct_config b sc"
    and "\<And>sc. ct_mode a sc = ct_mode b sc" and "\<And>n. ct_exporter a n = ct_exporter b n"
  shows "a = (b :: contents)"
  by (rule contents.equality) (auto simp: fun_eq_iff assms)

lemma schema_key_eq: "schema_key c i = schema_key c' i' \<longleftrightarrow> c = c' \<and> i = i'"
  unfolding schema_key_def by (auto simp: append_eq_append_conv)

lemma contents_write:
  assumes "in_sync t d s" and "write_named w"
  shows "contents_of t (write_batch (write_batch_of t w) d) (apply_ops (write_ops_of w) s) = spec_write w (contents_of t d s)"
proof -
  note inv = in_syncD(5) [OF assms(1)] and wf = in_sync_wf [OF assms(1)]
  note obs = contents_of_simps store_get_schema_def store_get_exporter_def version_of_put [OF inv] version_of_delete [OF inv]
    refby_put refby_delete update_conv delete_conv
  show ?thesis
    using assms(2) wf ctx_invD(6) [OF inv]
    by (cases w; intro contents_eqI)
      (simp_all add: write_parts obs map_of_om_update map_of_om_delete schema_key_eq small_set.ins_elems small_set.del_elems Let_def)
qed

lemma spec_writes_simps [simp]:
  "spec_writes [] a = a" "spec_writes (w # ws) a = spec_writes ws (spec_write w a)"
  "spec_writes (xs @ ys) a = spec_writes ys (spec_writes xs a)"
  by (simp_all add: spec_writes_def)

lemma contents_writes:
  assumes "in_sync t d s" and "writes_ok ws s"
  shows "contents_of t (write_batch (writes_batch t ws) d) (apply_ops (writes_ops ws) s) = spec_writes ws (contents_of t d s)"
  using assms
proof (induction ws arbitrary: d s)
  case Nil
  then show ?case by (simp add: writes_batch_def writes_ops_def)
next
  case (Cons w ws)
  have named: "write_named w" "ops_ok (write_ops_of w) s" and rest: "writes_ok ws (apply_ops (write_ops_of w) s)"
    using Cons.prems(2) by (auto simp: writes_ok_def writes_ops_def ops_ok_append)
  show ?case
    using Cons.IH [OF in_sync_write [OF Cons.prems(1) named] rest] contents_write [OF Cons.prems(1) named(1)]
    by (simp add: writes_batch_def writes_ops_def write_batch_append apply_ops_append)
qed

lemma contents_log_rows: "contents_of t (write_batch (log_rows t q evs) d) s = contents_of t d s"
  by (intro contents_eqI) (simp_all add: contents_of_simps store_get_schema_def store_get_exporter_def log_rows_frame)

lemma contents_log_seq:
  "contents_of t (write_batch [BMeta (RPut k v)] d) (apply_ops [OpSetLogSeq q] s) = contents_of t d s"
  by (intro contents_eqI) (simp_all add: contents_of_simps store_get_schema_def store_get_exporter_def)

lemma cache_writes:
  "bodies \<subseteq>\<^sub>m ct_body a \<Longrightarrow> fold cache_op (writes_ops ws) bodies \<subseteq>\<^sub>m ct_body (spec_writes ws a)"
proof (induction ws arbitrary: bodies a)
  case Nil
  then show ?case by (simp add: writes_ops_def)
next
  case (Cons w ws)
  have "fold cache_op (write_ops_of w) bodies \<subseteq>\<^sub>m ct_body (spec_write w a)"
    using Cons.prems by (cases w) (auto simp: write_parts map_le_def)
  then show ?case using Cons.IH by (simp add: writes_ops_def)
qed

lemma contents_commit:
  assumes "at_rest t d s" and "writes_ok ws s" and "commit_plan t a ws evs d = Some (d', xs)"
  shows "contents_of t d' (apply_ops xs s) = spec_writes ws (contents_of t d s)"
proof -
  have sync: "in_sync t d s" using assms(1) by (simp add: at_rest_def)
  obtain q where q: "store_log_seq t d = Some q" using assms(1) by (auto simp: at_rest_def)
  then show ?thesis
    using assms(3) contents_writes [OF sync assms(2)]
    by (auto simp: commit_plan_parts write_batch_append apply_ops_append contents_log_rows contents_log_seq
      simp del: write_batch.simps(2) apply_ops.simps(2) split: if_splits)
qed

lemma engine_apply_spec:
  assumes "registry_sound reg" and "writes_ok (pl_writes plan) (rg_snapshot reg)"
  obtains reg' where "engine_apply reg plan a = Inr (reg', pl_output plan)" and "registry_sound reg'"
    and "registry_contents reg' = spec_writes (pl_writes plan) (registry_contents reg)"
    and "rg_tenant reg' = rg_tenant reg"
proof -
  let ?t = "rg_tenant reg" and ?d = "rg_db reg" and ?s = "rg_snapshot reg"
  have rest: "at_rest ?t ?d ?s" and cache: "rg_bodies reg \<subseteq>\<^sub>m ct_body (registry_contents reg)"
    using assms(1) by (auto simp: registry_sound_def bodies_ok_def)
  obtain d' xs where step: "commit_plan ?t a (pl_writes plan) (pl_events plan) ?d = Some (d', xs)"
    and rest': "at_rest ?t d' (apply_ops xs ?s)"
    and xs: "xs = writes_ops (pl_writes plan) @ (if pl_events plan = [] then []
        else [OpSetLogSeq (snap_log_seq ?s + of_nat (length (pl_events plan)))])"
    using commit_at_rest [OF rest assms(2)] by metis
  obtain x where x: "store_tx ?t ?d = Some x" and c: "tx_commit (apply_tx a (pl_writes plan) (pl_events plan) x) ?d = (d', xs)"
    using step by (auto simp: commit_plan_def split: option.splits)
  define reg' where "reg' = reg\<lparr>rg_db := d', rg_bodies := fold cache_op xs (rg_bodies reg),
      rg_snapshot := apply_ops xs ?s, rg_notices := rg_notices reg @ [length (pl_events plan)]\<rparr>"
  have "engine_apply reg plan a = Inr (reg', pl_output plan)"
    using x c by (simp add: engine_apply_def registry_commit_def reg'_def)
  moreover have con: "registry_contents reg' = spec_writes (pl_writes plan) (registry_contents reg)"
    using contents_commit [OF rest assms(2) step] by (simp add: registry_contents_def reg'_def)
  moreover have "registry_sound reg'"
    using rest' cache_writes [OF cache, of "pl_writes plan"] con
    by (simp add: registry_sound_def bodies_ok_def reg'_def xs)
  moreover have "rg_tenant reg' = rg_tenant reg" by (simp add: reg'_def)
  ultimately show thesis using that by blast
qed

section \<open>Guards at the level of the contents\<close>

lemma ops_ok_write:
  assumes "in_sync t d s"
  shows "ops_ok (write_ops_of w) s \<longleftrightarrow> write_ok_at w (contents_of t d s)"
proof (cases w)
  case (WDeleteContext c)
  have "map fst (subjects (ctx_state_of s c)) = [] \<longleftrightarrow> (\<forall>u. u \<notin> fst ` set (subjects (ctx_state_of s c)))" by auto
  then have "map fst (subjects (ctx_state_of s c)) = [] \<longleftrightarrow> (\<forall>u v. version_of (ctx_state_of s c) u v = None)"
    by (simp add: subject_names_set [OF in_syncD(5) [OF assms]])
  then show ?thesis using WDeleteContext by (simp add: write_parts contents_of_simps queries_ctx_state)
qed (simp_all add: write_parts contents_of_simps queries_ctx_state split: option.splits)

lemma spec_writes_ok:
  assumes "in_sync t d s" and "list_all write_named ws" and "spec_ok ws (contents_of t d s)"
  shows "writes_ok ws s"
  using assms
proof (induction ws arbitrary: d s)
  case Nil
  then show ?case by (simp add: writes_ok_def writes_ops_def)
next
  case (Cons w ws)
  have w: "write_named w" "ops_ok (write_ops_of w) s" using Cons.prems ops_ok_write [OF Cons.prems(1)] by auto
  have "writes_ok ws (apply_ops (write_ops_of w) s)"
    using Cons.IH [OF in_sync_write [OF Cons.prems(1) w]] Cons.prems(2,3) contents_write [OF Cons.prems(1) w(1)] by simp
  then show ?case using w Cons.prems(2) by (auto simp: writes_ok_def writes_ops_def ops_ok_append)
qed

lemma spec_ok_append [simp]: "spec_ok (xs @ ys) a \<longleftrightarrow> spec_ok xs a \<and> spec_ok ys (spec_writes xs a)"
  by (induction xs arbitrary: a) auto

section \<open>Lists of deletions\<close>

lemma deletions_effect:
  assumes "list_all is_deletion ws"
  shows "ct_version (spec_writes ws a) k = (if k \<in> gone_versions ws then None else ct_version a k)"
    and "ct_body (spec_writes ws a) b = (if b \<in> gone_bodies ws then None else ct_body a b)"
    and "ct_next (spec_writes ws a) = ct_next a"
    and "ct_config (spec_writes ws a) = ct_config a" and "ct_mode (spec_writes ws a) = ct_mode a"
    and "ct_fp (spec_writes ws a) = ct_fp a" and "ct_exporter (spec_writes ws a) = ct_exporter a"
  using assms
proof (induction ws arbitrary: a)
  case Nil
  { case 1 show ?case by (simp add: gone_versions_def) next case 2 show ?case by (simp add: gone_bodies_def)
    next case 3 show ?case by simp next case 4 show ?case by simp next case 5 show ?case by simp
    next case 6 show ?case by simp next case 7 show ?case by simp }
next
  case (Cons w ws)
  { case 1 then show ?case using Cons(1) by (cases w) (auto simp: gone_versions_def)
  next case 2 then show ?case using Cons(2) by (cases w) (auto simp: gone_bodies_def)
  next case 3 then show ?case using Cons(3) by (cases w) auto
  next case 4 then show ?case using Cons(4) by (cases w) auto
  next case 5 then show ?case using Cons(5) by (cases w) auto
  next case 6 then show ?case using Cons(6) by (cases w) auto
  next case 7 then show ?case using Cons(7) by (cases w) auto }
qed

lemma deletions_ok:
  assumes "list_all is_deletion ws"
    and "\<And>c u v i vr. WDeleteVersion c u v i \<in> set ws \<Longrightarrow> ct_version a (c, u, v) = Some vr \<Longrightarrow> vr_id vr = i"
  shows "spec_ok ws a"
  using assms
proof (induction ws arbitrary: a)
  case (Cons w ws)
  have del: "is_deletion w" "list_all is_deletion ws" using Cons.prems(1) by auto
  then have less: "ct_version (spec_write w a) k = Some vr \<Longrightarrow> ct_version a k = Some vr" for k vr
    by (cases w) (auto split: if_splits)
  have "spec_ok ws (spec_write w a)" 
    using Cons.prems(2) less by (intro Cons.IH [OF del(2)]) (metis list.set_intros(2))
  moreover have "write_ok_at w a"
  proof (cases w)
    case (WDeleteVersion c u v i)
    then show ?thesis using Cons.prems(2) [of c u v i] by (simp split: option.splits)
  qed (use del in simp_all)
  ultimately show ?case by simp
qed simp

lemma deletions_contents_ok:
  assumes "contents_ok a" and "list_all is_deletion ws" and "frees_unused ws a"
  shows "contents_ok (spec_writes ws a)"
  using assms(1,3) unfolding contents_ok_def frees_unused_def deletions_effect [OF assms(2)]
  by (auto split: if_splits)

section \<open>What a reader sees\<close>

lemma reader_okD:
  assumes "reader_ok r"
  shows "in_sync (rg_tenant (rd_reg r)) (rg_db (rd_reg r)) (rd_snap r)" and "contents_ok (seen r)"
    and "snap_inv (rd_snap r)" and "bodies_ok (rd_reg r)" and "registry_sound (rd_reg r)"
  using assms by (auto simp: reader_ok_def registry_ok_def registry_sound_def at_rest_def in_sync_def)

lemma reader_new: "registry_ok reg \<Longrightarrow> reader_ok (vw_reader (view_new reg now guid))"
  by (simp add: reader_ok_def view_new_def registry_reader_def)

lemma seen_new [simp]: "rd_reg (vw_reader (view_new reg now guid)) = reg"
  by (simp add: view_new_def registry_reader_def)

lemma seen_eq: "reader_ok r \<Longrightarrow> seen r = contents_of (rg_tenant (rd_reg r)) (rg_db (rd_reg r)) (rd_snap r)"
  by (simp add: reader_ok_def registry_contents_def)

lemma reader_sees:
  assumes "reader_ok r"
  shows "rd_get_version r c u v = ct_version (seen r) (c, u, v)"
    and "rd_get_schema r c i = ct_body (seen r) (c, i)"
    and "rd_next_id r c = unwrap_or (ct_next (seen r) c) 1"
    and "(u, v) \<in> set (rd_id_usages r c i) \<longleftrightarrow> (\<exists>vr. ct_version (seen r) (c, u, v) = Some vr \<and> vr_id vr = i)"
    and "(v, vr) \<in> set (rd_list_versions r c u) \<longleftrightarrow> ct_version (seen r) (c, u, v) = Some vr"
    and "u \<in> set (rd_list_subject_names r c) \<longleftrightarrow> (\<exists>v. ct_version (seen r) (c, u, v) \<noteq> None)"
    and "ct_version (seen r) (c, u, v) = Some vr \<Longrightarrow> nul_free c \<and> nul_free u"
    and "wf_table (rd_list_versions r c u)"
proof -
  note sync = reader_okD(1) [OF assms] and inv = in_syncD(5) [OF reader_okD(1) [OF assms]]
  note eq = seen_eq [OF assms]
  show "rd_get_version r c u v = ct_version (seen r) (c, u, v)"
    by (simp add: eq rd_get_version_def contents_of_simps queries_ctx_state)
  show "rd_next_id r c = unwrap_or (ct_next (seen r) c) 1"
    by (simp add: eq rd_next_id_def contents_of_simps queries_ctx_state)
  show "(u, v) \<in> set (rd_id_usages r c i) \<longleftrightarrow> (\<exists>vr. ct_version (seen r) (c, u, v) = Some vr \<and> vr_id vr = i)"
    using ctx_invD(5) [OF inv] by (simp add: eq rd_id_usages_def contents_of_simps queries_ctx_state)
  show wf: "wf_table (rd_list_versions r c u)" by (rule rd_versions [OF reader_okD(3) [OF assms]])
  show "(v, vr) \<in> set (rd_list_versions r c u) \<longleftrightarrow> ct_version (seen r) (c, u, v) = Some vr"
    using wf_table_map_of_iff [OF wf] rd_versions(2) [OF reader_okD(3) [OF assms], of c u]
    by (simp add: eq rd_get_version_def contents_of_simps queries_ctx_state)
  show "u \<in> set (rd_list_subject_names r c) \<longleftrightarrow> (\<exists>v. ct_version (seen r) (c, u, v) \<noteq> None)"
    using subject_names_set [OF inv] by (simp add: eq rd_list_subject_names_def contents_of_simps queries_ctx_state)
  show "nul_free c \<and> nul_free u" if "ct_version (seen r) (c, u, v) = Some vr"
    using that in_sync_obs(1) [OF sync, of c u v] by (auto simp: eq contents_of_simps split: if_splits)
  show "rd_get_schema r c i = ct_body (seen r) (c, i)"
    using reader_okD(4) [OF assms]
    by (auto simp: rd_get_schema_def bodies_ok_def map_le_def registry_contents_def contents_of_simps dom_def
      split: option.splits)
qed

section \<open>Permanent deletes\<close>

lemma hard_delete_writes_set:
  assumes "w \<in> set (fst (hard_delete_writes r q v vr also_removed))"
  obtains "w = WDeleteVersion (qs_context q) (qs_subject q) v (vr_id vr)"
  | rec sr where "\<not> still_used r q v vr also_removed" "rd_get_schema r (qs_context q) (vr_id vr) = Some rec"
      "sr \<in> set (sr_references rec)" "w = drop_refby q (vr_id vr) sr"
  | "\<not> still_used r q v vr also_removed" "w = WDeleteSchema (qs_context q) (vr_id vr)"
  using assms that by (cases "rd_get_schema r (qs_context q) (vr_id vr)") (auto simp: hard_delete_writes_def split: if_splits)

lemma hard_deletes_set:
  "w \<in> set (fst (hard_deletes r doomed also_removed)) \<longleftrightarrow>
    (\<exists>q v vr. (q, v, vr) \<in> set doomed \<and> w \<in> set (fst (hard_delete_writes r q v vr also_removed)))"
  by (force simp: hard_deletes_def Let_def)

lemma hard_deletes_gone: "gone_versions (fst (hard_deletes r doomed also_removed)) = version_key_of ` set doomed"
proof -
  have "WDeleteVersion c u v i \<in> set (fst (hard_delete_writes r q w vr also_removed)) \<longleftrightarrow>
      c = qs_context q \<and> u = qs_subject q \<and> v = w \<and> i = vr_id vr" for c u v i q w vr
    by (auto simp: hard_delete_writes_def drop_refby_def Let_def split: option.splits)
  then show ?thesis unfolding gone_versions_def hard_deletes_set version_key_of_def by force
qed

lemma hard_deletes_shape:
  assumes "reader_ok r" and "doomed_ok r doomed also_removed"
  defines "ws \<equiv> fst (hard_deletes r doomed also_removed)"
  shows "list_all is_deletion ws" and "list_all write_named ws" and "frees_unused ws (seen r)"
    and "WDeleteVersion c u v i \<in> set ws \<Longrightarrow> ct_version (seen r) (c, u, v) = Some vr \<Longrightarrow> vr_id vr = i"
proof -
  have held: "ct_version (seen r) (qs_context q, qs_subject q, v) = Some vr" if "(q, v, vr) \<in> set doomed" for q v vr
    using assms(2) that by (auto simp: doomed_ok_def)
  show "list_all is_deletion ws"
    by (auto simp: list_all_iff ws_def hard_deletes_set drop_refby_def Let_def elim!: hard_delete_writes_set)
  show "list_all write_named ws"
    unfolding list_all_iff
  proof
    fix w assume "w \<in> set ws"
    then obtain q v vr where d: "(q, v, vr) \<in> set doomed" and w: "w \<in> set (fst (hard_delete_writes r q v vr also_removed))"
      unfolding ws_def hard_deletes_set by blast
    note nf = reader_sees(7) [OF assms(1) held [OF d]]
    from w show "write_named w"
    proof (cases rule: hard_delete_writes_set)
      case (2 rec sr)
      then have "refs_named (qs_context q) rec"
        using reader_okD(2) [OF assms(1)] by (auto simp: reader_sees(2) [OF assms(1)] contents_ok_def)
      then show ?thesis using 2 by (auto simp: refs_named_def list_all_iff qs_named_def drop_refby_def Let_def)
    qed (use nf in auto)
  qed
  show "vr_id vr = i" if "WDeleteVersion c u v i \<in> set ws" "ct_version (seen r) (c, u, v) = Some vr" for c u v i vr
    using that held unfolding ws_def hard_deletes_set
    by (auto simp: hard_delete_writes_def drop_refby_def Let_def split: option.splits if_splits)
  show "frees_unused ws (seen r)"
    unfolding frees_unused_def gone_bodies_def ws_def hard_deletes_gone
  proof (clarify)
    fix c u v vr
    assume body: "WDeleteSchema c (vr_id vr) \<in> set (fst (hard_deletes r doomed also_removed))"
      and vr: "ct_version (seen r) (c, u, v) = Some vr"
    obtain q w wr where d: "(q, w, wr) \<in> set doomed" and c: "c = qs_context q" "vr_id vr = vr_id wr"
      and unused: "\<not> still_used r q w wr also_removed"
      using body unfolding hard_deletes_set by (auto elim!: hard_delete_writes_set simp: drop_refby_def Let_def)
    have "(u, v) \<in> set (rd_id_usages r (qs_context q) (vr_id wr))"
      using vr c by (auto simp: reader_sees(4) [OF assms(1)])
    then have "u = qs_subject q \<and> (v = w \<or> (u, v) \<in> set also_removed)"
      using unused by (auto simp: still_used_def list_ex_iff)
    then show "(c, u, v) \<in> version_key_of ` set doomed"
      using d c vr assms(2) by (force simp: doomed_ok_def version_key_of_def)
  qed
qed

end
