(* ===== verification/Contracts.thy ===== *)
theory Contracts
  imports Contents
begin

text \<open>
  The contract between the engine and the verbs.  The locale \<open>verb\<close> fixes a mutation and states what
  its plan promises: from a well-formed state its writes keep the state well-formed, stay within the
  target, and never put different content under an id in use.  What the engine does with such a verb
  is proved once, inside the locale; every verb of the program is then shown to be an instance.
\<close>

fun neutral :: "registry_write \<Rightarrow> bool" where
  "neutral (WPutRefby c u v i) = True"
| "neutral (WDeleteRefby c u v i) = True"
| "neutral (WPutConfig sc rec) = True"
| "neutral (WDeleteConfig sc) = True"
| "neutral (WPutMode sc m) = True"
| "neutral (WDeleteMode sc) = True"
| "neutral (WPutExporter rec) = True"
| "neutral (WDeleteExporter name) = True"
| "neutral _ = False"

fun scope_in :: "string \<Rightarrow> scope \<Rightarrow> bool" where
  "scope_in c ScGlobal = False"
| "scope_in c (ScContext c') = (c' = c)"
| "scope_in c (ScSubject c' u) = (c' = c)"

text \<open>A write stays in a context; reference edges are kept with what they point to and may lie elsewhere.\<close>

fun write_in :: "string \<Rightarrow> registry_write \<Rightarrow> bool" where
  "write_in c (WPutSchema c' i rec index) = (c' = c)"
| "write_in c (WPutVersion c' u v vr) = (c' = c)"
| "write_in c (WDeleteVersion c' u v i) = (c' = c)"
| "write_in c (WDeleteSchema c' i) = (c' = c)"
| "write_in c (WSetNextId c' n) = (c' = c)"
| "write_in c (WDeleteContext c') = (c' = c)"
| "write_in c (WPutConfig sc rec) = scope_in c sc"
| "write_in c (WDeleteConfig sc) = scope_in c sc"
| "write_in c (WPutMode sc m) = scope_in c sc"
| "write_in c (WDeleteMode sc) = scope_in c sc"
| "write_in c (WPutRefby c' u v i) = True"
| "write_in c (WDeleteRefby c' u v i) = True"
| "write_in c (WPutExporter rec) = False"
| "write_in c (WDeleteExporter name) = False"

fun is_exporter_write :: "registry_write \<Rightarrow> bool" where
  "is_exporter_write (WPutExporter rec) = True"
| "is_exporter_write (WDeleteExporter name) = True"
| "is_exporter_write _ = False"

fun within :: "target \<Rightarrow> registry_write \<Rightarrow> bool" where
  "within (TSubject q) w = write_in (qs_context q) w"
| "within (TContext c) w = write_in c w"
| "within TGlobal w = (\<not> is_exporter_write w)"
| "within TExporters w = is_exporter_write w"

text \<open>A body is written only under an id nobody uses, or with the record the id already has.\<close>

definition id_used :: "contents \<Rightarrow> string \<Rightarrow> u32 \<Rightarrow> bool" where
  "id_used a c i \<longleftrightarrow> (\<exists>u v vr. ct_version a (c, u, v) = Some vr \<and> vr_id vr = i)"

definition keeps_promises :: "registry_write list \<Rightarrow> contents \<Rightarrow> bool" where
  "keeps_promises ws a \<longleftrightarrow>
    (\<forall>c i rec index. WPutSchema c i rec index \<in> set ws \<longrightarrow> id_used a c i \<longrightarrow> ct_body a (c, i) = Some rec)"

text \<open>Two contents agree outside a context.\<close>

definition same_outside :: "string \<Rightarrow> contents \<Rightarrow> contents \<Rightarrow> bool" where
  "same_outside c a b \<longleftrightarrow>
     (\<forall>c' u v. c' \<noteq> c \<longrightarrow> ct_version a (c', u, v) = ct_version b (c', u, v))
     \<and> (\<forall>c' i. c' \<noteq> c \<longrightarrow> ct_body a (c', i) = ct_body b (c', i))
     \<and> (\<forall>c'. c' \<noteq> c \<longrightarrow> ct_next a c' = ct_next b c')
     \<and> (\<forall>c' f. c' \<noteq> c \<longrightarrow> ct_fp a (c', f) = ct_fp b (c', f))
     \<and> (\<forall>sc. \<not> scope_in c sc \<longrightarrow> ct_config a sc = ct_config b sc \<and> ct_mode a sc = ct_mode b sc)
     \<and> ct_exporter a = ct_exporter b"

section \<open>Registration\<close>

definition i32_range :: "int \<Rightarrow> bool" where
  "i32_range i \<longleftrightarrow> - (2 ^ 31) \<le> i \<and> i < 2 ^ 31"

text \<open>The writes of a registration, in three parts: what it removes, what it stores, and its reference edges.\<close>

definition register_removes :: "'p read_view \<Rightarrow> qualified_subject \<Rightarrow> u32 \<Rightarrow> u32 \<Rightarrow> registry_write list" where
  "register_removes vw q version i =
    (let r = vw_reader vw; versions = rd_list_versions r (qs_context q) (qs_subject q); gone = stale q version i versions in
     fst (hard_deletes r (replaced q version versions) []) @ fst (hard_deletes r gone (map (\<lambda>(_, v, _). (qs_subject q, v)) gone)))"

section \<open>The contract of a verb\<close>

locale verb =
  fixes m :: "('p, 'o) mutation" and fits :: "'p registry \<Rightarrow> bool"
  assumes plan_ok: "reader_ok (vw_reader vw) \<Longrightarrow> mu_plan m vw = Inr p \<Longrightarrow> fits (vw_reg vw) \<Longrightarrow>
      list_all write_named (pl_writes p) \<and> spec_ok (pl_writes p) (seen (vw_reader vw))
      \<and> contents_ok (spec_writes (pl_writes p) (seen (vw_reader vw)))"
    and footprint: "reader_ok (vw_reader vw) \<Longrightarrow> mu_plan m vw = Inr p \<Longrightarrow> list_all (within (mu_target m)) (pl_writes p)"
    and promise: "reader_ok (vw_reader vw) \<Longrightarrow> mu_plan m vw = Inr p \<Longrightarrow> keeps_promises (pl_writes p) (seen (vw_reader vw))"

begin

lemma planned_apply:
  assumes "fits reg" "registry_ok reg" "mu_plan m (view_new reg now guid) = Inr p"
  obtains reg' where "engine_apply reg p a = Inr (reg', pl_output p)" "registry_ok reg'"
    "registry_contents reg' = spec_writes (pl_writes p) (registry_contents reg)" "rg_tenant reg' = rg_tenant reg"
proof -
  let ?vw = "view_new reg now guid"
  have r: "reader_ok (vw_reader ?vw)" by (rule reader_new [OF assms(2)])
  note plan = plan_ok [OF r assms(3), simplified, OF assms(1)]
  have sync: "in_sync (rg_tenant reg) (rg_db reg) (rg_snapshot reg)"
    using assms(2) by (simp add: registry_ok_def registry_sound_def at_rest_def)
  have ok: "writes_ok (pl_writes p) (rg_snapshot reg)"
    using spec_writes_ok [OF sync] plan by (simp add: registry_contents_def)
  have "registry_sound reg" using assms(2) by (simp add: registry_ok_def)
  then obtain reg' where "engine_apply reg p a = Inr (reg', pl_output p)" "registry_sound reg'"
    "registry_contents reg' = spec_writes (pl_writes p) (registry_contents reg)" "rg_tenant reg' = rg_tenant reg"
    using ok by (rule engine_apply_spec)
  then show thesis using that plan by (simp add: registry_ok_def)
qed

lemma locked_step:
  assumes "fits reg" "registry_ok reg" "run_locked reg m now guid = Inr (reg', out)"
  obtains p where "mu_plan m (view_new reg now guid) = Inr p" "out = pl_output p"
    "gate_check (mu_intent m) (mode_for (view_new reg now guid) (mu_target m)) (scope_name (mu_target m)) = Inr Allowed"
    "registry_ok reg'" "registry_contents reg' = spec_writes (pl_writes p) (registry_contents reg)"
    "rg_tenant reg' = rg_tenant reg"
proof -
  let ?vw = "view_new reg now guid"
  obtain p a where p: "mu_plan m ?vw = Inr p" and app: "engine_apply reg p a = Inr (reg', out)"
    and g: "gate_check (mu_intent m) (mode_for ?vw (mu_target m)) (scope_name (mu_target m)) = Inr a"
    using assms(3) by (auto simp: run_locked_def Let_def and_then_Inr_iff split: gate.splits)
  obtain reg1 where "engine_apply reg p a = Inr (reg1, pl_output p)" "registry_ok reg1"
    "registry_contents reg1 = spec_writes (pl_writes p) (registry_contents reg)" "rg_tenant reg1 = rg_tenant reg"
    by (rule planned_apply [OF assms(1,2) p])
  then show thesis using that [OF p] app g by (cases a) auto
qed

lemma run_keeps_ok:
  assumes "fits reg" "registry_ok reg" "run_inner early reg m now guid = Inr (reg', out)"
  shows "registry_ok reg'"
  using assms(3) locked_step [OF assms(1,2)] assms(2)
  by (auto simp: run_inner_def and_then_Inr_iff split: option.splits)

text \<open>A gated plan is always applied: the engine fails only where the fast path, the gate or the plan does.\<close>

lemma run_answers:
  assumes "fits reg" "registry_ok reg" "mu_plan m (view_new reg now guid) = Inr p"
    and "is_ok (gate_check (mu_intent m) (mode_for (view_new reg now guid) (mu_target m)) (scope_name (mu_target m)))"
  shows "\<exists>reg'. run_locked reg m now guid = Inr (reg', pl_output p) \<and> registry_ok reg'
    \<and> registry_contents reg' = spec_writes (pl_writes p) (registry_contents reg)"
proof -
  let ?vw = "view_new reg now guid"
  obtain a where g: "gate_check (mu_intent m) (mode_for ?vw (mu_target m)) (scope_name (mu_target m)) = Inr a"
    using assms(4) by (cases "gate_check (mu_intent m) (mode_for ?vw (mu_target m)) (scope_name (mu_target m))") auto
  obtain reg' where "engine_apply reg p a = Inr (reg', pl_output p)" "registry_ok reg'"
    "registry_contents reg' = spec_writes (pl_writes p) (registry_contents reg)"
    by (rule planned_apply [OF assms(1-3)])
  then show ?thesis using g assms(3) by (auto simp: run_locked_def Let_def split: gate.splits)
qed

end

section \<open>Writes that stay in a context\<close>

lemma same_outside_refl [simp]: "same_outside c a a"
  by (simp add: same_outside_def)

lemma same_outside_trans: "same_outside c a b \<Longrightarrow> same_outside c b d \<Longrightarrow> same_outside c a d"
  by (simp add: same_outside_def)

lemma same_outside_write: "write_in c w \<Longrightarrow> same_outside c a (spec_write w a)"
  by (cases w) (auto simp: same_outside_def)

lemma same_outside_writes: "list_all (write_in c) ws \<Longrightarrow> same_outside c a (spec_writes ws a)"
proof (induction ws arbitrary: a)
  case (Cons w ws)
  then show ?case using same_outside_trans [OF same_outside_write] by auto
qed simp

section \<open>Writes that leave the schema state alone\<close>

lemma neutral_writes:
  assumes "list_all neutral ws"
  shows "spec_ok ws a" and "contents_ok (spec_writes ws a) = contents_ok a"
proof -
  have one: "neutral w \<Longrightarrow> write_ok_at w a \<and> contents_ok (spec_write w a) = contents_ok a" for w a
    by (cases w) (auto simp: contents_ok_def)
  show "spec_ok ws a" "contents_ok (spec_writes ws a) = contents_ok a"
    using assms one by (induction ws arbitrary: a) auto
qed

lemma contents_okD:
  assumes "contents_ok a"
  shows "ct_version a (c, u, v) = Some vr \<Longrightarrow> ct_body a (c, vr_id vr) \<noteq> None"
    and "ct_version a (c, u, v) = Some vr \<Longrightarrow> vr_id vr < unwrap_or (ct_next a c) 1"
    and "ct_body a (c, i) = Some rec \<Longrightarrow> refs_named c rec"
  using assms unfolding contents_ok_def by blast+

lemma soft_delete_write:
  assumes "contents_ok a" and "ct_version a (c, u, v) = Some vr0" and "vr_id vr0 = vr_id vr"
  shows "contents_ok (spec_write (WPutVersion c u v vr) a)"
  using assms contents_okD(1,2) [OF assms(1,2)] by (auto simp: contents_ok_def)

lemma soft_delete_writes:
  assumes "contents_ok a"
    and "\<forall>(v, vr) \<in> set vs. \<exists>vr0. ct_version a (qs_context q, qs_subject q, v) = Some vr0 \<and> vr_id vr0 = vr_id vr"
    and "distinct (map fst vs)"
  shows "contents_ok (spec_writes (map (\<lambda>(v, vr). soft_deleted q v vr) vs) a)"
    and "spec_ok (map (\<lambda>(v, vr). soft_deleted q v vr) vs) a"
proof -
  have "contents_ok (spec_writes (map (\<lambda>(v, vr). soft_deleted q v vr) vs) a)
      \<and> spec_ok (map (\<lambda>(v, vr). soft_deleted q v vr) vs) a"
    using assms
  proof (induction vs arbitrary: a)
    case (Cons p vs)
    obtain v vr where p: "p = (v, vr)" by fastforce
    let ?a = "spec_write (soft_deleted q v vr) a"
    have "contents_ok ?a" using Cons.prems p unfolding soft_deleted_def by (auto intro!: soft_delete_write simp del: spec_write.simps)
    moreover have "\<forall>(w, wr) \<in> set vs. \<exists>vr0. ct_version ?a (qs_context q, qs_subject q, w) = Some vr0 \<and> vr_id vr0 = vr_id wr"
      using Cons.prems(2,3) p by (force simp: soft_deleted_def)
    ultimately show ?case using Cons.IH [of ?a] Cons.prems(3) p by (auto simp: soft_deleted_def)
  qed simp
  then show "contents_ok (spec_writes (map (\<lambda>(v, vr). soft_deleted q v vr) vs) a)"
    "spec_ok (map (\<lambda>(v, vr). soft_deleted q v vr) vs) a" by blast+
qed

lemma hard_deletes_ok:
  assumes "reader_ok r" and "doomed_ok r doomed also_removed"
  shows "list_all write_named (fst (hard_deletes r doomed also_removed))"
    and "spec_ok (fst (hard_deletes r doomed also_removed)) (seen r)"
    and "contents_ok (spec_writes (fst (hard_deletes r doomed also_removed)) (seen r))"
proof -
  note shape = hard_deletes_shape [OF assms]
  show "list_all write_named (fst (hard_deletes r doomed also_removed))" by (rule shape(2))
  show "spec_ok (fst (hard_deletes r doomed also_removed)) (seen r)" by (rule deletions_ok [OF shape(1) shape(4)])
  show "contents_ok (spec_writes (fst (hard_deletes r doomed also_removed)) (seen r))"
    by (rule deletions_contents_ok [OF reader_okD(2) [OF assms(1)] shape(1,3)])
qed

lemma keeps_promises_simps [simp]:
  "keeps_promises [] a" "keeps_promises (xs @ ys) a \<longleftrightarrow> keeps_promises xs a \<and> keeps_promises ys a"
  unfolding keeps_promises_def by (simp, metis Un_iff set_append)

lemma keeps_promises_deletion: "list_all is_deletion ws \<Longrightarrow> keeps_promises ws a"
  by (auto simp: keeps_promises_def list_all_iff dest!: bspec)

lemma keeps_promises_neutral: "list_all neutral ws \<Longrightarrow> keeps_promises ws a"
  by (auto simp: keeps_promises_def list_all_iff dest!: bspec)

lemma keeps_promises_hard: "keeps_promises (fst (hard_deletes r doomed also_removed)) a"
  by (auto simp: keeps_promises_def hard_deletes_set drop_refby_def Let_def elim!: hard_delete_writes_set)

lemma keeps_promises_soft: "keeps_promises (map (\<lambda>(v, vr). soft_deleted q v vr) vs) a"
  by (auto simp: keeps_promises_def soft_deleted_def)

lemmas keeps_promises_rules = keeps_promises_hard keeps_promises_soft keeps_promises_neutral

lemma hard_deletes_within:
  assumes "w \<in> set (fst (hard_deletes r doomed also_removed))"
  shows "\<exists>(q, v, vr) \<in> set doomed. write_in (qs_context q) w" and "\<not> is_exporter_write w"
  using assms by (auto simp: hard_deletes_set drop_refby_def Let_def elim!: hard_delete_writes_set) force+

lemma doomed_ok_subject:
  assumes "reader_ok r" and "\<And>v vr. (v, vr) \<in> set vs \<Longrightarrow> ct_version (seen r) (qs_context q, qs_subject q, v) = Some vr"
  shows "doomed_ok r (map (\<lambda>(v, vr). (q, v, vr)) vs) (map (\<lambda>(v, _). (qs_subject q, v)) vs)"
    and "doomed_ok r (map (\<lambda>(v, vr). (q, v, vr)) vs) []"
  using assms(2) by (force simp: doomed_ok_def version_key_of_def image_iff)+

lemma drop_settings_ok:
  "nul_free (qs_context q) \<Longrightarrow> list_all write_named (drop_settings q)" "list_all neutral (drop_settings q)"
  "list_all (write_in (qs_context q)) (drop_settings q)"
  by (simp_all add: drop_settings_def Let_def)

lemma plan_parts [simp]:
  "pl_writes (plan_new out) = []" "pl_events (plan_new out) = []" "pl_output (plan_new out) = out"
  "pl_writes (plan_write w p) = pl_writes p @ [w]" "pl_events (plan_write w p) = pl_events p"
  "pl_output (plan_write w p) = pl_output p"
  "pl_writes (plan_writes ws p) = pl_writes p @ ws" "pl_events (plan_writes ws p) = pl_events p"
  "pl_output (plan_writes ws p) = pl_output p"
  by (simp_all add: plan_new_def plan_write_def plan_writes_def)

lemma delete_subject_shape:
  assumes "delete_subject_plan q permanent vw = Inr p"
  defines "vs \<equiv> filter (\<lambda>(_, v). permanent \<or> \<not> vr_deleted v) (rd_list_versions (vw_reader vw) (qs_context q) (qs_subject q))"
  shows "pl_writes p = (if permanent then fst (hard_deletes (vw_reader vw) (map (\<lambda>(v, vr). (q, v, vr)) vs) (map (\<lambda>(v, _). (qs_subject q, v)) vs))
      else map (\<lambda>(v, vr). soft_deleted q v vr) vs @ drop_settings q)"
    and "pl_output p = map fst vs" and "has_subjects (vw_reader vw) q True"
  using assms by (auto simp: delete_subject_plan_def Let_def and_then_Inr_iff split: if_splits prod.splits)

lemma delete_subject_named:
  assumes "reader_ok (vw_reader vw)" and "delete_subject_plan q False vw = Inr p"
  shows "nul_free (qs_context q)"
proof -
  have "has_subjects (vw_reader vw) q True" by (rule delete_subject_shape(3) [OF assms(2)])
  then obtain u v where "ct_version (seen (vw_reader vw)) (qs_context q, u, v) \<noteq> None"
    using reader_sees(5) [OF assms(1)] by (auto simp: has_subjects_def any_version_def list_ex_iff split: if_splits) blast+
  then show ?thesis using reader_sees(7) [OF assms(1)] by blast
qed

lemma soft_writes_named:
  assumes "reader_ok r" and "\<And>v vr. (v, vr) \<in> set vs \<Longrightarrow> ct_version (seen r) (qs_context q, qs_subject q, v) = Some vr"
  shows "list_all write_named (map (\<lambda>(v, vr). soft_deleted q v vr) vs)"
  using assms(2) reader_sees(7) [OF assms(1)] by (force simp: list_all_iff soft_deleted_def)

lemma soft_writes_ok:
  assumes "reader_ok r" and "\<And>v vr. (v, vr) \<in> set vs \<Longrightarrow> ct_version (seen r) (qs_context q, qs_subject q, v) = Some vr"
    and "distinct (map fst vs)" and "list_all neutral rest" and "list_all write_named rest"
  shows "list_all write_named (map (\<lambda>(v, vr). soft_deleted q v vr) vs @ rest)
    \<and> spec_ok (map (\<lambda>(v, vr). soft_deleted q v vr) vs @ rest) (seen r)
    \<and> contents_ok (spec_writes (map (\<lambda>(v, vr). soft_deleted q v vr) vs @ rest) (seen r))"
  using soft_writes_named [OF assms(1,2)] soft_delete_writes [OF reader_okD(2) [OF assms(1)] _ assms(3), of q]
    assms(2,4,5) neutral_writes [OF assms(4)]
  by fastforce

lemma wf_distinct_filter: "wf_table vs \<Longrightarrow> distinct (map fst (filter P vs))"
  by (auto simp: wf_table_def strict_sorted_iff distinct_map inj_on_def intro: distinct_filter)

interpretation delete_subject: verb "DeleteSubject subject permanent" "\<lambda>_. True" for subject permanent
proof
  fix vw :: "'a read_view" and p
  let ?r = "vw_reader vw" and ?q = "qs_parse subject"
  let ?vs = "filter (\<lambda>(_, v). permanent \<or> \<not> vr_deleted v) (rd_list_versions ?r (qs_context ?q) (qs_subject ?q))"
  assume r: "reader_ok ?r" and "mu_plan (DeleteSubject subject permanent) vw = Inr p"
  then have p: "delete_subject_plan ?q permanent vw = Inr p" by (simp add: DeleteSubject_def Let_def)
  note shape = delete_subject_shape [OF p]
  have vs: "(v, vr) \<in> set ?vs \<Longrightarrow> ct_version (seen ?r) (qs_context ?q, qs_subject ?q, v) = Some vr" for v vr
    using reader_sees(5) [OF r] by auto
  show "list_all (within (mu_target (DeleteSubject subject permanent))) (pl_writes p)"
    using hard_deletes_within(1) drop_settings_ok(3) [of ?q]
    by (auto simp: shape(1) DeleteSubject_def Let_def list_all_iff soft_deleted_def) fastforce
  show "keeps_promises (pl_writes p) (seen ?r)"
    by (simp add: shape(1) keeps_promises_rules drop_settings_ok)
  show "list_all write_named (pl_writes p) \<and> spec_ok (pl_writes p) (seen ?r) \<and> contents_ok (spec_writes (pl_writes p) (seen ?r))"
  proof (cases permanent)
    case True
    then show ?thesis using hard_deletes_ok [OF r doomed_ok_subject(1) [OF r vs]] by (simp add: shape(1))
  next
    case False
    then have "nul_free (qs_context ?q)" using delete_subject_named [OF r] p by simp
    note nf = this
    have "distinct (map fst ?vs)" by (rule wf_distinct_filter [OF reader_sees(8) [OF r]])
    from soft_writes_ok [OF r vs this drop_settings_ok(2) drop_settings_ok(1) [OF nf]] show ?thesis
      by (simp only: shape(1) False if_False)
  qed
qed

lemma find_member: "find P xs = Some x \<Longrightarrow> x \<in> set xs"
  by (auto simp: find_Some_iff)

lemma get_exact_sees:
  assumes "reader_ok r" and "get_exact r q spec deleted = Some (v, vr)"
  shows "ct_version (seen r) (qs_context q, qs_subject q, v) = Some vr"
    and "get_exact r q spec False \<noteq> None \<Longrightarrow> \<not> vr_deleted vr"
proof -
  have "(v, vr) \<in> set (rd_list_versions r (qs_context q) (qs_subject q))"
    using assms(2) by (cases spec) (auto simp: get_exact_def Let_def dest!: find_member)
  then show "ct_version (seen r) (qs_context q, qs_subject q, v) = Some vr" using reader_sees(5) [OF assms(1)] by simp
  note uniq = find_unique_key [OF reader_sees(8) [OF assms(1), of "qs_context q" "qs_subject q"]]
  show "\<not> vr_deleted vr" if "get_exact r q spec False \<noteq> None"
  proof (cases spec)
    case VLatest
    then show ?thesis using assms(2) by (auto simp: get_exact_def Let_def find_Some_iff)
  next
    case (VExact n)
    then show ?thesis
      using that assms(2) uniq [of n "\<lambda>x. deleted \<or> \<not> vr_deleted x"] uniq [of n "\<lambda>x. \<not> vr_deleted x"]
      by (auto simp: get_exact_def Let_def)
  qed
qed

lemma delete_version_shape:
  assumes "reader_ok (vw_reader vw)" and "delete_version_plan q spec permanent vw = Inr p"
  obtains v vr where "get_exact (vw_reader vw) q spec True = Some (v, vr)" "pl_output p = v"
    "permanent \<Longrightarrow> vr_deleted vr" "permanent \<Longrightarrow> pl_writes p = fst (hard_deletes (vw_reader vw) [(q, v, vr)] [])"
    "\<not> permanent \<Longrightarrow> \<not> vr_deleted vr"
    "\<not> permanent \<Longrightarrow> pl_writes p = map (\<lambda>(v, vr). soft_deleted q v vr) [(v, vr)] @
      (if list_ex (\<lambda>(w, x). w \<noteq> v \<and> \<not> vr_deleted x) (rd_list_versions (vw_reader vw) (qs_context q) (qs_subject q))
       then [] else drop_settings q)"
proof -
  obtain v vr where any: "get_exact (vw_reader vw) q spec True = Some (v, vr)"
    using assms(2) by (cases "get_exact (vw_reader vw) q spec True") (auto simp: delete_version_plan_def)
  note live = get_exact_sees(2) [OF assms(1) any]
  show thesis
    using that [OF any] assms(2) any live
    by (auto simp: delete_version_plan_def Let_def and_then_Inr_iff split: if_splits prod.splits)
qed

interpretation delete_subject_version: verb "DeleteSubjectVersion subject spec permanent" "\<lambda>_. True" for subject spec permanent
proof
  fix vw :: "'a read_view" and p
  let ?r = "vw_reader vw" and ?q = "qs_parse subject"
  assume r: "reader_ok ?r" and "mu_plan (DeleteSubjectVersion subject spec permanent) vw = Inr p"
  then have p: "delete_version_plan ?q spec permanent vw = Inr p" by (simp add: DeleteSubjectVersion_def Let_def)
  obtain v vr where any: "get_exact ?r ?q spec True = Some (v, vr)"
    and hard: "permanent \<Longrightarrow> pl_writes p = fst (hard_deletes ?r [(?q, v, vr)] [])"
    and soft: "\<not> permanent \<Longrightarrow> pl_writes p = map (\<lambda>(v, vr). soft_deleted ?q v vr) [(v, vr)] @
      (if list_ex (\<lambda>(w, x). w \<noteq> v \<and> \<not> vr_deleted x) (rd_list_versions ?r (qs_context ?q) (qs_subject ?q))
       then [] else drop_settings ?q)"
    using delete_version_shape [OF r p] by metis
  note ver = get_exact_sees(1) [OF r any]
  have vs: "ct_version (seen ?r) (qs_context ?q, qs_subject ?q, w) = Some wr" if "(w, wr) \<in> set [(v, vr)]" for w wr
    using that ver by simp
  note nf = reader_sees(7) [OF r ver]
  show "list_all (within (mu_target (DeleteSubjectVersion subject spec permanent))) (pl_writes p)"
    using hard_deletes_within(1) drop_settings_ok(3) [of ?q] hard soft
    by (cases permanent) (auto simp: DeleteSubjectVersion_def Let_def list_all_iff soft_deleted_def, fastforce)
  show "keeps_promises (pl_writes p) (seen ?r)"
    using hard soft keeps_promises_soft [of ?q "[(v, vr)]"] keeps_promises_neutral [OF drop_settings_ok(2), of ?q]
    by (cases permanent) (simp_all only: keeps_promises_simps keeps_promises_hard simp_thms split: if_split)
  show "list_all write_named (pl_writes p) \<and> spec_ok (pl_writes p) (seen ?r) \<and> contents_ok (spec_writes (pl_writes p) (seen ?r))"
  proof (cases permanent)
    case True
    have "doomed_ok ?r [(?q, v, vr)] []" using doomed_ok_subject(2) [OF r, of "[(v, vr)]" ?q] vs by simp
    from hard_deletes_ok [OF r this] show ?thesis using hard [OF True] by simp
  next
    case False
    have d: "distinct (map fst [(v, vr)])" by simp
    show ?thesis
      unfolding soft [OF False]
      by (rule soft_writes_ok [OF r vs d]) (use drop_settings_ok [of ?q] nf in auto)
  qed
qed

section \<open>The settings\<close>

lemma target_named:
  "named_target (target_of s) \<Longrightarrow> scope_ok (scope_of s)"
  "named_target (target_of (Some q)) \<Longrightarrow> scope_ok (scope_for q)"
  by (auto simp: target_of_def scope_of_def scope_for_def qs_named_def split: option.splits if_splits)

lemma scope_within:
  "within (target_of s) (WPutConfig (scope_of s) rec)" "within (target_of s) (WDeleteConfig (scope_of s))"
  "within (target_of s) (WPutMode (scope_of s) mode)" "within (target_of s) (WDeleteMode (scope_of s))"
  by (auto simp: target_of_def scope_of_def scope_for_def split: option.splits)

interpretation update_compatibility: verb "UpdateCompatibility subject update"
  "\<lambda>_. named_target (target_of (map_option qs_parse subject))" for subject update
  using neutral_writes [of "[WPutConfig sc rec]" for sc rec]
  by unfold_locales (auto simp: UpdateCompatibility_def update_compatibility_plan_def Let_def target_named scope_within
    reader_okD(2) intro!: keeps_promises_neutral simp del: spec_write.simps)

interpretation delete_subject_config: verb "DeleteSubjectConfig subject"
  "\<lambda>_. named_target (target_of (map_option qs_parse subject))" for subject
  using neutral_writes [of "[WDeleteConfig sc]" for sc]
  by unfold_locales (auto simp: DeleteSubjectConfig_def delete_config_plan_def Let_def target_named scope_within
    and_then_Inr_iff reader_okD(2) intro!: keeps_promises_neutral simp del: spec_write.simps)

interpretation delete_mode: verb "DeleteMode subject" "\<lambda>_. named_target (target_of (Some (qs_parse subject)))" for subject
  using neutral_writes [of "[WDeleteMode sc]" for sc] scope_within(4) [of "Some q" for q]
  by unfold_locales (auto simp: DeleteMode_def delete_mode_plan_def Let_def target_named scope_of_def
    and_then_Inr_iff reader_okD(2) intro!: keeps_promises_neutral simp del: spec_write.simps)

interpretation delete_context: verb "delete_context_verb ctx" "\<lambda>_. nul_free ctx" for ctx
proof
  fix vw :: "'a read_view" and p
  let ?r = "vw_reader vw"
  assume r: "reader_ok ?r" and "mu_plan (delete_context_verb ctx) vw = Inr p"
  then have p: "pl_writes p = [WDeleteContext ctx, WDeleteConfig (ScContext ctx), WDeleteMode (ScContext ctx)]"
    and empty: "rd_list_subject_names ?r ctx = []"
    by (auto simp: delete_context_verb_def delete_context_plan_def split: if_splits)
  show "list_all (within (mu_target (delete_context_verb ctx))) (pl_writes p)" by (simp add: p delete_context_verb_def)
  show "keeps_promises (pl_writes p) (seen ?r)" by (simp add: p keeps_promises_def)
  have "\<forall>u v. ct_version (seen ?r) (ctx, u, v) = None" using reader_sees(6) [OF r, of _ ctx] empty by auto
  then show "list_all write_named (pl_writes p) \<and> spec_ok (pl_writes p) (seen ?r) \<and> contents_ok (spec_writes (pl_writes p) (seen ?r))"
    using reader_okD(2) [OF r] neutral_writes(2) [of "[WDeleteConfig (ScContext ctx), WDeleteMode (ScContext ctx)]" "seen ?r"]
    by (simp add: p)
qed

lemma doomed_versions_all:
  assumes "doomed_versions vw subject = Inr doomed"
  shows "doomed = concat (map (\<lambda>sq. map (\<lambda>(v, vr). (sq, v, vr)) (rd_list_versions (vw_reader vw) (qs_context sq) (qs_subject sq)))
    (subjects_in_scope vw subject))"
proof -
  let ?xs = "concat (map (\<lambda>sq. map (\<lambda>(v, vr). (sq, v, vr)) (rd_list_versions (vw_reader vw) (qs_context sq) (qs_subject sq)))
    (subjects_in_scope vw subject))"
  have "list_all2 (\<lambda>x y. (case x of (sq, v, vr) \<Rightarrow> map_ok (\<lambda>_. (sq, v, vr)) (check_not_referenced (vw_reader vw) sq v)) = Inr y) ?xs doomed"
    using assms unfolding doomed_versions_def Let_def collect_ok_Inr .
  then have "list_all2 (=) ?xs doomed" by (rule list_all2_mono) (auto simp: map_ok_Inr_iff)
  then show ?thesis by (simp add: list.rel_eq)
qed

lemma doomed_versions_ok:
  assumes "reader_ok (vw_reader vw)" and "doomed_versions vw subject = Inr doomed"
  shows "doomed_ok (vw_reader vw) doomed (map (\<lambda>(q, v, _). (qs_subject q, v)) doomed)"
proof -
  let ?r = "vw_reader vw"
  have mem: "(q, v, vr) \<in> set doomed \<longleftrightarrow> q \<in> set (subjects_in_scope vw subject)
      \<and> ct_version (seen ?r) (qs_context q, qs_subject q, v) = Some vr" for q v vr
    unfolding doomed_versions_all [OF assms(2)] by (force simp: reader_sees(5) [OF assms(1)] image_iff)
  have "(qs_context q, qs_subject q, w) \<in> version_key_of ` set doomed"
    if "(q, v, vr) \<in> set doomed" "ct_version (seen ?r) (qs_context q, qs_subject q, w) = Some wr" for q v vr w wr
  proof -
    have "(q, w, wr) \<in> set doomed" using that by (simp add: mem)
    then show ?thesis by (force simp: version_key_of_def)
  qed
  then show ?thesis unfolding doomed_ok_def using mem by fast
qed

lemma doomed_context:
  assumes "doomed_versions vw (Some q) = Inr doomed" and "(sq, v, vr) \<in> set doomed"
  shows "qs_context sq = qs_context q"
  using assms(2) unfolding doomed_versions_all [OF assms(1)]
  by (auto simp: subjects_in_scope_def qs_new_def split: if_splits)

lemma set_mode_shape:
  assumes "set_mode_plan subject mode force vw = Inr p"
  obtains doomed where "pl_writes p = fst (hard_deletes (vw_reader vw) doomed (map (\<lambda>(q, v, _). (qs_subject q, v)) doomed))
      @ [WPutMode (scope_of subject) mode]" and "doomed = [] \<or> doomed_versions vw subject = Inr doomed"
proof -
  have none: "fst (hard_deletes (vw_reader vw) [] []) = []" by (simp add: hard_deletes_def)
  show thesis
    using assms that [of "[]"] that none
    by (auto simp: set_mode_plan_def Let_def map_ok_Inr_iff split: if_splits option.splits) (metis fst_conv)+
qed

interpretation set_mode: verb "SetMode subject mode force" "\<lambda>_. named_target (target_of (map_option qs_parse subject))"
  for subject mode force
proof
  fix vw :: "'a read_view" and p
  let ?r = "vw_reader vw" and ?s = "map_option qs_parse subject"
  assume r: "reader_ok ?r" and "mu_plan (SetMode subject mode force) vw = Inr p"
  then have p: "set_mode_plan ?s mode force vw = Inr p" by (simp add: SetMode_def Let_def)
  obtain doomed where ws: "pl_writes p = fst (hard_deletes ?r doomed (map (\<lambda>(q, v, _). (qs_subject q, v)) doomed))
      @ [WPutMode (scope_of ?s) mode]" and d: "doomed = [] \<or> doomed_versions vw ?s = Inr doomed"
    by (rule set_mode_shape [OF p])
  have ok: "doomed_ok ?r doomed (map (\<lambda>(q, v, _). (qs_subject q, v)) doomed)"
    using d doomed_versions_ok [OF r, of ?s doomed] by (elim disjE) (simp_all add: doomed_ok_def)
  have "within (target_of ?s) w" if "w \<in> set (fst (hard_deletes ?r doomed (map (\<lambda>(q, v, _). (qs_subject q, v)) doomed)))" for w
    using hard_deletes_within [OF that] d doomed_context [of vw _ doomed]
    by (cases subject) (force simp: target_of_def)+
  then show "list_all (within (mu_target (SetMode subject mode force))) (pl_writes p)"
    using scope_within(3) [of ?s mode] by (simp add: ws SetMode_def Let_def list_all_iff)
  show "keeps_promises (pl_writes p) (seen ?r)" by (simp add: ws keeps_promises_hard keeps_promises_neutral)
  assume "named_target (target_of ?s)"
  then show "list_all write_named (pl_writes p) \<and> spec_ok (pl_writes p) (seen ?r) \<and> contents_ok (spec_writes (pl_writes p) (seen ?r))"
    using hard_deletes_ok [OF r ok] neutral_writes [of "[WPutMode (scope_of ?s) mode]"] target_named(1) [of ?s]
    by (simp add: ws)
qed

section \<open>The exporters\<close>

lemma exporter_writes_ok:
  assumes "list_all is_exporter_write ws" and "reader_ok r"
  shows "list_all write_named ws \<and> spec_ok ws (seen r) \<and> contents_ok (spec_writes ws (seen r))" and "keeps_promises ws (seen r)"
proof -
  have "is_exporter_write w \<Longrightarrow> neutral w \<and> write_named w" for w by (cases w) auto
  then have ws: "list_all neutral ws" "list_all write_named ws" using assms(1) by (auto simp: list_all_iff)
  show "list_all write_named ws \<and> spec_ok ws (seen r) \<and> contents_ok (spec_writes ws (seen r))"
    using ws neutral_writes reader_okD(2) [OF assms(2)] by blast
  show "keeps_promises ws (seen r)" by (rule keeps_promises_neutral [OF ws(1)])
qed

lemma exporter_verb_contract:
  fixes plan :: "'a read_view \<Rightarrow> 'b plan api_result"
  assumes "\<And>vw p. plan vw = Inr p \<Longrightarrow> list_all is_exporter_write (pl_writes p)"
  shows "verb (exporter_verb plan) (\<lambda>_. True)"
proof
  fix vw :: "'a read_view" and p
  assume r: "reader_ok (vw_reader vw)" and "mu_plan (exporter_verb plan) vw = Inr p"
  then have ws: "list_all is_exporter_write (pl_writes p)" using assms by (simp add: exporter_verb_def)
  show "list_all (within (mu_target (exporter_verb plan))) (pl_writes p)" using ws by (simp add: exporter_verb_def list_all_iff)
  show "list_all write_named (pl_writes p) \<and> spec_ok (pl_writes p) (seen (vw_reader vw))
      \<and> contents_ok (spec_writes (pl_writes p) (seen (vw_reader vw)))"
    by (rule exporter_writes_ok(1) [OF ws r])
  show "keeps_promises (pl_writes p) (seen (vw_reader vw))" by (rule exporter_writes_ok(2) [OF ws r])
qed

interpretation create_exporter: verb "CreateExporter req" "\<lambda>_. True" for req
  unfolding CreateExporter_def
  by (rule exporter_verb_contract) (auto simp: create_exporter_plan_def Let_def exporter_plan_def map_ok_Inr_iff split: if_splits)

interpretation update_exporter: verb "UpdateExporter name req" "\<lambda>_. True" for name req
  unfolding UpdateExporter_def
  by (rule exporter_verb_contract) (auto simp: update_exporter_plan_def Let_def exporter_plan_def map_ok_Inr_iff and_then_Inr_iff)

interpretation delete_exporter: verb "DeleteExporter name" "\<lambda>_. True" for name
  unfolding DeleteExporter_def
  by (rule exporter_verb_contract) (auto simp: delete_exporter_plan_def map_ok_Inr_iff)

interpretation transition_exporter: verb "TransitionExporter name action" "\<lambda>_. True" for name action
  unfolding TransitionExporter_def
  by (rule exporter_verb_contract) (auto simp: transition_plan_def exporter_plan_def map_ok_Inr_iff and_then_Inr_iff)

interpretation restore_exporter: verb "RestoreExporter rec" "\<lambda>_. True" for rec
proof
  fix vw :: "'a read_view" and p
  assume r: "reader_ok (vw_reader vw)" and "mu_plan (RestoreExporter rec) vw = Inr p"
  then have ws: "list_all is_exporter_write (pl_writes p)"
    by (auto simp: RestoreExporter_def restore_exporter_plan_def map_ok_Inr_iff split: if_splits)
  show "list_all (within (mu_target (RestoreExporter rec))) (pl_writes p)" using ws by (simp add: RestoreExporter_def list_all_iff)
  show "list_all write_named (pl_writes p) \<and> spec_ok (pl_writes p) (seen (vw_reader vw))
      \<and> contents_ok (spec_writes (pl_writes p) (seen (vw_reader vw)))"
    by (rule exporter_writes_ok(1) [OF ws r])
  show "keeps_promises (pl_writes p) (seen (vw_reader vw))" by (rule exporter_writes_ok(2) [OF ws r])
qed

lemma u32_as_i32_range: "i32_range (u32_as_i32 w)"
proof -
  have "n < 2 ^ 32 \<Longrightarrow> i32_range (if n < 2 ^ 31 then int n else int n - 2 ^ 32)" for n :: nat by (auto simp: i32_range_def)
  moreover have "unat w < 2 ^ 32" using unsigned_less [of w] by simp
  ultimately show ?thesis unfolding u32_as_i32_def by blast
qed

lemma resolve_loop_named:
  assumes "reader_ok r" and "resolve_loop r ctx refs concrete0 targets0 st = Inr (concrete, out, targets)"
    and "list_all (\<lambda>sr. qs_named (ref_target ctx sr)) concrete0" and "list_all (\<lambda>(t, v). qs_named t) targets0"
  shows "list_all (\<lambda>sr. qs_named (ref_target ctx sr)) concrete \<and> list_all (\<lambda>(t, v). qs_named t) targets"
  using assms(2-)
proof (induction refs arbitrary: concrete0 targets0 st)
  case (Cons rin refs)
  obtain name subject version spec v vr st' where
    q: "get_exact r (ref_target ctx \<lparr>ref_name = name, ref_subject = subject, ref_version = version\<rparr>) spec True = Some (v, vr)"
    and rest: "resolve_loop r ctx refs (concrete0 @ [\<lparr>ref_name = name, ref_subject = subject, ref_version = u32_as_i32 v\<rparr>])
        (targets0 @ [(ref_target ctx \<lparr>ref_name = name, ref_subject = subject, ref_version = version\<rparr>, v)]) st' = Inr (concrete, out, targets)"
    using Cons.prems(1)
    by (auto simp: Let_def and_then_Inr_iff ok_or_Inr_iff message_of_Inr_iff split: if_splits option.splits)
  have "qs_named (ref_target ctx \<lparr>ref_name = name, ref_subject = subject, ref_version = w\<rparr>)" for w
    using reader_sees(7) [OF assms(1) get_exact_sees(1) [OF assms(1) q]] by (simp add: qs_named_def ref_target_def Let_def)
  then show ?case using Cons.IH [OF rest] Cons.prems(2,3) by simp
qed simp

lemma canonicalize_named:
  assumes "reader_ok r" and "canonicalize F r q d is_new norm = Inr (Some c)"
  shows "list_all (\<lambda>sr. qs_named (ref_target (qs_context q) sr)) (cn_refs c)" and "list_all (\<lambda>(t, v). qs_named t) (cn_targets c)"
proof -
  obtain body where body: "dr_schema d = Some body" "\<not> is_blank body"
    using assms(2) by (cases "dr_schema d") (auto simp: canonicalize_def split: if_split_asm)
  obtain ty where step: "(case resolve_references r (qs_context q) (dr_refs d) of
      Inl detail \<Rightarrow> Inl (draft_invalid d q ParseFailure detail)
    | Inr (refs, resolved, targets) \<Rightarrow>
        (case parse_cached F (rd_reg r) ty body resolved (norm \<and> is_new) of
           Inl e \<Rightarrow> Inl (draft_invalid d q (se_kind e) (se_message e))
         | Inr p \<Rightarrow>
             (case (if norm then ps_normalize_error p else None) of
                Some e \<Rightarrow> Inl (draft_invalid d q ValidateFailure e)
              | None \<Rightarrow> Inr (Some
                  \<lparr>cn_schema_type = ty, cn_text = (if norm then ps_normalized p else ps_canonical p),
                   cn_refs = refs, cn_targets = targets, cn_metadata = dr_metadata d,
                   cn_rule_set = dr_rule_set d, cn_parsed = p\<rparr>)))) = Inr (Some c)"
    using assms(2) body unfolding canonicalize_def by (simp only: option.case if_False and_then_Inr_iff) blast
  obtain refs resolved targets where res: "resolve_references r (qs_context q) (dr_refs d) = Inr (refs, resolved, targets)"
    using step by (cases "resolve_references r (qs_context q) (dr_refs d)") auto
  have c: "cn_refs c = refs" "cn_targets c = targets" using step unfolding res by (auto split: sum.split_asm option.split_asm)
  show "list_all (\<lambda>sr. qs_named (ref_target (qs_context q) sr)) (cn_refs c)" "list_all (\<lambda>(t, v). qs_named t) (cn_targets c)"
    using resolve_loop_named [OF assms(1), of "qs_context q" "dr_refs d" "[]" "[]"] res c
    by (simp_all add: resolve_references_def)
qed

lemma populate_keeps_id:
  assumes "populate_from_previous r q cfg d0 live n = Inr (d, modified)"
  shows "dr_id d = dr_id d0" and "dr_version d = dr_version d0"
proof -
  obtain previous d1 b where h: "inherit_schema previous d0 = Inr (d1, b)" "inherit_contract cfg previous d1 b n = Inr (d, modified)"
    using assms by (auto simp: populate_from_previous_def and_then_Inr_iff)
  have "dr_id d1 = dr_id d0 \<and> dr_version d1 = dr_version d0"
    using h(1) by (auto simp: inherit_schema_def split: if_split_asm option.split_asm)
  moreover have "dr_id d = dr_id d1 \<and> dr_version d = dr_version d1"
    using h(2) by (auto simp: inherit_contract_def Let_def and_then_Inr_iff split: if_split_asm)
  ultimately show "dr_id d = dr_id d0" "dr_version d = dr_version d0" by simp_all
qed

lemma by_hash_range: "by_hash F r q d canon = Inr schema_id \<Longrightarrow> i32_range (dr_id d) \<Longrightarrow> i32_range schema_id"
  using u32_as_i32_range by (auto simp: by_hash_def split: option.split_asm if_split_asm prod.split_asm)

lemma register_canonical_shape:
  assumes "register_canonical F vw q d modified canon = Inr p"
  obtains (known) e where "p = plan_new (answer modified e)"
  | (stored) schema_id where "by_hash F (vw_reader vw) q d canon = Inr schema_id"
      "register_new F vw q d modified canon schema_id = Inr p"
  using assms unfolding register_canonical_def Let_def
  by (auto simp: and_then_Inr_iff split: sum.split_asm option.split_asm)

lemma register_new_shape:
  assumes "register_new F vw q d modified canon schema_id = Inr p"
  obtains c version i where "canon = Some c"
    "check_register F (vw_reader vw) q (config_in_scope (vw_reader vw) q) (mode_for vw (TSubject q) = Import) c = Inr ()"
    "choose_version d (mode_for vw (TSubject q) = Import) (next_version (rd_list_versions (vw_reader vw) (qs_context q) (qs_subject q))) = Inr version"
    "choose_id (vw_reader vw) q (canon_fingerprint F c) schema_id = Inr i"
    "p = store_plan F vw q modified c version i (rd_list_versions (vw_reader vw) (qs_context q) (qs_subject q))"
  using assms unfolding register_new_def Let_def by (auto simp: and_then_Inr_iff ok_or_Inr_iff)

lemma register_plan_shape:
  assumes "register_plan F q draft norm vw = Inr p"
  obtains d modified canon where "dr_id d = dr_id draft" "dr_version d = dr_version draft"
    "canonicalize F (vw_reader vw) q d (dr_id d < 0) (register_normalize (vw_reader vw) q norm) = Inr canon"
    "register_canonical F vw q d modified canon = Inr p"
proof -
  obtain d modified canon where pop: "(if mode_for vw (TSubject q) = Import then Inr (draft, False)
      else populate_from_previous (vw_reader vw) q (config_in_scope (vw_reader vw) q) draft
        (case filter (\<lambda>(_, v). \<not> vr_deleted v) (rev (rd_list_versions (vw_reader vw) (qs_context q) (qs_subject q))) of
           [] \<Rightarrow> None | x # _ \<Rightarrow> Some x) (next_version (rd_list_versions (vw_reader vw) (qs_context q) (qs_subject q)))) = Inr (d, modified)"
    and rest: "canonicalize F (vw_reader vw) q d (dr_id d < 0) (register_normalize (vw_reader vw) q norm) = Inr canon"
      "register_canonical F vw q d modified canon = Inr p"
    using assms unfolding register_plan_def Let_def and_then_Inr_iff by (auto simp only: case_prod_conv and_then_Inr_iff)
  have "dr_id d = dr_id draft \<and> dr_version d = dr_version draft"
    using pop by (auto dest: populate_keeps_id split: if_split_asm)
  then show thesis using that rest by blast
qed

lemma frees_unused_append: "frees_unused xs a \<Longrightarrow> frees_unused ys a \<Longrightarrow> frees_unused (xs @ ys) a"
  unfolding frees_unused_def gone_bodies_def gone_versions_def by fastforce

lemma stored_record_named:
  assumes "reader_ok (vw_reader vw)" and "list_all (\<lambda>sr. qs_named (ref_target (qs_context q) sr)) (cn_refs c)"
  shows "refs_named (qs_context q) (stored_record F vw q c i)"
  using assms(2) contents_okD(3) [OF reader_okD(2) [OF assms(1)], of "qs_context q" i]
  by (auto simp: stored_record_def Let_def refs_named_def reader_sees(2) [OF assms(1)] split: option.split)

lemma chosen_id_not_last:
  assumes "reader_ok r" and "ids_left (rd_reg r)" and "i32_range schema_id" and "choose_id r q fp schema_id = Inr i"
  shows "i \<noteq> - 1"
proof (cases "schema_id \<ge> 0")
  case True
  then have i: "i = of_int schema_id" using assms(4) by (auto simp: choose_id_def Let_def split: if_split_asm)
  have "uint i = schema_id" using True assms(3) unfolding i by (simp add: i32_range_def uint_word_of_int_eq take_bit_int_eq_self)
  moreover have "uint (- 1 :: u32) = 2 ^ 32 - 1" by (simp add: unsigned_minus_1_eq_mask mask_eq_exp_minus_1)
  ultimately show ?thesis using assms(3) by (auto simp: i32_range_def)
next
  case False
  then have "i = unwrap_or (ct_next (seen r) (qs_context q)) 1"
    using assms(4) reader_sees(3) [OF assms(1)] by (auto simp: choose_id_def)
  then show ?thesis using assms(2) by (cases "ct_next (seen r) (qs_context q)") (auto simp: ids_left_def)
qed

lemma store_writes_ok:
  fixes u :: string and v :: u32
  assumes "contents_ok a" and "refs_named c rec" and "i \<noteq> - 1" and "vr_id vr = i"
  defines "ws \<equiv> [WPutSchema c i rec True] @ (if i \<ge> unwrap_or (ct_next a c) 1 then [WSetNextId c (i + 1)] else []) @ [WPutVersion c u v vr]"
  shows "contents_ok (spec_writes ws a)" and "spec_ok ws a"
proof -
  have "1 + i \<noteq> 0" using assms(3) by (simp add: add_eq_0_iff)
  then have up: "i < i + 1" using unatSuc [of i] by (simp add: word_less_nat_alt add.commute)
  have below: "vr_id wr < i + 1" if "ct_version a (c, u', w) = Some wr" "unwrap_or (ct_next a c) 1 \<le> i" for u' w wr
    using contents_okD(2) [OF assms(1) that(1)] that(2) up by simp
  show "spec_ok ws a" unfolding ws_def by simp
  show "contents_ok (spec_writes ws a)"
    using assms(1,2,4) up below unfolding ws_def contents_ok_def by auto
qed

lemma register_deletes_ok:
  assumes "reader_ok (vw_reader vw)"
  defines "versions \<equiv> \<lambda>q. rd_list_versions (vw_reader vw) (qs_context q) (qs_subject q)"
  shows "doomed_ok (vw_reader vw) (replaced q version (versions q)) []"
    and "doomed_ok (vw_reader vw) (stale q version i (versions q)) (map (\<lambda>(_, v, _). (qs_subject q, v)) (stale q version i (versions q)))"
proof -
  let ?r = "vw_reader vw"
  note see = reader_sees(5) [OF assms(1), of _ _ "qs_context q" "qs_subject q"]
  have "(version, old) \<in> set (versions q)" if "find (\<lambda>(v, _). v = version) (versions q) = Some (w, old)" for w old
    using find_member [OF that] that by (auto simp: find_Some_iff)
  then show "doomed_ok ?r (replaced q version (versions q)) []"
    by (cases "find (\<lambda>(v, _). v = version) (versions q)") (auto simp: doomed_ok_def replaced_def versions_def see)
  let ?vs = "filter (\<lambda>(v, vr). vr_deleted vr \<and> vr_id vr = i \<and> v < version) (versions q)"
  have vs: "(v, vr) \<in> set ?vs \<Longrightarrow> ct_version (seen ?r) (qs_context q, qs_subject q, v) = Some vr" for v vr
    by (auto simp: versions_def see)
  have st: "stale q version i (versions q) = map (\<lambda>(v, vr). (q, v, vr)) ?vs"
    and ks: "map (\<lambda>(_, v, _). (qs_subject q, v)) (stale q version i (versions q)) = map (\<lambda>(v, _). (qs_subject q, v)) ?vs"
    by (simp_all add: stale_def case_prod_beta comp_def)
  show "doomed_ok ?r (stale q version i (versions q)) (map (\<lambda>(_, v, _). (qs_subject q, v)) (stale q version i (versions q)))"
    unfolding ks unfolding st by (rule doomed_ok_subject(1) [OF assms(1) vs])
qed

lemma store_plan_writes:
  "pl_writes (store_plan F vw q modified c version i (rd_list_versions (vw_reader vw) (qs_context q) (qs_subject q)))
    = register_removes vw q version i @ ([WPutSchema (qs_context q) i (stored_record F vw q c i) True]
      @ (if i \<ge> rd_next_id (vw_reader vw) (qs_context q) then [WSetNextId (qs_context q) (i + 1)] else [])
      @ [WPutVersion (qs_context q) (qs_subject q) version \<lparr>vr_id = i, vr_deleted = False, vr_ts = vw_now vw\<rparr>])
      @ map (\<lambda>(t, v). WPutRefby (qs_context t) (qs_subject t) v i) (cn_targets c)"
  by (simp add: store_plan_def register_removes_def Let_def split: prod.split)

lemma register_removes_ok:
  assumes "reader_ok (vw_reader vw)"
  shows "list_all write_named (register_removes vw q version i)" and "list_all is_deletion (register_removes vw q version i)"
    and "spec_ok (register_removes vw q version i) (seen (vw_reader vw))"
    and "contents_ok (spec_writes (register_removes vw q version i) (seen (vw_reader vw)))"
    and "list_all (write_in (qs_context q)) (register_removes vw q version i)"
proof -
  let ?r = "vw_reader vw" and ?vs = "rd_list_versions (vw_reader vw) (qs_context q) (qs_subject q)"
  note a = hard_deletes_shape [OF assms register_deletes_ok(1) [OF assms, of q version]]
    and b = hard_deletes_shape [OF assms register_deletes_ok(2) [OF assms, of q version i]]
  show named: "list_all write_named (register_removes vw q version i)"
    using a(2) b(2) by (simp add: register_removes_def Let_def)
  show del: "list_all is_deletion (register_removes vw q version i)"
    using a(1) b(1) by (simp add: register_removes_def Let_def)
  show "spec_ok (register_removes vw q version i) (seen ?r)"
    by (rule deletions_ok [OF del]) (use a(4) b(4) in \<open>auto simp: register_removes_def Let_def\<close>)
  have "frees_unused (register_removes vw q version i) (seen ?r)"
    unfolding register_removes_def Let_def by (rule frees_unused_append [OF a(3) b(3)])
  then show "contents_ok (spec_writes (register_removes vw q version i) (seen ?r))"
    by (rule deletions_contents_ok [OF reader_okD(2) [OF assms] del])
  have "(sq, v, vr) \<in> set (replaced q version ?vs) \<union> set (stale q version i ?vs) \<Longrightarrow> sq = q" for sq v vr
    by (auto simp: replaced_def stale_def split: option.split_asm)
  then show "list_all (write_in (qs_context q)) (register_removes vw q version i)"
    by (fastforce simp: list_all_iff register_removes_def Let_def dest!: hard_deletes_within(1))
qed

lemma store_plan_ok:
  fixes F :: "'p formats" and vw :: "'p read_view" and modified :: bool and version :: u32
  assumes r: "reader_ok (vw_reader vw)" and q: "qs_named q" and i: "i \<noteq> - 1"
    and refs: "list_all (\<lambda>sr. qs_named (ref_target (qs_context q) sr)) (cn_refs c)" and targets: "list_all (\<lambda>(t, v). qs_named t) (cn_targets c)"
  defines "p \<equiv> store_plan F vw q modified c version i (rd_list_versions (vw_reader vw) (qs_context q) (qs_subject q))"
  shows "list_all write_named (pl_writes p) \<and> spec_ok (pl_writes p) (seen (vw_reader vw))
      \<and> contents_ok (spec_writes (pl_writes p) (seen (vw_reader vw)))"
proof -
  let ?r = "vw_reader vw" and ?del = "register_removes vw q version i"
  let ?a = "spec_writes ?del (seen ?r)"
  let ?put = "[WPutSchema (qs_context q) i (stored_record F vw q c i) True]
      @ (if i \<ge> rd_next_id ?r (qs_context q) then [WSetNextId (qs_context q) (i + 1)] else [])
      @ [WPutVersion (qs_context q) (qs_subject q) version \<lparr>vr_id = i, vr_deleted = False, vr_ts = vw_now vw\<rparr>]"
  let ?edges = "map (\<lambda>(t, v). WPutRefby (qs_context t) (qs_subject t) v i) (cn_targets c)"
  note del = register_removes_ok [OF r, of q version i]
  have nid: "rd_next_id ?r (qs_context q) = unwrap_or (ct_next ?a (qs_context q)) 1"
    using reader_sees(3) [OF r] deletions_effect(3) [OF del(2)] by simp
  have put: "contents_ok (spec_writes ?put ?a)" "spec_ok ?put ?a"
    unfolding nid by (rule store_writes_ok [OF del(4) stored_record_named [OF r refs] i]; simp)+
  have "list_all neutral ?edges" by (auto simp: list_all_iff)
  note edges = neutral_writes [OF this]
  have "list_all write_named (?del @ ?put @ ?edges)"
    using del(1) q targets by (auto simp: list_all_iff qs_named_def)
  then show ?thesis using del(3) put edges unfolding p_def store_plan_writes by (simp only: spec_ok_append spec_writes_simps simp_thms)
qed

lemma chosen_id_promise:
  assumes r: "reader_ok (vw_reader vw)" and i: "choose_id (vw_reader vw) q (canon_fingerprint F c) schema_id = Inr i"
    and used: "id_used (seen (vw_reader vw)) (qs_context q) i"
  shows "ct_body (seen (vw_reader vw)) (qs_context q, i) = Some (stored_record F vw q c i)"
proof -
  let ?r = "vw_reader vw"
  obtain u v vr where vr: "ct_version (seen ?r) (qs_context q, u, v) = Some vr" "vr_id vr = i" using used by (auto simp: id_used_def)
  note ok = contents_okD(1,2) [OF reader_okD(2) [OF r] vr(1)]
  obtain rec where rec: "ct_body (seen ?r) (qs_context q, i) = Some rec" using ok(1) vr(2) by auto
  have "(u, v) \<in> set (rd_id_usages ?r (qs_context q) i)" using vr by (simp add: reader_sees(4) [OF r])
  then have "rd_id_usages ?r (qs_context q) i \<noteq> []" by auto
  moreover have "schema_id \<ge> 0"
    using i ok(2) vr(2) by (auto simp: choose_id_def reader_sees(3) [OF r] split: if_split_asm)
  ultimately have "sr_fingerprint rec = canon_fingerprint F c"
    using i rec by (auto simp: choose_id_def Let_def reader_sees(2) [OF r] split: if_split_asm)
  then show ?thesis by (simp add: rec stored_record_def Let_def reader_sees(2) [OF r])
qed

interpretation register: verb "register_verb F q d norm" "\<lambda>reg. qs_named q \<and> i32_range (dr_id d) \<and> ids_left reg" for F q d norm
proof
  fix vw :: "'a read_view" and p
  let ?r = "vw_reader vw"
  assume r: "reader_ok ?r" and "mu_plan (register_verb F q d norm) vw = Inr p"
  then have p: "register_plan F q d norm vw = Inr p" by (simp add: register_verb_def)
  obtain d' modified canon where d': "dr_id d' = dr_id d"
    and can: "canonicalize F ?r q d' (dr_id d' < 0) (register_normalize ?r q norm) = Inr canon"
    and step: "register_canonical F vw q d' modified canon = Inr p"
    using register_plan_shape [OF p] by metis
  from step have "list_all (within (mu_target (register_verb F q d norm))) (pl_writes p) \<and> keeps_promises (pl_writes p) (seen ?r) \<and>
     (qs_named q \<and> i32_range (dr_id d) \<longrightarrow> ids_left (vw_reg vw) \<longrightarrow>
      list_all write_named (pl_writes p) \<and> spec_ok (pl_writes p) (seen ?r) \<and> contents_ok (spec_writes (pl_writes p) (seen ?r)))"
  proof (cases rule: register_canonical_shape)
    case (known e)
    then show ?thesis using reader_okD(2) [OF r] by simp
  next
    case (stored schema_id)
    obtain c version i where c: "canon = Some c" and i: "choose_id ?r q (canon_fingerprint F c) schema_id = Inr i"
      and p: "p = store_plan F vw q modified c version i (rd_list_versions ?r (qs_context q) (qs_subject q))"
      using register_new_shape [OF stored(2)] by metis
    note named = canonicalize_named [OF r can [unfolded c]]
    have "i \<noteq> - 1" if "i32_range (dr_id d)" "ids_left (vw_reg vw)"
      using chosen_id_not_last [OF r that(2) by_hash_range [OF stored(1)] i] that(1) d' by simp
    moreover have "list_all (within (mu_target (register_verb F q d norm))) (pl_writes p)"
      using register_removes_ok(5) [OF r, of q version i] unfolding p store_plan_writes
      by (auto simp: register_verb_def list_all_iff)
    moreover have "keeps_promises (pl_writes p) (seen ?r)"
      using keeps_promises_deletion [OF register_removes_ok(2) [OF r, of q version i], of "seen ?r"] chosen_id_promise [OF r i]
      unfolding p store_plan_writes keeps_promises_simps by (auto simp: keeps_promises_def)
    ultimately show ?thesis using store_plan_ok [OF r _ _ named] p by blast
  qed
  then show "list_all (within (mu_target (register_verb F q d norm))) (pl_writes p)"
    and "keeps_promises (pl_writes p) (seen ?r)" and "qs_named q \<and> i32_range (dr_id d) \<and> ids_left (vw_reg vw) \<Longrightarrow>
      list_all write_named (pl_writes p) \<and> spec_ok (pl_writes p) (seen ?r) \<and> contents_ok (spec_writes (pl_writes p) (seen ?r))"
    by blast+
qed

end
