(* ===== verification/Reachable.thy ===== *)
theory Reachable
  imports Contracts
begin

text \<open>
  The running registry: one rule per request of the API, the exporter worker's updates, the fills of the
  caches by readers, and restarts.  Every request is shown to be lawful - gated by the mode of its target,
  confined to it, and faithful to the ids in use - and every reachable state to be well formed; the
  theorems about whole runs follow.
\<close>

section \<open>Requests\<close>

text \<open>A request ran to its answer: the lock-free view is of any state, the plan of the current one.\<close>

definition performed :: "('p, 'o) mutation \<Rightarrow> 'p registry \<Rightarrow> 'p registry \<Rightarrow> bool" where
  "performed m reg reg' \<longleftrightarrow> (\<exists>early now guid out. run_inner early reg m now guid = Inr (reg', out))"

text \<open>One rule per verb.  The subject of a request without validation carries no NUL byte; the id a
  registration asks for is a 32-bit integer, as the request body has it, and its counter has not reached
  the last id.\<close>

definition subject_named :: "string option \<Rightarrow> bool" where
  "subject_named subject = (case subject of None \<Rightarrow> True | Some s \<Rightarrow> nul_free s)"

inductive request :: "'p formats \<Rightarrow> target \<Rightarrow> intent \<Rightarrow> 'p registry \<Rightarrow> 'p registry \<Rightarrow> bool" for F where
  request_register: "RegisterSchema F subject req norm = Inr m \<Longrightarrow> i32_range (dr_id (draft_from req)) \<Longrightarrow> ids_left reg
    \<Longrightarrow> performed m reg reg' \<Longrightarrow> request F (mu_target m) (mu_intent m) reg reg'"
| request_delete_subject: "performed (DeleteSubject subject permanent) reg reg'
    \<Longrightarrow> request F (TSubject (qs_parse subject)) IModify reg reg'"
| request_delete_version: "performed (DeleteSubjectVersion subject spec permanent) reg reg'
    \<Longrightarrow> request F (TSubject (qs_parse subject)) IModify reg reg'"
| request_delete_context: "DeleteContext name = Inr m \<Longrightarrow> performed m reg reg'
    \<Longrightarrow> request F (mu_target m) (mu_intent m) reg reg'"
| request_set_mode: "subject_named subject \<Longrightarrow> performed (SetMode subject mode force) reg reg'
    \<Longrightarrow> request F (target_of (map_option qs_parse subject)) ISetMode reg reg'"
| request_delete_mode: "nul_free subject \<Longrightarrow> performed (DeleteMode subject) reg reg'
    \<Longrightarrow> request F (target_of (Some (qs_parse subject))) ISetMode reg reg'"
| request_update_config: "subject_named subject \<Longrightarrow> performed (UpdateCompatibility subject update) reg reg'
    \<Longrightarrow> request F (target_of (map_option qs_parse subject)) IModify reg reg'"
| request_delete_config: "subject_named subject \<Longrightarrow> performed (DeleteSubjectConfig subject) reg reg'
    \<Longrightarrow> request F (target_of (map_option qs_parse subject)) IModify reg reg'"
| request_create_exporter: "performed (CreateExporter ureq) reg reg' \<Longrightarrow> request F TExporters INotSchemaState reg reg'"
| request_update_exporter: "performed (UpdateExporter name ureq) reg reg' \<Longrightarrow> request F TExporters INotSchemaState reg reg'"
| request_delete_exporter: "performed (DeleteExporter name) reg reg' \<Longrightarrow> request F TExporters INotSchemaState reg reg'"
| request_transition: "performed (TransitionExporter name action) reg reg' \<Longrightarrow> request F TExporters INotSchemaState reg reg'"
| request_restore_exporter: "performed (RestoreExporter rec) reg reg' \<Longrightarrow> request F TExporters INotSchemaState reg reg'"

text \<open>What every request has in common: an unchanged registry, or the writes of a gated plan.\<close>

definition lawful :: "target \<Rightarrow> intent \<Rightarrow> 'p registry \<Rightarrow> 'p registry \<Rightarrow> bool" where
  "lawful t i reg reg' \<longleftrightarrow> reg' = reg
    \<or> (registry_ok reg' \<and> rg_tenant reg' = rg_tenant reg
       \<and> gate_check i (mode_for (view_new reg 0 []) t) (scope_name t) = Inr Allowed
       \<and> (\<exists>ws. registry_contents reg' = spec_writes ws (registry_contents reg) \<and> list_all (within t) ws
            \<and> keeps_promises ws (registry_contents reg)))"

section \<open>The running registry\<close>

text \<open>The steps of a registry: a request, the exporter worker's bookkeeping, the fill of a cache by a reader,
  and a restart, which keeps nothing but the store.\<close>

inductive registry_step :: "'p formats \<Rightarrow> 'p registry \<Rightarrow> 'p registry \<Rightarrow> bool" for F where
  step_request: "request F t i reg reg' \<Longrightarrow> registry_step F reg reg'"
| step_worker: "registry_step F reg (set_exporter_state now name expected_offset new_offset state trace reg)"
| step_body: "registry_step F reg (body_fill ctx i reg)"
| step_parse: "registry_step F reg (parse_fill F ty schema refs validate_defaults reg)"
| step_record: "registry_step F reg (record_fill F ctx i rec reg)"
| step_restart: "load_snapshot (rg_tenant reg) (rg_db reg) = Inr s
    \<Longrightarrow> registry_step F reg (registry_new (rg_tenant reg) (rg_db reg) s level norm)"

inductive reachable :: "'p formats \<Rightarrow> tenant_id \<Rightarrow> 'p registry \<Rightarrow> bool" for F t where
  reach_open: "load_snapshot t db_empty = Inr s \<Longrightarrow> reachable F t (registry_new t db_empty s level norm)"
| reach_step: "reachable F t reg \<Longrightarrow> registry_step F reg reg' \<Longrightarrow> reachable F t reg'"

text \<open>Subjects a mode request reaches.\<close>

definition in_mode_scope :: "qualified_subject option \<Rightarrow> string \<Rightarrow> string \<Rightarrow> bool" where
  "in_mode_scope subject c u = (case subject of
      None \<Rightarrow> True
    | Some q \<Rightarrow> c = qs_context q \<and> (is_context_only q \<or> u = qs_subject q))"

text \<open>The subject has a live version under the id.\<close>

definition live_id :: "'p reader \<Rightarrow> qualified_subject \<Rightarrow> u32 \<Rightarrow> bool" where
  "live_id r q i \<longleftrightarrow> (\<exists>v vr. rd_get_version r (qs_context q) (qs_subject q) v = Some vr \<and> \<not> vr_deleted vr \<and> vr_id vr = i)"

section \<open>Every request is lawful\<close>

lemma mode_for_view: "mode_for (view_new reg now guid) t = mode_for (view_new reg 0 []) t"
  by (cases t) (simp_all add: view_new_def)

context verb

begin

lemma performed_lawful:
  assumes "fits reg" "registry_ok reg" "performed m reg reg'"
  shows "lawful (mu_target m) (mu_intent m) reg reg'"
proof -
  obtain early now guid out where run: "run_inner early reg m now guid = Inr (reg', out)"
    using assms(3) by (auto simp: performed_def)
  show ?thesis
  proof (cases "reg' = reg")
    case False
    then have "run_locked reg m now guid = Inr (reg', out)"
      using run by (auto simp: run_inner_def and_then_Inr_iff split: option.splits)
    then obtain p where p: "mu_plan m (view_new reg now guid) = Inr p"
      and g: "gate_check (mu_intent m) (mode_for (view_new reg now guid) (mu_target m)) (scope_name (mu_target m)) = Inr Allowed"
      and ok: "registry_ok reg'" "registry_contents reg' = spec_writes (pl_writes p) (registry_contents reg)"
        "rg_tenant reg' = rg_tenant reg"
      by (rule locked_step [OF assms(1,2)])
    have r: "reader_ok (vw_reader (view_new reg now guid))" by (rule reader_new [OF assms(2)])
    show ?thesis
      using footprint [OF r p] promise [OF r p] g ok by (auto simp: lawful_def mode_for_view [of reg now guid])
  qed (simp add: lawful_def)
qed

end

lemma nul_free_parse: "nul_free raw \<Longrightarrow> qs_named (qs_parse raw)"
  unfolding qs_named_def by (cases raw rule: qs_parse_shapes) (auto simp: context_defs)

lemma valid_subject_named: "is_valid_subject raw \<Longrightarrow> qs_named (qs_parse raw)"
  using not_control_no_NUL by (intro nul_free_parse) (auto simp: is_valid_subject_def split: if_splits)

lemma normalized_nul_free:
  assumes "normalize_context name = Some ctx"
  shows "nul_free ctx"
  using normalize_context_cases [OF assms] context_char_not_NUL [of "drop 1 ctx"]
  by (cases ctx) (auto simp: context_defs starts_with_def)

lemma subject_target_named: "subject_named subject \<Longrightarrow> named_target (target_of (map_option qs_parse subject))"
  using nul_free_parse by (auto simp: subject_named_def target_of_def qs_named_def split: option.splits)

lemma request_lawful:
  assumes "request F t i reg reg'" and "registry_ok reg"
  shows "lawful t i reg reg'"
  using assms
proof (induction rule: request.induct)
  case (request_register subject req norm m reg reg')
  then have "m = register_verb F (qs_parse subject) (draft_from req) norm" "qs_named (qs_parse subject)"
    using valid_subject_named by (auto simp: RegisterSchema_def Let_def split: if_splits)
  then show ?case using register.performed_lawful request_register by blast
next
  case (request_delete_subject subject permanent reg reg')
  then show ?case using delete_subject.performed_lawful by (fastforce simp: DeleteSubject_def Let_def)
next
  case (request_delete_version subject spec permanent reg reg')
  then show ?case using delete_subject_version.performed_lawful by (fastforce simp: DeleteSubjectVersion_def Let_def)
next
  case (request_delete_context name m reg reg')
  then obtain ctx where "m = delete_context_verb ctx" "normalize_context name = Some ctx"
    by (auto simp: DeleteContext_def and_then_Inr_iff ok_or_Inr_iff split: if_splits)
  then show ?case using delete_context.performed_lawful [OF normalized_nul_free] request_delete_context by blast
next
  case (request_set_mode subject mode force reg reg')
  then show ?case using set_mode.performed_lawful subject_target_named by (fastforce simp: SetMode_def Let_def)
next
  case (request_delete_mode subject reg reg')
  then show ?case using delete_mode.performed_lawful [of subject reg reg'] subject_target_named [of "Some subject"]
    by (simp add: DeleteMode_def Let_def subject_named_def)
next
  case (request_update_config subject update reg reg')
  then show ?case using update_compatibility.performed_lawful subject_target_named by (fastforce simp: UpdateCompatibility_def Let_def)
next
  case (request_delete_config subject reg reg')
  then show ?case using delete_subject_config.performed_lawful subject_target_named by (fastforce simp: DeleteSubjectConfig_def Let_def)
next
  case (request_create_exporter ureq reg reg')
  then show ?case using create_exporter.performed_lawful by (fastforce simp: CreateExporter_def exporter_verb_def)
next
  case (request_update_exporter name ureq reg reg')
  then show ?case using update_exporter.performed_lawful by (fastforce simp: UpdateExporter_def exporter_verb_def)
next
  case (request_delete_exporter name reg reg')
  then show ?case using delete_exporter.performed_lawful by (fastforce simp: DeleteExporter_def exporter_verb_def)
next
  case (request_transition name action reg reg')
  then show ?case using transition_exporter.performed_lawful by (fastforce simp: TransitionExporter_def exporter_verb_def)
next
  case (request_restore_exporter rec reg reg')
  then show ?case using restore_exporter.performed_lawful by (fastforce simp: RestoreExporter_def)
qed

section \<open>Steps outside the engine\<close>

lemma load_in_sync:
  assumes "at_rest t d s"
  obtains s' where "load_snapshot t d = Inr s'" "at_rest t d s'" "contents_of t d s' = contents_of t d s"
proof -
  have sync: "in_sync t d s" and q: "store_log_seq t d = Some (snap_log_seq s)"
    using assms by (auto simp: at_rest_def)
  obtain s' where s': "load_snapshot t d = Inr s'" "mirrors t d s'" "ctxs_inv s'"
    "sorted_wrt (<) (known_contexts s')" "store_log_seq t d = Some (snap_log_seq s')"
    "\<forall>sc r. map_of (config s') sc = Some r \<and> names_alias r \<longrightarrow> has_aliases s'"
    using load_snapshot_mirrors [OF in_syncD(1) [OF sync]] by blast
  note m = in_syncD(2) [OF sync]
  have same: "same_answers s' s"
    using mirrors_same_answers [OF s'(2) m s'(3)] s'(4) in_syncD(3) [OF sync] by (simp add: snap_inv_def ctxs_inv_def)
  have known: "set (known_contexts s') = set (known_contexts s)"
    using s'(2) m by (auto simp: mirrors_def)
  have "map fst (subjects (ctx_state_of s' c)) = map fst (subjects (ctx_state_of s c))" for c
    using same by (simp add: same_answers_def queries_ctx_state)
  then have "subjects (ctx_state_of s' c) \<noteq> [] \<longrightarrow> c \<in> set (known_contexts s')" for c
    using in_syncD(3) [OF sync] known by (simp add: snap_inv_def) (metis Nil_is_map_conv)
  then have "snap_inv s'" using s'(3,4,6) by (simp add: snap_inv_def ctxs_inv_def)
  then have rest: "at_rest t d s'" using s'(2,5) in_syncD(1) [OF sync] by (simp add: at_rest_def in_sync_def)
  have "contents_of t d s' = contents_of t d s"
    using s'(2) m unfolding mirrors_def by (intro contents_eqI) (auto simp: contents_of_simps)
  with s'(1) rest show thesis by (rule that)
qed

lemma restart_ok:
  assumes "registry_ok reg"
  obtains s where "load_snapshot (rg_tenant reg) (rg_db reg) = Inr s"
    "registry_ok (registry_new (rg_tenant reg) (rg_db reg) s level norm)"
    "registry_contents (registry_new (rg_tenant reg) (rg_db reg) s level norm) = registry_contents reg"
proof -
  have rest: "at_rest (rg_tenant reg) (rg_db reg) (rg_snapshot reg)"
    using assms by (simp add: registry_ok_def registry_sound_def)
  obtain s where s: "load_snapshot (rg_tenant reg) (rg_db reg) = Inr s" "at_rest (rg_tenant reg) (rg_db reg) s"
      "contents_of (rg_tenant reg) (rg_db reg) s = registry_contents reg"
    unfolding registry_contents_def by (rule load_in_sync [OF rest])
  let ?new = "registry_new (rg_tenant reg) (rg_db reg) s level norm"
  have con: "registry_contents ?new = registry_contents reg" using s(3) by (simp add: registry_contents_def registry_new_def)
  then have "registry_ok ?new"
    using assms s(2) unfolding registry_ok_def registry_sound_def bodies_ok_def con by (simp add: registry_new_def)
  then show thesis using that s(1) con by blast
qed

lemma caches_ok:
  assumes "rg_tenant reg' = rg_tenant reg" "rg_db reg' = rg_db reg" "rg_snapshot reg' = rg_snapshot reg"
    and "rg_bodies reg' \<subseteq>\<^sub>m ct_body (registry_contents reg)" and "registry_ok reg"
  shows "registry_contents reg' = registry_contents reg \<and> registry_ok reg'"
  using assms by (simp add: registry_ok_def registry_sound_def bodies_ok_def registry_contents_def)

lemma registry_bodies: "registry_ok reg \<Longrightarrow> rg_bodies reg \<subseteq>\<^sub>m ct_body (registry_contents reg)"
  by (simp add: registry_ok_def registry_sound_def bodies_ok_def)

lemma body_fill_ok:
  assumes "registry_ok reg"
  shows "registry_contents (body_fill c i reg) = registry_contents reg \<and> registry_ok (body_fill c i reg)"
  using registry_bodies [OF assms]
  by (intro caches_ok assms) (auto simp: body_fill_def map_le_def registry_contents_def contents_of_simps split: option.splits)

lemma parse_fill_ok:
  assumes "registry_ok reg"
  shows "registry_contents (parse_fill F ty schema refs vd reg) = registry_contents reg \<and> registry_ok (parse_fill F ty schema refs vd reg)"
  using registry_bodies [OF assms]
  by (intro caches_ok assms) (auto simp: parse_fill_def Let_def split: option.splits sum.splits)

lemma record_fill_ok:
  assumes "registry_ok reg"
  shows "registry_contents (record_fill F c i rec reg) = registry_contents reg \<and> registry_ok (record_fill F c i rec reg)"
  using registry_bodies [OF assms]
  by (intro caches_ok assms) (auto simp: record_fill_def Let_def split: option.splits sum.splits)

lemma worker_ok:
  assumes "registry_ok reg" and reg'_def: "reg' = set_exporter_state now name eo no st tr reg"
  shows "registry_ok reg' \<and> (registry_contents reg' = registry_contents reg
    \<or> (\<exists>rec. registry_contents reg' = spec_write (WPutExporter rec) (registry_contents reg)))"
proof (cases "Option.bind (store_get_exporter (rg_tenant reg) (rg_db reg) name) (worker_update now eo no st tr)")
  case (Some rec)
  let ?t = "rg_tenant reg" and ?d = "rg_db reg" and ?s = "rg_snapshot reg"
  have rest: "in_sync ?t ?d ?s" "store_log_seq ?t ?d = Some (snap_log_seq ?s)"
    using assms(1) by (auto simp: registry_ok_def registry_sound_def at_rest_def)
  let ?d' = "store_put_exporter ?t rec Allowed ?d"
  have d': "?d' = write_batch (write_batch_of ?t (WPutExporter rec)) ?d" "write_ops_of (WPutExporter rec) = []"
    by (simp_all add: store_put_exporter_def write_parts)
  have sync: "in_sync ?t ?d' ?s"
    using in_sync_write [OF rest(1), of "WPutExporter rec"] by (simp add: d')
  have con: "contents_of ?t ?d' ?s = spec_write (WPutExporter rec) (contents_of ?t ?d ?s)"
    using contents_write [OF rest(1), of "WPutExporter rec"] by (simp add: d')
  have seq: "store_log_seq ?t ?d' = store_log_seq ?t ?d"
    by (simp add: store_put_exporter_def store_log_seq_def meta_u64_def get_meta_def)
  have r: "reg' = reg\<lparr>rg_db := ?d'\<rparr>" by (simp add: reg'_def set_exporter_state_def Some)
  show ?thesis
    using assms(1) con sync seq rest
    by (auto simp: r registry_ok_def registry_sound_def bodies_ok_def registry_contents_def at_rest_def contents_ok_def)
qed (simp add: assms set_exporter_state_def)

lemma step_ok:
  assumes "registry_step F reg reg'" and "registry_ok reg"
  shows "registry_ok reg'"
  using assms
proof (induction rule: registry_step.induct)
  case (step_request t i reg reg')
  then show ?case using request_lawful [OF step_request.hyps] by (auto simp: lawful_def)
next
  case (step_restart reg s level norm)
  obtain s' where "load_snapshot (rg_tenant reg) (rg_db reg) = Inr s'"
    "registry_ok (registry_new (rg_tenant reg) (rg_db reg) s' level norm :: 'a registry)"
    by (rule restart_ok [OF step_restart.prems])
  then show ?case using step_restart.hyps by simp
qed (simp_all add: worker_ok [OF _ refl] body_fill_ok parse_fill_ok record_fill_ok)

lemma open_ok: "registry_ok (registry_new t db_empty snapshot_default level norm)"
  using at_rest_empty [of t]
  by (simp add: registry_ok_def registry_sound_def bodies_ok_def registry_contents_def registry_new_def contents_ok_def
    contents_of_simps store_get_schema_def db_empty_def)

lemma reachable_ok: "reachable F t reg \<Longrightarrow> registry_ok reg"
proof (induction rule: reachable.induct)
  case (reach_open s level norm)
  obtain s' where "load_snapshot t db_empty = Inr s'" "registry_ok (registry_new t db_empty s' level norm :: 'a registry)"
    using restart_ok [OF open_ok, of t level norm level norm, where ?'b = 'a] by (auto simp: registry_new_def)
  then show ?case using reach_open by simp
next
  case (reach_step reg reg')
  then show ?case using step_ok by blast
qed

section \<open>Consequences of lawfulness\<close>

lemma reader_of: "registry_ok reg \<Longrightarrow> reader_ok (registry_reader reg)"
  by (simp add: reader_ok_def registry_reader_def)

lemma seen_of [simp]: "rd_reg (registry_reader reg) = reg"
  by (simp add: registry_reader_def)

lemma view_reader [simp]: "vw_reader (view_new reg now guid) = registry_reader reg"
  by (simp add: view_new_def)

lemma promise_writes:
  assumes "keeps_promises ws a" and "id_used a c i" and "ct_body b (c, i) \<in> {None, ct_body a (c, i)}"
  shows "ct_body (spec_writes ws b) (c, i) \<in> {None, ct_body a (c, i)}"
  using assms(1,3)
proof (induction ws arbitrary: b)
  case (Cons w ws)
  have "ct_body (spec_write w b) (c, i) \<in> {None, ct_body a (c, i)}"
    using Cons.prems assms(2) by (cases w) (auto simp: keeps_promises_def)
  moreover have "keeps_promises ws a" using Cons.prems(1) by (auto simp: keeps_promises_def)
  ultimately show ?case using Cons.IH by simp
qed simp

lemma used_iff:
  assumes "reader_ok r"
  shows "rd_id_usages r c i \<noteq> [] \<longleftrightarrow> id_used (seen r) c i"
proof -
  have "rd_id_usages r c i \<noteq> [] \<longleftrightarrow> (\<exists>u v. (u, v) \<in> set (rd_id_usages r c i))" by (cases "rd_id_usages r c i") auto
  then show ?thesis by (simp add: reader_sees(4) [OF assms] id_used_def)
qed

lemma step_body:
  assumes "registry_step F reg reg'" and "registry_ok reg" and "id_used (registry_contents reg) c i"
  shows "ct_body (registry_contents reg') (c, i) \<in> {None, ct_body (registry_contents reg) (c, i)}"
  using assms
proof (induction rule: registry_step.induct)
  case (step_request t i' reg reg')
  consider "reg' = reg" | ws where "registry_contents reg' = spec_writes ws (registry_contents reg)"
      "keeps_promises ws (registry_contents reg)"
    using request_lawful [OF step_request(1,2)] by (auto simp: lawful_def)
  then show ?case using promise_writes [OF _ step_request(3), of _ "registry_contents reg"] by cases simp_all
next
  case (step_worker reg now name eo no st tr)
  then show ?case using worker_ok [OF step_worker(1) refl, of now name eo no st tr] by auto
next
  case (step_restart reg s level norm)
  obtain s' where "load_snapshot (rg_tenant reg) (rg_db reg) = Inr s'"
    "registry_contents (registry_new (rg_tenant reg) (rg_db reg) s' level norm :: 'a registry) = registry_contents reg"
    by (rule restart_ok [OF step_restart(2)])
  then show ?case using step_restart(1) by simp
qed (simp_all add: body_fill_ok parse_fill_ok record_fill_ok)

section \<open>Theorems\<close>

text \<open>C1. In every state a running registry can reach - by requests, worker updates, cache fills and restarts,
  from an empty store - each version of each subject has a stored schema under its id, readable by any
  reader, and the id lies below the context's id counter.\<close>

theorem reachable_consistent:
  assumes "reachable F t reg" and "rd_get_version (registry_reader reg) c u v = Some vr"
  shows "(\<exists>rec. rd_get_schema (registry_reader reg) c (vr_id vr) = Some rec) \<and> vr_id vr < rd_next_id (registry_reader reg) c"
proof -
  note r = reader_of [OF reachable_ok [OF assms(1)]]
  show ?thesis using assms(2) contents_okD(1,2) [OF reader_okD(2) [OF r], of c u v vr] by (auto simp: reader_sees [OF r])
qed

text \<open>C12. A restart of a reachable registry always succeeds, and the registry it opens has the same subjects,
  versions, schemas, settings, counters and exporters.\<close>

theorem restart_recovers:
  assumes "reachable F t reg"
  shows "\<exists>s. load_snapshot (rg_tenant reg) (rg_db reg) = Inr s
    \<and> reachable F t (registry_new (rg_tenant reg) (rg_db reg) s level norm)
    \<and> registry_contents (registry_new (rg_tenant reg) (rg_db reg) s level norm :: 'p registry) = registry_contents (reg :: 'p registry)"
proof -
  obtain s where s: "load_snapshot (rg_tenant reg) (rg_db reg) = Inr s"
    "registry_contents (registry_new (rg_tenant reg) (rg_db reg) s level norm :: 'p registry) = registry_contents reg"
    by (rule restart_ok [OF reachable_ok [OF assms]])
  then show ?thesis using reach_step [OF assms step_restart [OF s(1)]] by blast
qed

text \<open>C4. A request that changes schema state does nothing to a registry whose mode for its target is
  read-only: whatever the request and its answer, the registry is the one before.\<close>

theorem request_respects_mode:
  assumes "reachable F t reg" and "request F tgt i reg reg'" and "schema_state_intent i"
    and "mode_for (view_new reg 0 []) tgt \<in> {Readonly, ReadonlyOverride}"
  shows "reg' = reg"
  using request_lawful [OF assms(2) reachable_ok [OF assms(1)]] gate_check_readonly [OF assms(3,4), of "scope_name tgt"]
  by (auto simp: lawful_def)

text \<open>C5. A request for a subject or a context leaves every other context as it was: its versions, schemas, id
  counter, fingerprints and settings, and the exporters.\<close>

theorem request_stays_in_context:
  assumes "reachable F t reg" and "request F tgt i reg reg'" and "tgt = TSubject q \<or> tgt = TContext (qs_context q)"
  shows "same_outside (qs_context q) (registry_contents reg) (registry_contents reg')"
proof -
  consider "reg' = reg" | ws where "registry_contents reg' = spec_writes ws (registry_contents reg)" "list_all (within tgt) ws"
    using request_lawful [OF assms(2) reachable_ok [OF assms(1)]] by (auto simp: lawful_def)
  then show ?thesis
    using assms(3) same_outside_writes [of "qs_context q" _ "registry_contents reg"] by cases (auto simp: list_all_iff)
qed

text \<open>C3. The content of an id never changes while the id is in use: if versions hold an id before and after a
  step, a reader gets the same schema for it before and after.\<close>

theorem id_content_stable:
  assumes "reachable F t reg" and "registry_step F reg reg'"
    and "rd_id_usages (registry_reader reg) c i \<noteq> []" and "rd_id_usages (registry_reader reg') c i \<noteq> []"
  shows "rd_get_schema (registry_reader reg') c i = rd_get_schema (registry_reader reg) c i"
proof -
  have ok: "registry_ok reg" "registry_ok reg'" using reachable_ok assms(1) step_ok assms(2) by blast+
  note r = reader_of [OF ok(1)] and r' = reader_of [OF ok(2)]
  have u: "id_used (registry_contents reg) c i" "id_used (registry_contents reg') c i"
    using used_iff [OF r] used_iff [OF r'] assms(3,4) by simp_all
  have "ct_body (registry_contents reg') (c, i) \<noteq> None"
    using u(2) contents_okD(1) [OF reader_okD(2) [OF r']] by (auto simp: id_used_def)
  then show ?thesis using step_body [OF assms(2) ok(1) u(1)] by (auto simp: reader_sees(2) [OF r] reader_sees(2) [OF r'])
qed

text \<open>C6. Applying a plan refines its abstract meaning: on a sound registry, a plan whose writes are admissible
  is always applied, keeps the registry sound, and changes the contents exactly as its writes say, one after
  the other.\<close>

theorem engine_apply_refines:
  assumes "registry_sound reg" and "writes_ok (pl_writes p) (rg_snapshot reg)"
  shows "\<exists>reg'. engine_apply reg p a = Inr (reg', pl_output p) \<and> registry_sound reg'
    \<and> registry_contents reg' = spec_writes (pl_writes p) (registry_contents reg)"
  by (rule engine_apply_spec [OF assms]) blast

lemma collect_ok_member: "collect_ok f xs = Inr ys \<Longrightarrow> x \<in> set xs \<Longrightarrow> \<exists>y. f x = Inr y"
  unfolding collect_ok_Inr by (auto simp: list_all2_conv_all_nth in_set_conv_nth)

lemma soft_deletes_version:
  assumes "distinct (map fst vs)"
  shows "ct_version (spec_writes (map (\<lambda>(v, vr). soft_deleted q v vr) vs) a) (c, u, v) =
    (if c = qs_context q \<and> u = qs_subject q then
       (case map_of vs v of Some vr \<Rightarrow> Some (vr\<lparr>vr_deleted := True\<rparr>) | None \<Rightarrow> ct_version a (c, u, v))
     else ct_version a (c, u, v))"
  using assms
proof (induction vs arbitrary: a)
  case (Cons p vs)
  obtain w wr where p: "p = (w, wr)" by fastforce
  have "map_of vs w = None" using Cons.prems p by (simp add: map_of_eq_None_iff)
  then show ?case using Cons.IH [of "spec_write (soft_deleted q w wr) a"] Cons.prems p
    by (auto simp: soft_deleted_def split: option.splits)
qed simp

lemma drop_settings_version [simp]: "ct_version (spec_writes (drop_settings q) a) = ct_version a"
  by (simp add: drop_settings_def Let_def)

lemma versions_map_of:
  assumes "reader_ok r"
  shows "map_of (rd_list_versions r c u) v = ct_version (seen r) (c, u, v)"
proof (cases "ct_version (seen r) (c, u, v)")
  case None
  then have "v \<notin> fst ` set (rd_list_versions r c u)" using reader_sees(5) [OF assms] by force
  then show ?thesis using None by (simp add: map_of_eq_None_iff)
next
  case (Some vr)
  then have "(v, vr) \<in> set (rd_list_versions r c u)" using reader_sees(5) [OF assms] by simp
  then show ?thesis using Some wf_table_map_of_iff [OF reader_sees(8) [OF assms]] by simp
qed

lemma soft_delete_all:
  fixes q :: qualified_subject
  assumes "reader_ok r"
  defines "vs \<equiv> filter (\<lambda>(_, vr). \<not> vr_deleted vr) (rd_list_versions r (qs_context q) (qs_subject q))"
  shows "ct_version (spec_writes (map (\<lambda>(v, vr). soft_deleted q v vr) vs @ drop_settings q) (seen r)) (c, u, v) =
    (if c = qs_context q \<and> u = qs_subject q
     then map_option (\<lambda>vr. vr\<lparr>vr_deleted := True\<rparr>) (ct_version (seen r) (c, u, v)) else ct_version (seen r) (c, u, v))"
proof -
  have d: "distinct (map fst vs)" unfolding vs_def by (rule wf_distinct_filter [OF reader_sees(8) [OF assms(1)]])
  have m: "map_of vs v = Some vr \<longleftrightarrow> ct_version (seen r) (qs_context q, qs_subject q, v) = Some vr \<and> \<not> vr_deleted vr" for vr
    using map_of_eq_Some_iff [OF d] reader_sees(5) [OF assms(1)] by (auto simp: vs_def)
  have n: "map_of vs v = None \<longleftrightarrow> (\<forall>vr. ct_version (seen r) (qs_context q, qs_subject q, v) = Some vr \<longrightarrow> vr_deleted vr)"
    using m by (cases "map_of vs v") auto
  show ?thesis
    unfolding spec_writes_simps drop_settings_version soft_deletes_version [OF d]
    using m n by (cases "ct_version (seen r) (qs_context q, qs_subject q, v)") (auto split: option.splits)
qed

lemma hard_deletes_effect:
  assumes "reader_ok r" and "doomed_ok r doomed also_removed"
  shows "ct_version (spec_writes (fst (hard_deletes r doomed also_removed)) a) k =
    (if k \<in> version_key_of ` set doomed then None else ct_version a k)"
  using deletions_effect(1) [OF hard_deletes_shape(1) [OF assms]] by (simp add: hard_deletes_gone)

text \<open>C7. A subject delete answers with the versions it deletes.  Without \<open>permanent\<close> every version of the
  subject is marked deleted and keeps its id; with it every version had been marked deleted before, and all
  are gone.  No version of another subject is touched.\<close>

theorem delete_subject_effect:
  assumes "reachable F t reg" and "run_inner early reg (DeleteSubject subject permanent) now guid = Inr (reg', out)"
    and "q = qs_parse subject"
  shows "out = map fst (filter (\<lambda>(_, vr). permanent \<or> \<not> vr_deleted vr)
      (rd_list_versions (registry_reader reg) (qs_context q) (qs_subject q)))
    \<and> rd_get_version (registry_reader reg') c u v =
        (if c \<noteq> qs_context q \<or> u \<noteq> qs_subject q then rd_get_version (registry_reader reg) c u v
         else if permanent then None
         else map_option (\<lambda>vr. vr\<lparr>vr_deleted := True\<rparr>) (rd_get_version (registry_reader reg) c u v))
    \<and> (permanent \<longrightarrow> list_all (\<lambda>(_, vr). vr_deleted vr) (rd_list_versions (registry_reader reg) (qs_context q) (qs_subject q)))"
proof -
  let ?r = "registry_reader reg" and ?vs = "rd_list_versions (registry_reader reg) (qs_context q) (qs_subject q)"
  note r = reader_of [OF reachable_ok [OF assms(1)]]
  have run: "run_locked reg (DeleteSubject subject permanent) now guid = Inr (reg', out)"
    using assms(2) by (simp add: run_inner_def DeleteSubject_def Let_def no_fast_path_def)
  obtain p where plan: "delete_subject_plan q permanent (view_new reg now guid) = Inr p" "out = pl_output p"
    and ok: "registry_ok reg'" and con: "registry_contents reg' = spec_writes (pl_writes p) (seen ?r)"
    by (rule delete_subject.locked_step [OF _ reachable_ok [OF assms(1)] run])
      (use assms(3) in \<open>auto simp: DeleteSubject_def Let_def\<close>)
  note r' = reader_of [OF ok] and shape = delete_subject_shape [OF plan(1), unfolded view_reader]
  have soft: "permanent \<longrightarrow> list_all (\<lambda>(_, vr). vr_deleted vr) ?vs"
  proof
    assume perm: permanent
    obtain ys where "collect_ok (check_deletable ?r q permanent) ?vs = Inr ys"
      using plan(1) perm by (auto simp: delete_subject_plan_def Let_def and_then_Inr_iff split: if_splits)
    note collect_ok_member [OF this]
    then show "list_all (\<lambda>(_, vr). vr_deleted vr) ?vs"
      using perm by (fastforce simp: list_all_iff check_deletable_def and_then_Inr_iff split: if_splits)
  qed
  have "ct_version (registry_contents reg') (c, u, v) =
        (if c \<noteq> qs_context q \<or> u \<noteq> qs_subject q then ct_version (seen ?r) (c, u, v)
         else if permanent then None
         else map_option (\<lambda>vr. vr\<lparr>vr_deleted := True\<rparr>) (ct_version (seen ?r) (c, u, v)))"
  proof (cases permanent)
    case True
    have ws: "pl_writes p = fst (hard_deletes ?r (map (\<lambda>(v, vr). (q, v, vr)) ?vs) (map (\<lambda>(v, _). (qs_subject q, v)) ?vs))"
      using shape(1) True by simp
    have doomed: "doomed_ok ?r (map (\<lambda>(v, vr). (q, v, vr)) ?vs) (map (\<lambda>(v, _). (qs_subject q, v)) ?vs)"
      by (rule doomed_ok_subject(1) [OF r]) (simp add: reader_sees(5) [OF r])
    have "(c, u, v) \<in> version_key_of ` set (map (\<lambda>(v, vr). (q, v, vr)) ?vs) \<longleftrightarrow>
        c = qs_context q \<and> u = qs_subject q \<and> ct_version (seen ?r) (c, u, v) \<noteq> None"
      using reader_sees(5) [OF r] by (force simp: version_key_of_def image_iff)
    then show ?thesis
      unfolding con ws hard_deletes_effect [OF r doomed] using True by auto
  next
    case False
    then show ?thesis using soft_delete_all [OF r, of q c u v] shape(1) unfolding con by simp
  qed
  then show ?thesis using shape(2) plan(2) soft by (simp add: reader_sees(1) [OF r] reader_sees(1) [OF r'])
qed

lemma contexts_listed:
  assumes "reader_ok r" and "ct_version (seen r) (c, u, v) = Some vr"
  shows "c \<in> set (rd_list_contexts r)"
proof -
  have "u \<in> set (rd_list_subject_names r c)" using reader_sees(6) [OF assms(1)] assms(2) by blast
  then have "subjects (ctx_state_of (rd_snap r) c) \<noteq> []" by (auto simp: rd_list_subject_names_def queries_ctx_state)
  then have "c \<in> set (known_contexts (rd_snap r))" using reader_okD(3) [OF assms(1)] by (simp add: snap_inv_def)
  then show ?thesis by (simp add: rd_list_contexts_def snap_list_contexts_def Let_def)
qed

lemma subjects_in_scope_iff:
  assumes "reader_ok (vw_reader vw)" and "ct_version (seen (vw_reader vw)) (c, u, v) = Some vr"
  shows "(\<exists>sq \<in> set (subjects_in_scope vw subject). qs_context sq = c \<and> qs_subject sq = u) \<longleftrightarrow> in_mode_scope subject c u"
proof -
  have "u \<in> set (rd_list_subject_names (vw_reader vw) c)" using reader_sees(6) [OF assms(1)] assms(2) by blast
  then show ?thesis
    using contexts_listed [OF assms]
    by (cases subject) (auto simp: subjects_in_scope_def Let_def in_mode_scope_def qs_new_def)
qed

text \<open>C8. Switching a scope to IMPORT without force, from another mode, leaves no version of any subject in the
  scope and touches no version outside it.\<close>

theorem import_mode_empties_scope:
  assumes "reachable F t reg" and "subject_named subject"
    and "run_inner early reg (SetMode subject Import False) now guid = Inr (reg', out)"
    and "mode_for (view_new reg now guid) (target_of (map_option qs_parse subject)) \<noteq> Import"
  shows "rd_get_version (registry_reader reg') c u v =
    (if in_mode_scope (map_option qs_parse subject) c u then None else rd_get_version (registry_reader reg) c u v)"
proof -
  let ?r = "registry_reader reg" and ?s = "map_option qs_parse subject" and ?vw = "view_new reg now guid"
  note r = reader_of [OF reachable_ok [OF assms(1)]]
  have run: "run_locked reg (SetMode subject Import False) now guid = Inr (reg', out)"
    using assms(3) by (simp add: run_inner_def SetMode_def Let_def no_fast_path_def)
  obtain p where plan: "set_mode_plan ?s Import False ?vw = Inr p"
    and ok: "registry_ok reg'" and con: "registry_contents reg' = spec_writes (pl_writes p) (seen ?r)"
    by (rule set_mode.locked_step [OF subject_target_named [OF assms(2)] reachable_ok [OF assms(1)] run])
      (auto simp: SetMode_def Let_def)
  obtain doomed where doomed: "doomed_versions ?vw ?s = Inr doomed"
    and ws: "pl_writes p = fst (hard_deletes ?r doomed (map (\<lambda>(q, v, _). (qs_subject q, v)) doomed)) @ [WPutMode (scope_of ?s) Import]"
    using plan assms(4) by (auto simp: set_mode_plan_def Let_def map_ok_Inr_iff split: if_split_asm) (metis fst_conv)
  note d = doomed_versions_ok [of ?vw, unfolded view_reader, OF r doomed]
  have mem: "(sq, w, wr) \<in> set doomed \<longleftrightarrow> sq \<in> set (subjects_in_scope ?vw ?s)
      \<and> ct_version (seen ?r) (qs_context sq, qs_subject sq, w) = Some wr" for sq w wr
    unfolding doomed_versions_all [OF doomed] by (force simp: reader_sees(5) [OF r] image_iff)
  have "(c, u, v) \<in> version_key_of ` set doomed \<longleftrightarrow> in_mode_scope ?s c u \<and> ct_version (seen ?r) (c, u, v) \<noteq> None"
  proof (cases "ct_version (seen ?r) (c, u, v)")
    case (Some vr)
    then show ?thesis
      using subjects_in_scope_iff [of ?vw c u v vr ?s] r mem by (force simp: version_key_of_def image_iff)
  qed (use mem in \<open>force simp: version_key_of_def\<close>)
  then show ?thesis
    using hard_deletes_effect [OF r d, of "seen ?r" "(c, u, v)"] reader_sees(1) [OF r] reader_sees(1) [OF reader_of [OF ok]]
    by (auto simp: con ws)
qed

lemma live_idI: "reader_ok r \<Longrightarrow> ct_version (seen r) (qs_context q, qs_subject q, v) = Some vr \<Longrightarrow> \<not> vr_deleted vr \<Longrightarrow> live_id r q (vr_id vr)"
  by (auto simp: live_id_def reader_sees(1))

lemma list_max_member: "list_max vs = Some v \<Longrightarrow> v \<in> set vs"
proof -
  have "fold max vs w \<in> insert w (set vs)" for w :: u32 and vs
    by (induction vs arbitrary: w) (auto simp: max_def)
  then show "list_max vs = Some v \<Longrightarrow> v \<in> set vs" by (cases vs) auto
qed

lemma hash_lookup_id:
  assumes "reader_ok r" and "hash_lookup F r q c = Some (i, Some (v, vr))"
  shows "ct_version (seen r) (qs_context q, qs_subject q, v) = Some vr" and "vr_id vr = i"
proof -
  have v: "list_max (map snd (filter (\<lambda>(s, _). s = qs_subject q) (rd_id_usages r (qs_context q) i))) = Some v"
    and vr: "rd_get_version r (qs_context q) (qs_subject q) v = Some vr"
    using assms(2) by (auto simp: hash_lookup_def Let_def split: option.split_asm if_split_asm)
  have "v \<in> set (map snd (filter (\<lambda>(s, _). s = qs_subject q) (rd_id_usages r (qs_context q) i)))"
    by (rule list_max_member [OF v])
  then have "(qs_subject q, v) \<in> set (rd_id_usages r (qs_context q) i)" by auto
  then show "ct_version (seen r) (qs_context q, qs_subject q, v) = Some vr" "vr_id vr = i"
    using vr by (auto simp: reader_sees(1,4) [OF assms(1)])
qed

lemma entity_of_id: "entity_of r q v vr = Inr e \<Longrightarrow> en_id e = vr_id vr"
  by (auto simp: entity_of_def map_ok_Inr_iff entity_stored_def)

lemma first_match_live:
  assumes "reader_ok r" and "first_match r q c vs = Inr (Some e)"
    and "\<And>v vr. (v, vr) \<in> set vs \<Longrightarrow> ct_version (seen r) (qs_context q, qs_subject q, v) = Some vr \<and> \<not> vr_deleted vr"
  shows "live_id r q (en_id e)"
  using assms(2,3)
proof (induction vs)
  case (Cons p vs)
  obtain v vr where p: "p = (v, vr)" by fastforce
  then obtain e' where e': "entity_of r q v vr = Inr e'"
    and step: "(if can_lookup c e' then Inr (Some e') else first_match r q c vs) = Inr (Some e)"
    using Cons.prems(1) by (auto simp: and_then_Inr_iff)
  then show ?case
    using Cons.IH Cons.prems(2) [of v vr] Cons.prems(2) live_idI [OF assms(1), of q v vr] entity_of_id [OF e'] p
    by (auto split: if_split_asm)
qed simp

lemma by_version_live:
  assumes "reader_ok r" and "by_version r q c schema_id vs = Inr (Some e)"
    and "\<And>v vr. (v, vr) \<in> set vs \<Longrightarrow> ct_version (seen r) (qs_context q, qs_subject q, v) = Some vr \<and> \<not> vr_deleted vr"
  shows "live_id r q (en_id e)"
  using assms(2,3)
proof (induction vs)
  case (Cons p vs)
  obtain v vr where p: "p = (v, vr)" by fastforce
  have "live_id r q (vr_id vr)" using Cons.prems(2) [of v vr] p live_idI [OF assms(1), of q v vr] by simp
  then show ?case
    using Cons.IH Cons.prems p by (auto simp: and_then_Inr_iff entity_from_canon_def split: if_split_asm)
qed simp

lemma live_versions:
  assumes "reader_ok r" and "(v, vr) \<in> set (filter (\<lambda>(_, x). \<not> vr_deleted x) (rev (rd_list_versions r (qs_context q) (qs_subject q))))"
  shows "ct_version (seen r) (qs_context q, qs_subject q, v) = Some vr \<and> \<not> vr_deleted vr"
  using assms(2) by (simp add: reader_sees(5) [OF assms(1)])

lemma lookup_under_subject_live:
  assumes "reader_ok r" and "lookup_under_subject F r q d norm False latest_only = Inr (Some e)"
  shows "live_id r q (en_id e)"
proof -
  let ?live = "filter (\<lambda>(_, x). \<not> vr_deleted x) (rev (rd_list_versions r (qs_context q) (qs_subject q)))"
  obtain canon where canon: "canonicalize F r q d False norm = Inr canon"
    using assms(2) by (auto simp: lookup_under_subject_def and_then_Inr_iff)
  then obtain c where c: "canon = Some c"
    using assms(2) by (cases canon) (auto simp: lookup_under_subject_def)
  have step: "(case (if latest_only then None else hash_lookup F r q c) of
           Some (i, Some (v, vr)) \<Rightarrow> if \<not> vr_deleted vr then Inr (Some (entity_from_canon q v i c)) else first_match r q c ?live
         | _ \<Rightarrow> if latest_only then first_match r q c (take 1 ?live) else first_match r q c ?live) = Inr (Some e)"
    using assms(2) unfolding lookup_under_subject_def canon c by (simp only: and_then.simps option.case simp_thms Let_def)
  have "(v, vr) \<in> set (take 1 ?live) \<Longrightarrow> ct_version (seen r) (qs_context q, qs_subject q, v) = Some vr \<and> \<not> vr_deleted vr" for v vr
    using in_set_takeD live_versions [OF assms(1)] by fast
  then have m1: "live_id r q (en_id e)" if "first_match r q c (take 1 ?live) = Inr (Some e)"
    using first_match_live [OF assms(1) that] by blast
  have m2: "live_id r q (en_id e)" if "first_match r q c ?live = Inr (Some e)"
    using first_match_live [OF assms(1) that] live_versions [OF assms(1)] by blast
  show ?thesis
    using step m1 m2 hash_lookup_id [OF assms(1), of F q c] live_idI [OF assms(1), of q]
    by (auto simp: entity_from_canon_def split: option.split_asm if_split_asm)
qed

lemma fast_path_live:
  assumes "reader_ok r" and "register_fast_path F r q d norm = Inr (Some out)"
  shows "live_id r q (rsp_id out)"
proof -
  let ?latest = "dr_version d = -1"
  obtain found where found: "lookup_under_subject F r q d norm False ?latest = Inr found"
    using assms(2) by (auto simp: register_fast_path_def Let_def and_then_Inr_iff split: if_split_asm)
  then obtain e where e: "found = Some e"
    using assms(2) by (cases found) (auto simp: register_fast_path_def Let_def split: if_split_asm)
  note live = lookup_under_subject_live [OF assms(1) found [unfolded e]]
  show ?thesis
    using assms(2) live unfolding register_fast_path_def Let_def found e
    by (auto simp: response_id_def response_full_def map_ok_Inr_iff split: if_split_asm option.split_asm prod.split_asm)
qed

lemma edges_version: "ct_version (spec_writes (map (\<lambda>(t, v). WPutRefby (qs_context t) (qs_subject t) v i) xs) a) = ct_version a"
  by (induction xs arbitrary: a) auto

lemma store_plan_stores:
  "ct_version (spec_writes (pl_writes (store_plan F vw q modified c version i
      (rd_list_versions (vw_reader vw) (qs_context q) (qs_subject q)))) a) (qs_context q, qs_subject q, version)
    = Some \<lparr>vr_id = i, vr_deleted = False, vr_ts = vw_now vw\<rparr>"
  "rsp_id (pl_output (store_plan F vw q modified c version i vs)) = i"
  by (simp add: edges_version store_plan_writes)
    (simp add: store_plan_def answer_def response_id_def response_full_def entity_from_canon_def Let_def split: prod.split)

lemma register_plan_live:
  assumes r: "reader_ok (vw_reader vw)" and p: "register_plan F q d norm vw = Inr p"
  shows "pl_writes p = [] \<and> live_id (vw_reader vw) q (rsp_id (pl_output p))
    \<or> (\<exists>v vr. ct_version (spec_writes (pl_writes p) (seen (vw_reader vw))) (qs_context q, qs_subject q, v) = Some vr
          \<and> \<not> vr_deleted vr \<and> vr_id vr = rsp_id (pl_output p))"
proof -
  let ?r = "vw_reader vw"
  obtain d' modified canon where step: "register_canonical F vw q d' modified canon = Inr p"
    by (rule register_plan_shape [OF p])
  have ans: "rsp_id (answer m e) = en_id e" for m e by (simp add: answer_def response_id_def response_full_def)
  note live = live_versions [OF r, of _ _ q]
  show ?thesis
  proof (cases "by_hash F ?r q d' canon")
    case (Inl e)
    then obtain c i v vr where "hash_lookup F ?r q c = Some (i, Some (v, vr))" "\<not> vr_deleted vr" "e = entity_from_canon q v i c"
      by (auto simp: by_hash_def split: option.split_asm if_split_asm)
    then have "live_id ?r q (en_id e)" using hash_lookup_id [OF r] live_idI [OF r] by (fastforce simp: entity_from_canon_def)
    then show ?thesis using step Inl by (auto simp: register_canonical_def ans)
  next
    case (Inr schema_id)
    then consider (known) c e where "by_version ?r q c schema_id (filter (\<lambda>(_, v). \<not> vr_deleted v)
        (rev (rd_list_versions ?r (qs_context q) (qs_subject q)))) = Inr (Some e)" "p = plan_new (answer modified e)"
      | (new) "register_new F vw q d' modified canon schema_id = Inr p"
      using step by (auto simp: register_canonical_def and_then_Inr_iff Let_def split: option.split_asm if_split_asm)
    then show ?thesis
    proof cases
      case known
      then have "live_id ?r q (en_id e)" using by_version_live [OF r known(1)] live by blast
      then show ?thesis using known(2) by (simp add: ans)
    next
      case new
      obtain c version i where "p = store_plan F vw q modified c version i (rd_list_versions ?r (qs_context q) (qs_subject q))"
        by (rule register_new_shape [OF new])
      then show ?thesis
        by (intro disjI2 exI [of _ version] exI [of _ "\<lparr>vr_id = i, vr_deleted = False, vr_ts = vw_now vw\<rparr>"])
          (simp add: store_plan_stores)
    qed
  qed
qed

text \<open>C2. The answer of a registration is always backed: the subject has a live version under the answered id,
  and the schema of that id can be read.  This holds on every path - the lock-free answer, known content and a
  new version.\<close>

theorem register_answer_live:
  assumes "reachable F t reg" and "RegisterSchema F subject req norm = Inr m"
    and "i32_range (dr_id (draft_from req))" and "ids_left reg"
    and "run_inner (view_new reg now0 guid0) reg m now guid = Inr (reg', out)"
  shows "live_id (registry_reader reg') (qs_parse subject) (rsp_id out)
    \<and> (\<exists>rec. rd_get_schema (registry_reader reg') (qs_context (qs_parse subject)) (rsp_id out) = Some rec)"
proof -
  let ?q = "qs_parse subject" and ?d = "draft_from req"
  note ok = reachable_ok [OF assms(1)]
  note r = reader_of [OF ok]
  have m: "m = register_verb F ?q ?d norm" and named: "qs_named ?q"
    using assms(2) valid_subject_named by (auto simp: RegisterSchema_def Let_def split: if_splits)
  have fits: "qs_named ?q \<and> i32_range (dr_id ?d) \<and> ids_left reg" using named assms(3,4) by simp
  have ok': "registry_ok reg'" using register.run_keeps_ok [OF fits ok] assms(5) unfolding m by blast
  note r' = reader_of [OF ok']
  have live: "live_id (registry_reader reg') ?q (rsp_id out)"
  proof (cases "fast_path m (view_new reg now0 guid0) = Inr (Some out) \<and> reg' = reg")
    case True
    then show ?thesis using fast_path_live [OF r] unfolding m by (auto simp: register_verb_def)
  next
    case False
    then have "run_locked reg m now guid = Inr (reg', out)"
      using assms(5) by (auto simp: run_inner_def and_then_Inr_iff split: option.splits)
    then obtain p where p: "mu_plan m (view_new reg now guid) = Inr p" "out = pl_output p"
        "registry_contents reg' = spec_writes (pl_writes p) (registry_contents reg)"
      unfolding m by (rule register.locked_step [OF fits ok])
    then have plan: "register_plan F ?q ?d norm (view_new reg now guid) = Inr p" by (simp add: m register_verb_def)
    have "reader_ok (vw_reader (view_new reg now guid))" using r by simp
    from register_plan_live [OF this plan] p(3) show ?thesis
      by (simp add: live_id_def p(2) reader_sees(1) [OF r] reader_sees(1) [OF r']) fastforce
  qed
  then obtain v vr where "ct_version (seen (registry_reader reg')) (qs_context ?q, qs_subject ?q, v) = Some vr" "vr_id vr = rsp_id out"
    by (auto simp: live_id_def reader_sees(1) [OF r'])
  then show ?thesis using live contents_okD(1) [OF reader_okD(2) [OF r']] by (fastforce simp: reader_sees(2) [OF r'])
qed

end
