(* ===== verification/Sample_Run.thy ===== *)
theory Sample_Run
  imports Reachable
begin

text \<open>
  A short concrete run: a registration in an empty registry, the same registration again, a soft delete,
  a switch to READONLY and a switch to IMPORT.  It instantiates the theorems about reachable states.
\<close>

definition sample_request :: register_request where
  "sample_request = \<lparr>rr_schema = Some ''a'', rr_schema_type = None, rr_references = None, rr_metadata = None,
     rr_rule_set = None, rr_version = None, rr_id = None\<rparr>"

definition sample_canon :: "string canon" where
  "sample_canon = \<lparr>cn_schema_type = Avro, cn_text = ''a'', cn_refs = [], cn_targets = [], cn_metadata = None, cn_rule_set = None,
     cn_parsed = \<lparr>ps_type = Avro, ps_canonical = ''a'', ps_normalized = ''a'', ps_normalize_error = None, ps_inner = ParsedAvro ''a''\<rparr>\<rparr>"

definition sample_stored :: schema_record where
  "sample_stored = \<lparr>sr_type = Avro, sr_schema = ''a'', sr_references = [], sr_metadata = None, sr_rule_set = None,
     sr_fingerprint = canon_fingerprint sample_formats sample_canon,
     sr_schema_fingerprint = fingerprint sample_formats Avro ''a'' [] None None, sr_guid = []\<rparr>"

definition sample_version :: "bool \<Rightarrow> version_record" where
  "sample_version deleted = \<lparr>vr_id = 1, vr_deleted = deleted, vr_ts = 0\<rparr>"

definition sample_contents :: "bool \<Rightarrow> contents \<Rightarrow> bool" where
  "sample_contents deleted a \<longleftrightarrow> ct_version a = [(''.'', ''s'', 1) \<mapsto> sample_version deleted] \<and> ct_body a = [(''.'', 1) \<mapsto> sample_stored]
     \<and> ct_next a = [''.'' \<mapsto> 2] \<and> ct_fp a = [(''.'', sr_fingerprint sample_stored) \<mapsto> 1] \<and> ct_refby a = (\<lambda>_. {})
     \<and> ct_config a = (\<lambda>_. None)"

lemma sample_reads:
  "rd_list_versions (registry_reader sample_registry) c u = []"
  "rd_get_config (registry_reader sample_registry) sc = None" "rd_get_mode (registry_reader sample_registry) sc = None"
  "rd_id_usages (registry_reader sample_registry) c i = []"
  "rd_id_for_fingerprint (registry_reader sample_registry) c f = None"
  "rd_get_schema (registry_reader sample_registry) c i = None"
  "rd_next_id (registry_reader sample_registry) c = 1"
  by (simp_all add: rd_list_versions_def rd_get_config_def rd_get_mode_def rd_id_usages_def rd_id_for_fingerprint_def rd_next_id_def rd_get_schema_def
   sample_registry_def registry_new_def registry_reader_def model_defs snap_get_config_def snap_get_mode_def queries_ctx_state ctx_state_of_def snapshot_default_def db_empty_def store_get_schema_def)

lemma sample_text: "\<not> is_blank ''a''"
  by (simp add: is_blank_def trim_start.simps ws_len_def)

lemma merge_nothing: "merge_metadata [None, None, None] = None" "merge_rule_sets [None, None, None] = None"
  by (simp_all add: merge_metadata_def merge_rule_sets_def present_def map_filter_def)

lemma sample_canonicalize:
  "canonicalize sample_formats (registry_reader sample_registry) q (draft_from sample_request) is_new norm = Inr (Some sample_canon)"
  by (simp add: canonicalize_def draft_from_def sample_request_def sample_canon_def resolve_references_def
    parse_cached_def parse_with_def sample_formats_def sample_text sample_registry_def registry_new_def registry_reader_def)

lemma sample_config: "config_in_scope (registry_reader sample_registry) q = filled sample_registry config_default"
  by (simp add: config_in_scope_def sample_reads)

lemma sample_populate:
  "populate_from_previous (registry_reader sample_registry) q (config_in_scope (registry_reader sample_registry) q) (draft_from sample_request) None n
    = Inr (draft_from sample_request, False)"
  by (simp add: populate_from_previous_def inherit_schema_def inherit_contract_def Let_def sample_config
    draft_from_def sample_request_def no_text_def sample_text filled_def config_default_def merge_nothing metadata_property_def)

lemma sample_mode: "mode_in_scope (registry_reader sample_registry) q = Readwrite"
  by (simp add: mode_in_scope_def global_mode_in_def sample_reads Let_def)

lemma sample_draft: "dr_id (draft_from sample_request) = -1" "dr_version (draft_from sample_request) = 0"
  by (simp_all add: draft_from_def sample_request_def)

lemma sample_plan:
  "register_plan sample_formats q (draft_from sample_request) norm (view_new sample_registry now guid)
    = Inr (store_plan sample_formats (view_new sample_registry now guid) q False sample_canon 1 1 [])"
proof -
  let ?r = "registry_reader sample_registry"
  have check: "check_register sample_formats ?r q cfg False sample_canon = Inr ()" for cfg
    by (simp add: check_register_def Let_def compat_candidates_def sample_reads check_compatibility_def)
  show ?thesis
    by (simp add: register_plan_def view_new_def Let_def sample_mode sample_reads sample_populate sample_canonicalize
      register_canonical_def by_hash_def hash_lookup_def sample_draft register_new_def check choose_version_def choose_id_def next_version_def)
qed

lemma load_empty: "load_snapshot t db_empty = Inr snapshot_default"
  by (simp add: load_snapshot_def db_empty_def snapshot_default_def scan_prefix_def store_log_seq_def meta_u64_def get_meta_def)

lemma sample_reachable: "reachable F default_tenant sample_registry"
  unfolding sample_registry_def by (rule reach_open [OF load_empty])

lemma sample_run:
  assumes "qs_named q"
  obtains reg' where "run_inner (view_new sample_registry 0 []) sample_registry
      (register_verb sample_formats q (draft_from sample_request) False) 0 [] = Inr (reg', response_id 1)"
    "registry_ok reg'" "registry_contents reg' = spec_writes [WPutSchema (qs_context q) 1 sample_stored True,
       WSetNextId (qs_context q) 2, WPutVersion (qs_context q) (qs_subject q) 1 \<lparr>vr_id = 1, vr_deleted = False, vr_ts = 0\<rparr>]
       (registry_contents sample_registry)"
proof -
  let ?m = "register_verb sample_formats q (draft_from sample_request) False" and ?vw = "view_new sample_registry 0 []"
  have fast: "fast_path ?m ?vw = Inr None"
    by (simp add: register_verb_def view_new_def register_fast_path_def Let_def lookup_under_subject_def sample_canonicalize
      hash_lookup_def sample_reads sample_draft)
  have ids: "ids_left sample_registry"
    by (simp add: ids_left_def registry_contents_def contents_of_simps sample_registry_def registry_new_def
      ctx_state_of_def snapshot_default_def)
  have fits: "qs_named q \<and> i32_range (dr_id (draft_from sample_request)) \<and> ids_left sample_registry"
    using assms ids by (simp add: i32_range_def draft_from_def sample_request_def)
  have plan: "mu_plan ?m ?vw = Inr (store_plan sample_formats ?vw q False sample_canon 1 1 [])"
    by (simp add: register_verb_def sample_plan)
  have gate: "is_ok (gate_check (mu_intent ?m) (mode_for ?vw (mu_target ?m)) (scope_name (mu_target ?m)))"
    by (simp add: register_verb_def view_new_def sample_mode draft_from_def sample_request_def)
  have out: "pl_output (store_plan sample_formats ?vw q False sample_canon 1 1 []) = response_id 1"
    "pl_writes (store_plan sample_formats ?vw q False sample_canon 1 1 []) = [WPutSchema (qs_context q) 1 sample_stored True,
       WSetNextId (qs_context q) 2, WPutVersion (qs_context q) (qs_subject q) 1 \<lparr>vr_id = 1, vr_deleted = False, vr_ts = 0\<rparr>]"
    by (simp_all add: store_plan_def view_new_def sample_reads replaced_def stale_def hard_deletes_def answer_def
      entity_from_canon_def sample_canon_def stored_record_def sample_stored_def Let_def)
  obtain reg' where "run_locked sample_registry ?m 0 [] = Inr (reg', response_id 1)" "registry_ok reg'"
    "registry_contents reg' = spec_writes [WPutSchema (qs_context q) 1 sample_stored True,
       WSetNextId (qs_context q) 2, WPutVersion (qs_context q) (qs_subject q) 1 \<lparr>vr_id = 1, vr_deleted = False, vr_ts = 0\<rparr>]
       (registry_contents sample_registry)"
    using register.run_answers [OF fits reachable_ok [OF sample_reachable] plan gate] unfolding out by blast
  then show thesis using that fast by (simp add: run_inner_def)
qed

section \<open>A short run\<close>

lemma registry_commit_caches [simp]: "rg_parsed_by_text (registry_commit x n reg) = rg_parsed_by_text reg"
  by (simp add: registry_commit_def split: prod.split)

lemma run_keeps_caches: "run_inner early reg m now guid = Inr (reg', out) \<Longrightarrow> rg_parsed_by_text reg' = rg_parsed_by_text reg"
  by (auto simp: run_inner_def run_locked_def Let_def and_then_Inr_iff engine_apply_def map_ok_Inr_iff split: option.splits gate.splits)

lemma singleton_list:
  assumes "distinct xs" and "set xs = {p}"
  shows "xs = [p]"
proof -
  have "length xs = Suc 0" using assms distinct_card [of xs] by simp
  then obtain x where "xs = [x]" by (cases xs) auto
  then show ?thesis using assms(2) by simp
qed

lemma sample_subject: "qs_parse ''s'' = qs_new ''.'' ''s''" "is_valid_subject ''s''" "qs_named (qs_new ''.'' ''s'')"
  by (simp_all add: is_valid_subject_def qs_parse_def strip_prefix_def starts_with_def context_defs qs_named_def)

lemma sample_empty:
  "ct_version (registry_contents sample_registry) = (\<lambda>_. None)" "ct_body (registry_contents sample_registry) = (\<lambda>_. None)"
  "ct_next (registry_contents sample_registry) = (\<lambda>_. None)" "ct_fp (registry_contents sample_registry) = (\<lambda>_. None)"
  "ct_refby (registry_contents sample_registry) = (\<lambda>_. {})" "ct_config (registry_contents sample_registry) = (\<lambda>_. None)"
  "ct_mode (registry_contents sample_registry) = (\<lambda>_. None)"
  by (auto simp: fun_eq_iff registry_contents_def contents_of_simps sample_registry_def registry_new_def ctx_state_of_def
    snapshot_default_def store_get_schema_def db_empty_def version_of_def refby_of_def)

lemma sample_registered:
  obtains reg where "reachable sample_formats default_tenant reg" "sample_contents False (registry_contents reg)"
    "run_inner (view_new sample_registry 0 []) sample_registry
      (register_verb sample_formats (qs_parse ''s'') (draft_from sample_request) False) 0 [] = Inr (reg, response_id 1)"
    "ct_mode (registry_contents reg) = (\<lambda>_. None)" "rg_parsed_by_text reg = (\<lambda>_. None)"
proof -
  let ?m = "register_verb sample_formats (qs_parse ''s'') (draft_from sample_request) False"
  obtain reg where run: "run_inner (view_new sample_registry 0 []) sample_registry ?m 0 [] = Inr (reg, response_id 1)"
    and con: "registry_contents reg = spec_writes [WPutSchema ''.'' 1 sample_stored True,
       WSetNextId ''.'' 2, WPutVersion ''.'' ''s'' 1 \<lparr>vr_id = 1, vr_deleted = False, vr_ts = 0\<rparr>]
       (registry_contents sample_registry)"
    using sample_run [of "qs_parse ''s''"] sample_subject by (auto simp: qs_new_def)
  have verb: "RegisterSchema sample_formats ''s'' sample_request False = Inr ?m"
    using sample_subject by (simp add: RegisterSchema_def Let_def)
  have "request sample_formats (mu_target ?m) (mu_intent ?m) sample_registry reg"
    by (rule request_register [OF verb])
      (use run in \<open>auto simp: i32_range_def sample_draft ids_left_def sample_empty performed_def\<close>)
  then have reach: "reachable sample_formats default_tenant reg"
    by (rule reach_step [OF sample_reachable step_request])
  have none: "rg_parsed_by_text reg = (\<lambda>_. None)"
    using run_keeps_caches [OF run] by (simp add: sample_registry_def registry_new_def)
  have "sample_contents False (registry_contents reg)" "ct_mode (registry_contents reg) = (\<lambda>_. None)"
    by (auto simp: sample_contents_def con sample_empty sample_version_def fun_eq_iff)
  then show thesis using that reach run none by blast
qed

lemma reader_singletons:
  assumes "registry_ok reg" and "sample_contents deleted (registry_contents reg)"
  defines "r \<equiv> registry_reader reg"
  shows "rd_list_versions r ''.'' ''s'' = [(1, sample_version deleted)]"
    and "rd_get_version r c u v = (if (c, u, v) = (''.'', ''s'', 1) then Some (sample_version deleted) else None)"
    and "set (rd_id_usages r ''.'' 1) = {(''s'', 1)}" and "rd_get_schema r ''.'' 1 = Some sample_stored"
    and "rd_next_id r ''.'' = 2" and "rd_get_config r sc = None" and "rd_referenced_by r c u v = []"
    and "rd_id_for_fingerprint r ''.'' (sr_fingerprint sample_stored) = Some 1"
    and "rd_get_mode r sc = ct_mode (registry_contents reg) sc"
proof -
  note ok = reader_of [OF assms(1), folded r_def]
  have seen: "seen r = registry_contents reg" by (simp add: r_def)
  note sees = reader_sees [OF ok] and con = assms(2) [unfolded sample_contents_def]
  have "distinct (rd_list_versions r ''.'' ''s'')" using sees(8) by (auto simp: wf_table_def strict_sorted_iff distinct_map)
  moreover have "set (rd_list_versions r ''.'' ''s'') = {(1, sample_version deleted)}"
    using sees(5) con by (auto simp: seen split: if_splits)
  ultimately show "rd_list_versions r ''.'' ''s'' = [(1, sample_version deleted)]" by (rule singleton_list)
  show "rd_get_version r c u v = (if (c, u, v) = (''.'', ''s'', 1) then Some (sample_version deleted) else None)"
    using con by (simp add: sees(1) seen)
  show "set (rd_id_usages r ''.'' 1) = {(''s'', 1)}"
    using sees(4) [of _ _ "''.''" 1] con by (auto simp: seen sample_version_def split: if_splits)
  show "rd_get_schema r ''.'' 1 = Some sample_stored" "rd_next_id r ''.'' = 2" using con by (simp_all add: sees(2,3) seen)
  have eq: "registry_contents reg = contents_of (rg_tenant reg) (rg_db reg) (rg_snapshot reg)" by (simp add: registry_contents_def)
  have snap: "rd_snap r = rg_snapshot reg" by (simp add: r_def registry_reader_def)
  show "rd_get_config r sc = None" "rd_referenced_by r c u v = []" "rd_get_mode r sc = ct_mode (registry_contents reg) sc"
    "rd_id_for_fingerprint r ''.'' (sr_fingerprint sample_stored) = Some 1"
    using con unfolding rd_get_config_def rd_get_mode_def rd_referenced_by_def rd_id_for_fingerprint_def snap
    by (auto simp: eq contents_of_def fun_eq_iff split: if_splits)
qed

lemma sample_modes:
  assumes "registry_ok reg" and "sample_contents deleted (registry_contents reg)" and "ct_mode (registry_contents reg) = (\<lambda>_. None)"
  shows "mode_in_scope (registry_reader reg) q = Readwrite" and "global_mode_in (registry_reader reg) = Readwrite"
  by (simp_all add: mode_in_scope_def global_mode_in_def Let_def reader_singletons(9) [OF assms(1,2)] assms(3))

lemma sample_deleted:
  obtains reg reg' where "reachable sample_formats default_tenant reg" "sample_contents False (registry_contents reg)"
    "run_inner early reg (DeleteSubject ''s'' False) 0 [] = Inr (reg', [1])"
    "reachable sample_formats default_tenant reg'" "sample_contents True (registry_contents reg')"
    "ct_mode (registry_contents reg') = (\<lambda>_. None)"
proof -
  obtain reg where reach: "reachable sample_formats default_tenant reg" and con: "sample_contents False (registry_contents reg)"
    and modes: "ct_mode (registry_contents reg) = (\<lambda>_. None)" by (rule sample_registered)
  note ok = reachable_ok [OF reach]
  note reads = reader_singletons [OF ok con] and mode = sample_modes [OF ok con modes]
  let ?m = "DeleteSubject ''s'' False :: (string, u32 list) mutation" and ?vw = "view_new reg 0 []"
  define p where "p = plan_writes (WPutVersion ''.'' ''s'' 1 (sample_version True) # drop_settings (qs_new ''.'' ''s''))
      (plan_new [1 :: u32])\<lparr>pl_events := [soft_delete_event (qs_new ''.'' ''s'') 1 (sample_version False)]\<rparr>"
  have "check_deletable (registry_reader reg) (qs_new ''.'' ''s'') False (1, sample_version False) = Inr ()"
    by (simp add: check_deletable_def check_not_referenced_def live_referrers_def reads)
  then have plan: "mu_plan ?m ?vw = Inr p"
    by (simp add: DeleteSubject_def Let_def sample_subject delete_subject_plan_def has_subjects_def any_version_def
      reads qs_new_def sample_version_def soft_deleted_def p_def)
  have gate: "is_ok (gate_check (mu_intent ?m) (mode_for ?vw (mu_target ?m)) (scope_name (mu_target ?m)))"
    by (simp add: DeleteSubject_def Let_def mode)
  obtain reg' where run: "run_locked reg ?m 0 [] = Inr (reg', pl_output p)"
    and con': "registry_contents reg' = spec_writes (pl_writes p) (registry_contents reg)"
    using delete_subject.run_answers [OF TrueI ok plan gate] by blast
  have out: "pl_output p = [1]" by (simp add: p_def)
  have inner: "run_inner early reg ?m 0 [] = Inr (reg', [1])"
    using run out by (simp add: run_inner_def DeleteSubject_def Let_def no_fast_path_def)
  then have "request sample_formats (TSubject (qs_parse ''s'')) IModify reg reg'"
    by (intro request_delete_subject) (auto simp: performed_def)
  then have reach': "reachable sample_formats default_tenant reg'" by (rule reach_step [OF reach step_request])
  have "sample_contents True (registry_contents reg')" "ct_mode (registry_contents reg') = (\<lambda>_. None)"
    using con modes by (auto simp: con' p_def sample_contents_def drop_settings_def Let_def fun_eq_iff)
  then show thesis using that reach con inner reach' by blast
qed

lemma collect_ok_total: "(\<And>x. x \<in> set xs \<Longrightarrow> \<exists>y. f x = Inr y) \<Longrightarrow> \<exists>ys. collect_ok f xs = Inr ys"
  by (induction xs) (fastforce simp: and_then_Inr_iff)+

lemma sample_imported:
  obtains reg reg' where "reachable sample_formats default_tenant reg" "sample_contents True (registry_contents reg)"
    "mode_for (view_new reg 0 []) (target_of (map_option qs_parse None)) \<noteq> Import"
    "run_inner early reg (SetMode None Import False) 0 [] = Inr (reg', ())"
proof -
  obtain reg where reach: "reachable sample_formats default_tenant reg" and con: "sample_contents True (registry_contents reg)"
    and modes: "ct_mode (registry_contents reg) = (\<lambda>_. None)" by (rule sample_deleted)
  note ok = reachable_ok [OF reach]
  note reads = reader_singletons [OF ok con] and mode = sample_modes [OF ok con modes] and r = reader_of [OF ok]
  let ?m = "SetMode None Import False :: (string, unit) mutation" and ?vw = "view_new reg 0 []"
  have live: "\<not> any_version False (rd_list_versions (registry_reader reg) c u)" for c u
    using con by (auto simp: any_version_def list_ex_iff reader_sees(5) [OF r] sample_contents_def sample_version_def split: if_splits)
  have "check_not_referenced (registry_reader reg) sq v = Inr ()" for sq v
    by (simp add: check_not_referenced_def live_referrers_def reads)
  then have "\<exists>doomed. doomed_versions ?vw None = Inr doomed"
    unfolding doomed_versions_def Let_def view_reader by (intro collect_ok_total) auto
  then obtain p where plan: "mu_plan ?m ?vw = Inr p"
    using live by (auto simp: SetMode_def set_mode_plan_def Let_def mode target_of_def has_any_subject_def list_ex_iff)
  have gate: "is_ok (gate_check (mu_intent ?m) (mode_for ?vw (mu_target ?m)) (scope_name (mu_target ?m)))"
    by (simp add: SetMode_def Let_def)
  have fits: "named_target (target_of (map_option qs_parse None))" by (simp add: target_of_def)
  obtain reg' where "run_locked reg ?m 0 [] = Inr (reg', pl_output p)"
    using set_mode.run_answers [OF fits ok plan gate] by blast
  then have "run_inner early reg ?m 0 [] = Inr (reg', ())"
    by (simp add: run_inner_def SetMode_def Let_def no_fast_path_def)
  then show thesis using that reach con mode by (simp add: target_of_def)
qed

lemma sample_again:
  assumes "reachable sample_formats default_tenant reg" and "sample_contents False (registry_contents reg)"
    and "rg_parsed_by_text reg = (\<lambda>_. None)"
  shows "fast_path (register_verb sample_formats (qs_parse ''s'') (draft_from sample_request) False) (view_new reg now guid)
    = Inr (Some (response_id 1))"
proof -
  note reads = reader_singletons [OF reachable_ok [OF assms(1)] assms(2)]
  let ?r = "registry_reader reg" and ?q = "qs_new ''.'' ''s''"
  have canon: "canonicalize sample_formats ?r ?q (draft_from sample_request) False norm = Inr (Some sample_canon)" for norm
    by (simp add: canonicalize_def draft_from_def sample_request_def sample_canon_def resolve_references_def
      parse_cached_def parse_with_def sample_formats_def sample_text assms(3))
  have cfg: "\<not> has_defaults_or_overrides (config_in_scope ?r ?q)"
    by (simp add: config_in_scope_def Let_def reads filled_def config_default_def has_defaults_or_overrides_def)
  have ne: "rd_id_usages ?r ''.'' 1 \<noteq> []" using reads(3) by auto
  let ?vs = "map snd (filter (\<lambda>(s, _). s = ''s'') (rd_id_usages ?r ''.'' 1))"
  have vs: "set ?vs = {1}" unfolding set_map set_filter reads(3) by auto
  have "list_max xs = Some 1" if xs: "set xs = {1}" for xs
  proof -
    obtain y where y: "list_max xs = Some y" using xs by (cases xs) auto
    then show ?thesis using list_max_member [OF y] xs by simp
  qed
  from this [OF vs] have hash: "hash_lookup sample_formats ?r ?q sample_canon = Some (1, Some (1, sample_version False))"
    using ne reads(8) by (simp add: hash_lookup_def qs_new_def reads Let_def sample_stored_def)
  have "lookup_under_subject sample_formats ?r ?q (draft_from sample_request) norm False False
      = Inr (Some (entity_from_canon ?q 1 1 sample_canon))" for norm
    by (simp add: lookup_under_subject_def canon hash sample_version_def)
  then show ?thesis
    by (simp add: register_verb_def sample_subject register_fast_path_def Let_def cfg sample_draft entity_from_canon_def)
qed

lemma sample_readonly:
  obtains reg reg' where "reachable sample_formats default_tenant reg"
    "mode_for (view_new reg 0 []) (TSubject (qs_parse ''s'')) = Readonly"
    "request sample_formats (TSubject (qs_parse ''s'')) IWrite reg reg'"
proof -
  obtain reg where reach: "reachable sample_formats default_tenant reg" and con: "sample_contents False (registry_contents reg)"
    and modes: "ct_mode (registry_contents reg) = (\<lambda>_. None)" and none: "rg_parsed_by_text reg = (\<lambda>_. None)"
    by (rule sample_registered)
  note ok = reachable_ok [OF reach]
  let ?m = "SetMode None Readonly False :: (string, unit) mutation" and ?vw = "view_new reg 0 []"
  define p where "p = plan_writes [WPutMode ScGlobal Readonly] (plan_new ())\<lparr>pl_events := []\<rparr>"
  have plan: "mu_plan ?m ?vw = Inr p"
    by (simp add: SetMode_def set_mode_plan_def Let_def target_of_def p_def scope_of_def)
  have gate: "is_ok (gate_check (mu_intent ?m) (mode_for ?vw (mu_target ?m)) (scope_name (mu_target ?m)))"
    by (simp add: SetMode_def Let_def)
  have fits: "named_target (target_of (map_option qs_parse None))" by (simp add: target_of_def)
  obtain reg' where run: "run_locked reg ?m 0 [] = Inr (reg', pl_output p)"
    and con': "registry_contents reg' = spec_writes (pl_writes p) (registry_contents reg)"
    using set_mode.run_answers [OF fits ok plan gate] by blast
  then have inner: "run_inner ?vw reg ?m 0 [] = Inr (reg', ())"
    by (simp add: run_inner_def SetMode_def Let_def no_fast_path_def)
  then have "request sample_formats (target_of (map_option qs_parse None)) ISetMode reg reg'"
    by (intro request_set_mode) (auto simp: performed_def subject_named_def)
  then have reach': "reachable sample_formats default_tenant reg'" by (rule reach_step [OF reach step_request])
  have sc: "sample_contents False (registry_contents reg')" using con by (simp add: con' p_def sample_contents_def)
  note reads = reader_singletons [OF reachable_ok [OF reach'] sc]
  have "mode_for (view_new reg' 0 []) (TSubject (qs_parse ''s'')) = Readonly"
    using modes by (simp add: mode_in_scope_def global_mode_in_def Let_def reads con' p_def sample_subject qs_new_def
      scope_for_def is_context_only_def DEFAULT_CONTEXT_def)
  moreover have "request sample_formats (TSubject (qs_parse ''s'')) IWrite reg' reg'"
  proof -
    let ?v = "register_verb sample_formats (qs_parse ''s'') (draft_from sample_request) False"
    have "run_inner (view_new reg' 0 []) reg' ?v 0 [] = Inr (reg', response_id 1)"
      using sample_again [OF reach' sc] run_keeps_caches [OF inner] none by (simp add: run_inner_def)
    moreover have "ids_left reg'" using sc by (auto simp: ids_left_def sample_contents_def)
    moreover have "RegisterSchema sample_formats ''s'' sample_request False = Inr ?v"
      using sample_subject by (simp add: RegisterSchema_def Let_def)
    ultimately have "request sample_formats (mu_target ?v) (mu_intent ?v) reg' reg'"
      by (intro request_register) (auto simp: performed_def i32_range_def sample_draft)
    then show ?thesis by (simp add: register_verb_def sample_draft)
  qed
  ultimately show thesis using that reach' by blast
qed

theorem reachable_consistent_witness:
  "\<exists>reg vr rec. reachable sample_formats default_tenant reg \<and> rd_get_version (registry_reader reg) ''.'' ''s'' 1 = Some vr
    \<and> rd_get_schema (registry_reader reg) ''.'' (vr_id vr) = Some rec \<and> vr_id vr < rd_next_id (registry_reader reg) ''.''"
proof -
  obtain reg where reach: "reachable sample_formats default_tenant reg" and con: "sample_contents False (registry_contents reg)"
    by (rule sample_registered)
  have "rd_get_version (registry_reader reg) ''.'' ''s'' 1 = Some (sample_version False)"
    using reader_singletons(2) [OF reachable_ok [OF reach] con] by simp
  then show ?thesis using reachable_consistent [OF reach] reach by blast
qed

theorem restart_recovers_witness:
  "\<exists>s. load_snapshot default_tenant db_empty = Inr s
    \<and> registry_contents (registry_new default_tenant db_empty s Backward True :: string registry) = registry_contents sample_registry"
  using restart_recovers [OF sample_reachable, where level = Backward and norm = True] by (auto simp: sample_registry_def registry_new_def)

theorem request_respects_mode_witness:
  "\<exists>reg reg'. reachable sample_formats default_tenant reg \<and> request sample_formats (TSubject (qs_parse ''s'')) IWrite reg reg'
    \<and> mode_for (view_new reg 0 []) (TSubject (qs_parse ''s'')) = Readonly \<and> reg' = reg"
proof -
  obtain reg reg' where run: "reachable sample_formats default_tenant reg"
    "mode_for (view_new reg 0 []) (TSubject (qs_parse ''s'')) = Readonly"
    "request sample_formats (TSubject (qs_parse ''s'')) IWrite reg reg'"
    by (rule sample_readonly)
  have "reg' = reg" by (rule request_respects_mode [OF run(1,3)]) (use run(2) in \<open>simp_all add: schema_state_intent_def\<close>)
  then show ?thesis using run by blast
qed

theorem request_stays_in_context_witness:
  "\<exists>reg reg'. reachable sample_formats default_tenant reg \<and> request sample_formats (TSubject (qs_parse ''s'')) IModify reg reg'
    \<and> ct_version (registry_contents reg) (''.'', ''s'', 1) = Some (sample_version False)
    \<and> ct_version (registry_contents reg') (''.'', ''s'', 1) = Some (sample_version True)
    \<and> same_outside ''.'' (registry_contents reg) (registry_contents reg')"
proof -
  obtain reg reg' where reach: "reachable sample_formats default_tenant reg"
    and con: "sample_contents False (registry_contents reg)" "sample_contents True (registry_contents reg')"
    and run: "run_inner (view_new sample_registry 0 []) reg (DeleteSubject ''s'' False) 0 [] = Inr (reg', [1])"
    by (rule sample_deleted)
  have req: "request sample_formats (TSubject (qs_parse ''s'')) IModify reg reg'"
    by (intro request_delete_subject) (use run in \<open>auto simp: performed_def\<close>)
  then have "same_outside (qs_context (qs_parse ''s'')) (registry_contents reg) (registry_contents reg')"
    by (rule request_stays_in_context [OF reach]) simp
  then show ?thesis
    using reach con req by (intro exI [of _ reg] exI [of _ reg']) (simp add: sample_subject qs_new_def sample_contents_def)
qed

theorem id_content_stable_witness:
  "\<exists>reg reg'. registry_step sample_formats reg reg' \<and> rd_id_usages (registry_reader reg) ''.'' 1 \<noteq> []
    \<and> rd_get_version (registry_reader reg) ''.'' ''s'' 1 \<noteq> rd_get_version (registry_reader reg') ''.'' ''s'' 1
    \<and> rd_get_schema (registry_reader reg') ''.'' 1 = rd_get_schema (registry_reader reg) ''.'' 1"
proof -
  obtain reg reg' where reach: "reachable sample_formats default_tenant reg" "reachable sample_formats default_tenant reg'"
    and con: "sample_contents False (registry_contents reg)" "sample_contents True (registry_contents reg')"
    and run: "run_inner (view_new sample_registry 0 []) reg (DeleteSubject ''s'' False) 0 [] = Inr (reg', [1])"
    by (rule sample_deleted)
  have "request sample_formats (TSubject (qs_parse ''s'')) IModify reg reg'"
    by (intro request_delete_subject) (use run in \<open>auto simp: performed_def\<close>)
  then have step: "registry_step sample_formats reg reg'" by (rule step_request)
  note reads = reader_singletons [OF reachable_ok [OF reach(1)] con(1)] reader_singletons [OF reachable_ok [OF reach(2)] con(2)]
  have used: "rd_id_usages (registry_reader reg) ''.'' 1 \<noteq> []" "rd_id_usages (registry_reader reg') ''.'' 1 \<noteq> []"
    using reads(3,12) by auto
  show ?thesis
    using id_content_stable [OF reach(1) step used] step used reads(2,11)
    by (intro exI [of _ reg] exI [of _ reg']) (simp add: sample_version_def)
qed

theorem engine_apply_refines_witness:
  "\<exists>reg'. engine_apply sample_registry (plan_write (WPutMode ScGlobal Readonly) (plan_new ())) Allowed = Inr (reg', ())
    \<and> ct_mode (registry_contents reg') ScGlobal = Some Readonly"
proof -
  let ?p = "plan_write (WPutMode ScGlobal Readonly) (plan_new ())"
  have ok: "registry_sound sample_registry" "in_sync (rg_tenant sample_registry) (rg_db sample_registry) (rg_snapshot sample_registry)"
    using reachable_ok [OF sample_reachable] by (auto simp: registry_ok_def registry_sound_def at_rest_def)
  have "writes_ok (pl_writes ?p) (rg_snapshot sample_registry)" by (rule spec_writes_ok [OF ok(2)]) simp_all
  then show ?thesis using engine_apply_refines [OF ok(1), of ?p Allowed] by auto
qed

theorem delete_subject_effect_witness:
  "\<exists>reg reg'. reachable sample_formats default_tenant reg
    \<and> run_inner (view_new reg 0 []) reg (DeleteSubject ''s'' False) 0 [] = Inr (reg', [1])
    \<and> rd_get_version (registry_reader reg') ''.'' ''s'' 1
        = map_option (\<lambda>vr. vr\<lparr>vr_deleted := True\<rparr>) (rd_get_version (registry_reader reg) ''.'' ''s'' 1)
    \<and> rd_get_version (registry_reader reg) ''.'' ''s'' 1 \<noteq> None"
proof -
  obtain reg reg' where reach: "reachable sample_formats default_tenant reg" and con: "sample_contents False (registry_contents reg)"
    and run: "run_inner (view_new sample_registry 0 []) reg (DeleteSubject ''s'' False) 0 [] = Inr (reg', [1])"
    by (rule sample_deleted)
  then have run: "run_inner (view_new reg 0 []) reg (DeleteSubject ''s'' False) 0 [] = Inr (reg', [1])"
    by (simp add: run_inner_def DeleteSubject_def Let_def no_fast_path_def)
  show ?thesis
    using delete_subject_effect [OF reach run refl, of "''.''" "''s''" 1] reach run reader_singletons(2) [OF reachable_ok [OF reach] con]
    by (auto simp: sample_subject qs_new_def)
qed

theorem import_mode_empties_scope_witness:
  "\<exists>reg reg'. reachable sample_formats default_tenant reg \<and> rd_get_version (registry_reader reg) ''.'' ''s'' 1 \<noteq> None
    \<and> run_inner (view_new sample_registry 0 []) reg (SetMode None Import False) 0 [] = Inr (reg', ())
    \<and> rd_get_version (registry_reader reg') ''.'' ''s'' 1 = None"
proof -
  obtain reg reg' where reach: "reachable sample_formats default_tenant reg" and con: "sample_contents True (registry_contents reg)"
    and mode: "mode_for (view_new reg 0 []) (target_of (map_option qs_parse None)) \<noteq> Import"
    and run: "run_inner (view_new sample_registry 0 []) reg (SetMode None Import False) 0 [] = Inr (reg', ())"
    by (rule sample_imported)
  show ?thesis
    using import_mode_empties_scope [OF reach _ run mode, of "''.''" "''s''" 1] reach run
      reader_singletons(2) [OF reachable_ok [OF reach] con] by (auto simp: subject_named_def in_mode_scope_def)
qed

theorem register_answer_live_witness:
  "\<exists>reg. run_inner (view_new sample_registry 0 []) sample_registry
      (register_verb sample_formats (qs_parse ''s'') (draft_from sample_request) False) 0 [] = Inr (reg, response_id 1)
    \<and> live_id (registry_reader reg) (qs_parse ''s'') 1"
proof -
  obtain reg where run: "run_inner (view_new sample_registry 0 []) sample_registry
      (register_verb sample_formats (qs_parse ''s'') (draft_from sample_request) False) 0 [] = Inr (reg, response_id 1)"
    by (rule sample_registered)
  have verb: "RegisterSchema sample_formats ''s'' sample_request False
      = Inr (register_verb sample_formats (qs_parse ''s'') (draft_from sample_request) False)"
    using sample_subject by (simp add: RegisterSchema_def Let_def)
  have "live_id (registry_reader reg) (qs_parse ''s'') (rsp_id (response_id 1))"
    using register_answer_live [OF sample_reachable verb _ _ run]
    by (simp add: i32_range_def sample_draft ids_left_def sample_empty)
  then show ?thesis using run by (auto simp: response_id_def)
qed

end
