(* ===== verification/Locks.thy ===== *)
theory Locks
  imports Contracts
begin

text \<open>
  Who may write at the same time (\<open>src/src/registry/locks.rs\<close>, with the lock use of \<open>engine.rs\<close>,
  \<open>Registry::commit\<close> and \<open>Store::tx\<close>): the locks a target takes and their order, threads as sequences of
  lock operations, and all their interleavings.  The hasher that picks a stripe is a parameter.  The
  theorems: conflicting writers exclude each other, no schedule deadlocks and every one completes, and
  commits of different contexts may be published in either order.
\<close>

section \<open>Locks\<close>

definition CONTEXT_STRIPES :: nat where
  "CONTEXT_STRIPES = 64"

datatype lock = ContainerShared | ContainerExclusive | ContextStripe nat | ExportersLock | Counters | Publish

definition stripe :: "(string \<Rightarrow> u64) \<Rightarrow> string \<Rightarrow> nat" where
  "stripe hash ctx = unat (hash ctx) mod CONTEXT_STRIPES"

fun acquire :: "(string \<Rightarrow> u64) \<Rightarrow> target \<Rightarrow> lock list" where
  "acquire hash TGlobal = [ContainerExclusive]"
| "acquire hash TExporters = [ExportersLock]"
| "acquire hash (TContext ctx) = [ContainerShared, ContextStripe (stripe hash ctx)]"
| "acquire hash (TSubject q) = [ContainerShared, ContextStripe (stripe hash (qs_context q))]"

section \<open>What a thread does\<close>

text \<open>A request under the lock, with its outcome - a plan that is committed, or a refusal - and the exporter
  worker recording progress.  A committed plan takes the counter lock from the opening of its batch to the
  end of the durable write, and the publish lock around the swap of the snapshot.\<close>

datatype job = Mutate target bool | Progress

datatype action = Acquire lock | Release lock | WriteBatch | SwapSnapshot

fun guard_locks :: "(string \<Rightarrow> u64) \<Rightarrow> job \<Rightarrow> lock list" where
  "guard_locks hash (Mutate t ok) = acquire hash t"
| "guard_locks hash Progress = [ExportersLock]"

fun job_body :: "job \<Rightarrow> action list" where
  "job_body (Mutate t ok) =
    (if ok then [Acquire Counters, WriteBatch, Release Counters, Acquire Publish, SwapSnapshot, Release Publish] else [])"
| "job_body Progress = [WriteBatch]"

definition job_actions :: "(string \<Rightarrow> u64) \<Rightarrow> job \<Rightarrow> action list" where
  "job_actions hash j = map Acquire (guard_locks hash j) @ job_body j @ map Release (guard_locks hash j)"

section \<open>Interleavings\<close>

record thread =
  th_job :: job
  th_pc :: nat

fun effect :: "lock set \<Rightarrow> action \<Rightarrow> lock set" where
  "effect H (Acquire l) = insert l H"
| "effect H (Release l) = H - {l}"
| "effect H _ = H"

definition held :: "(string \<Rightarrow> u64) \<Rightarrow> thread \<Rightarrow> lock set" where
  "held hash th = foldl effect {} (take (th_pc th) (job_actions hash (th_job th)))"

definition done_with :: "(string \<Rightarrow> u64) \<Rightarrow> thread \<Rightarrow> bool" where
  "done_with hash th \<longleftrightarrow> length (job_actions hash (th_job th)) \<le> th_pc th"

definition pending :: "(string \<Rightarrow> u64) \<Rightarrow> thread \<Rightarrow> action option" where
  "pending hash th = (if done_with hash th then None else Some (job_actions hash (th_job th) ! th_pc th))"

fun conflict :: "lock \<Rightarrow> lock \<Rightarrow> bool" where
  "conflict ContainerShared l = (l = ContainerExclusive)"
| "conflict ContainerExclusive l = (l = ContainerShared \<or> l = ContainerExclusive)"
| "conflict (ContextStripe k) l = (l = ContextStripe k)"
| "conflict ExportersLock l = (l = ExportersLock)"
| "conflict Counters l = (l = Counters)"
| "conflict Publish l = (l = Publish)"

text \<open>When a lock is granted.  The shared side of the container lock may also be withheld while a writer
  waits for it (\<open>fair\<close>): the library leaves that open, so both are considered.\<close>

definition grantable :: "(string \<Rightarrow> u64) \<Rightarrow> bool \<Rightarrow> thread list \<Rightarrow> nat \<Rightarrow> lock \<Rightarrow> bool" where
  "grantable hash fair ts i l \<longleftrightarrow>
     list_all (\<lambda>j. j = i \<or> (\<forall>l' \<in> held hash (ts ! j). \<not> conflict l l')) [0..<length ts]
     \<and> (fair \<and> l = ContainerShared \<longrightarrow> list_all (\<lambda>th. pending hash th \<noteq> Some (Acquire ContainerExclusive)) ts)"

definition enabled :: "(string \<Rightarrow> u64) \<Rightarrow> bool \<Rightarrow> thread list \<Rightarrow> nat \<Rightarrow> bool" where
  "enabled hash fair ts i \<longleftrightarrow> i < length ts \<and> (case pending hash (ts ! i) of
      None \<Rightarrow> False
    | Some (Acquire l) \<Rightarrow> grantable hash fair ts i l
    | Some _ \<Rightarrow> True)"

definition advance :: "thread list \<Rightarrow> nat \<Rightarrow> thread list" where
  "advance ts i = ts[i := (ts ! i)\<lparr>th_pc := Suc (th_pc (ts ! i))\<rparr>]"

text \<open>Runs of a group of threads, with the number of actions taken.\<close>

inductive threads_run :: "(string \<Rightarrow> u64) \<Rightarrow> bool \<Rightarrow> job list \<Rightarrow> nat \<Rightarrow> thread list \<Rightarrow> bool" for hash fair js where
  threads_start: "threads_run hash fair js 0 (map (\<lambda>j. \<lparr>th_job = j, th_pc = 0\<rparr>) js)"
| threads_step: "threads_run hash fair js n ts \<Longrightarrow> enabled hash fair ts i \<Longrightarrow> threads_run hash fair js (Suc n) (advance ts i)"

definition total_actions :: "(string \<Rightarrow> u64) \<Rightarrow> job list \<Rightarrow> nat" where
  "total_actions hash js = sum_list (map (\<lambda>j. length (job_actions hash j)) js)"

text \<open>The job runs under its guard.\<close>

definition in_section :: "(string \<Rightarrow> u64) \<Rightarrow> thread \<Rightarrow> bool" where
  "in_section hash th \<longleftrightarrow> set (guard_locks hash (th_job th)) \<subseteq> held hash th"

fun excludes :: "target \<Rightarrow> target \<Rightarrow> bool" where
  "excludes TExporters t = (t = TExporters)"
| "excludes TGlobal t = (t \<noteq> TExporters)"
| "excludes (TContext c) t = (t = TGlobal \<or> t = TContext c \<or> (\<exists>u. t = TSubject \<lparr>qs_context = c, qs_subject = u\<rparr>))"
| "excludes (TSubject q) t = (t = TGlobal \<or> t = TContext (qs_context q)
     \<or> (\<exists>u. t = TSubject \<lparr>qs_context = qs_context q, qs_subject = u\<rparr>))"

text \<open>Writes that keep to one context, reference edges included.\<close>

fun write_local :: "string \<Rightarrow> registry_write \<Rightarrow> bool" where
  "write_local c (WPutRefby c' u v i) = (c' = c)"
| "write_local c (WDeleteRefby c' u v i) = (c' = c)"
| "write_local c w = write_in c w"

fun scope_context :: "scope \<Rightarrow> string option" where
  "scope_context ScGlobal = None"
| "scope_context (ScContext c) = Some c"
| "scope_context (ScSubject c u) = Some c"

text \<open>Two contents agree on some contexts; global settings and exporters belong to no context.\<close>

definition agree :: "string option set \<Rightarrow> contents \<Rightarrow> contents \<Rightarrow> bool" where
  "agree S a b \<longleftrightarrow>
     (\<forall>c u v. Some c \<in> S \<longrightarrow> ct_version a (c, u, v) = ct_version b (c, u, v) \<and> ct_refby a (c, u, v) = ct_refby b (c, u, v))
     \<and> (\<forall>c i. Some c \<in> S \<longrightarrow> ct_body a (c, i) = ct_body b (c, i))
     \<and> (\<forall>c. Some c \<in> S \<longrightarrow> ct_next a c = ct_next b c)
     \<and> (\<forall>c f. Some c \<in> S \<longrightarrow> ct_fp a (c, f) = ct_fp b (c, f))
     \<and> (\<forall>sc. scope_context sc \<in> S \<longrightarrow> ct_config a sc = ct_config b sc \<and> ct_mode a sc = ct_mode b sc)
     \<and> (None \<in> S \<longrightarrow> ct_exporter a = ct_exporter b)"

section \<open>Where a thread can stand\<close>

lemma positions: "pc < n \<Longrightarrow> list_all P [0..<n] \<Longrightarrow> P pc"
  by (simp add: list_all_iff)

lemma phase_at:
  assumes "pc < length (job_actions hash j)"
  shows "case job_actions hash j ! pc of
      Acquire l \<Rightarrow> l \<in> {ContainerShared, ContainerExclusive, ExportersLock} \<and> foldl effect {} (take pc (job_actions hash j)) = {}
        \<or> (\<exists>k. l = ContextStripe k) \<and> foldl effect {} (take pc (job_actions hash j)) = {ContainerShared}
        \<or> l \<in> {Counters, Publish} \<and> foldl effect {} (take pc (job_actions hash j)) = set (guard_locks hash j)
    | _ \<Rightarrow> True"
  using assms
proof (rule positions)
  show "list_all (\<lambda>pc. case job_actions hash j ! pc of
      Acquire l \<Rightarrow> l \<in> {ContainerShared, ContainerExclusive, ExportersLock} \<and> foldl effect {} (take pc (job_actions hash j)) = {}
        \<or> (\<exists>k. l = ContextStripe k) \<and> foldl effect {} (take pc (job_actions hash j)) = {ContainerShared}
        \<or> l \<in> {Counters, Publish} \<and> foldl effect {} (take pc (job_actions hash j)) = set (guard_locks hash j)
    | _ \<Rightarrow> True) [0..<length (job_actions hash j)]"
  proof (cases j)
    case (Mutate t ok)
    then show ?thesis by (cases t; cases ok) (simp_all add: job_actions_def upt_rec insert_commute insert_Diff_if)
  next
    case Progress
    then show ?thesis by (simp add: job_actions_def upt_rec)
  qed
qed

lemma pending_phase:
  assumes "pending hash th = Some (Acquire l)"
  shows "l \<in> {ContainerShared, ContainerExclusive, ExportersLock} \<and> held hash th = {}
    \<or> (\<exists>k. l = ContextStripe k) \<and> held hash th = {ContainerShared}
    \<or> l \<in> {Counters, Publish} \<and> held hash th = set (guard_locks hash (th_job th))"
  using phase_at [of "th_pc th" hash "th_job th"] assms by (auto simp: pending_def done_with_def held_def split: if_splits)

lemma done_holds_nothing: "done_with hash th \<Longrightarrow> held hash th = {}"
proof -
  obtain j pc where th: "th = \<lparr>th_job = j, th_pc = pc\<rparr>" by (cases th) auto
  have "foldl effect {} (job_actions hash j) = {}"
  proof (cases j)
    case (Mutate t ok)
    then show ?thesis by (cases t; cases ok) (auto simp: job_actions_def)
  qed (auto simp: job_actions_def)
  then show "done_with hash th \<Longrightarrow> held hash th = {}" by (simp add: th done_with_def held_def)
qed

lemma guard_locks_order: "Counters \<notin> set (guard_locks hash j)" "Publish \<notin> set (guard_locks hash j)"
  by (cases "(hash, j)" rule: guard_locks.cases; cases "(hash, case j of Mutate t ok \<Rightarrow> t | Progress \<Rightarrow> TExporters)" rule: acquire.cases; simp)+

section \<open>No deadlock\<close>

lemma not_grantable:
  assumes "\<not> grantable hash fair ts i l"
  obtains (blocked) j l' where "j < length ts" "j \<noteq> i" "l' \<in> held hash (ts ! j)" "conflict l l'"
  | (queued) th where "th \<in> set ts" "l = ContainerShared" "pending hash th = Some (Acquire ContainerExclusive)"
  using assms by (auto simp: grantable_def list_all_iff)

lemma some_enabled:
  assumes "i < length ts" and "\<not> done_with hash (ts ! i)"
  shows "\<exists>k. enabled hash fair ts k"
proof (rule ccontr)
  assume "\<not> ?thesis"
  then have stuck: "\<not> enabled hash fair ts k" for k by simp
  have waits: "\<exists>l. pending hash (ts ! k) = Some (Acquire l) \<and> \<not> grantable hash fair ts k l"
    if "k < length ts" "\<not> done_with hash (ts ! k)" for k
    using stuck [of k] that by (auto simp: enabled_def pending_def split: action.splits)
  have holder: "\<exists>l. pending hash (ts ! k) = Some (Acquire l) \<and> \<not> grantable hash fair ts k l"
    if "k < length ts" "l' \<in> held hash (ts ! k)" for k l'
    using waits [OF that(1)] done_holds_nothing that(2) by blast
  have late: "l \<notin> {Counters, Publish}" if "k < length ts" "pending hash (ts ! k) = Some (Acquire l)" "\<not> grantable hash fair ts k l" for k l
  proof
    assume l: "l \<in> {Counters, Publish}"
    from that(3) show False
    proof (cases rule: not_grantable)
      case (blocked j l')
      then have "l' = l" using l by auto
      moreover obtain m where "pending hash (ts ! j) = Some (Acquire m)" using holder [OF blocked(1,3)] by blast
      ultimately show False
        using pending_phase [of hash "ts ! j" m] blocked(3) l guard_locks_order [of hash "th_job (ts ! j)"] by auto
    qed (use l in simp)
  qed
  have few: "held hash (ts ! k) \<subseteq> {ContainerShared}" if k: "k < length ts" for k
  proof (cases "done_with hash (ts ! k)")
    case False
    then obtain l where "pending hash (ts ! k) = Some (Acquire l)" "\<not> grantable hash fair ts k l" using waits [OF k] by blast
    then show ?thesis using late [OF k] pending_phase [of hash "ts ! k" l] by auto
  qed (simp add: done_holds_nothing)
  have stripe: "l \<noteq> ContextStripe m" if "k < length ts" "\<not> grantable hash fair ts k l" for k l m
    using that(2) by (cases rule: not_grantable) (use few in fastforce)+
  have none: "held hash (ts ! k) = {}" if k: "k < length ts" for k
  proof (cases "done_with hash (ts ! k)")
    case False
    then obtain l where "pending hash (ts ! k) = Some (Acquire l)" "\<not> grantable hash fair ts k l" using waits [OF k] by blast
    then show ?thesis using late [OF k] stripe [OF k] pending_phase [of hash "ts ! k" l] by auto
  qed (simp add: done_holds_nothing)
  have queue: "l = ContainerShared \<and> (\<exists>th \<in> set ts. pending hash th = Some (Acquire ContainerExclusive))"
    if "k < length ts" "\<not> grantable hash fair ts k l" for k l
    using that(2) by (cases rule: not_grantable) (use none in auto)
  obtain l where "pending hash (ts ! i) = Some (Acquire l)" "\<not> grantable hash fair ts i l" using waits [OF assms] by blast
  then obtain th where "th \<in> set ts" "pending hash th = Some (Acquire ContainerExclusive)" using queue [OF assms(1)] by blast
  then obtain k where k: "k < length ts" "pending hash (ts ! k) = Some (Acquire ContainerExclusive)" by (auto simp: in_set_conv_nth)
  then have "\<not> done_with hash (ts ! k)" by (auto simp: pending_def)
  then show False using waits [OF k(1)] queue [OF k(1), of ContainerExclusive] k(2) by auto
qed

section \<open>Runs\<close>

lemma enabledD: "enabled hash fair ts i \<Longrightarrow> i < length ts \<and> th_pc (ts ! i) < length (job_actions hash (th_job (ts ! i)))"
  by (auto simp: enabled_def pending_def done_with_def split: if_splits)

lemma run_shape:
  "threads_run hash fair js n ts \<Longrightarrow> map th_job ts = js \<and> sum_list (map th_pc ts) = n
    \<and> list_all (\<lambda>th. th_pc th \<le> length (job_actions hash (th_job th))) ts"
proof (induction rule: threads_run.induct)
  case threads_start
  show ?case by (induction js) auto
next
  case (threads_step n ts i)
  note i = enabledD [OF threads_step.hyps(2)]
  have "map th_job (advance ts i) = map th_job ts" using i by (auto simp: advance_def map_update list_update_same_conv)
  moreover have "sum_list (map th_pc (advance ts i)) = Suc (sum_list (map th_pc ts))"
    using i by (auto simp: advance_def map_update sum_list_update)
  moreover have "list_all (\<lambda>th. th_pc th \<le> length (job_actions hash (th_job th))) (advance ts i)"
    using threads_step.IH i set_update_subset_insert [of ts i] by (fastforce simp: advance_def list_all_iff)
  ultimately show ?case using threads_step.IH by simp
qed

lemma pcs_bounded:
  assumes "list_all (\<lambda>th. th_pc th \<le> length (job_actions hash (th_job th))) ts"
  shows "sum_list (map th_pc ts) \<le> total_actions hash (map th_job ts)"
    and "sum_list (map th_pc ts) = total_actions hash (map th_job ts) \<longleftrightarrow> list_all (done_with hash) ts"
proof -
  have "sum_list (map th_pc ts) \<le> total_actions hash (map th_job ts)
    \<and> (sum_list (map th_pc ts) = total_actions hash (map th_job ts) \<longleftrightarrow> list_all (done_with hash) ts)"
    using assms by (induction ts) (auto simp: total_actions_def done_with_def)
  then show "sum_list (map th_pc ts) \<le> total_actions hash (map th_job ts)"
    "sum_list (map th_pc ts) = total_actions hash (map th_job ts) \<longleftrightarrow> list_all (done_with hash) ts" by blast+
qed

lemma held_step:
  assumes "th_pc th < length (job_actions hash (th_job th))"
  shows "held hash (th\<lparr>th_pc := Suc (th_pc th)\<rparr>) = effect (held hash th) (job_actions hash (th_job th) ! th_pc th)"
  using assms by (simp add: held_def take_Suc_conv_app_nth)

lemma conflict_sym: "conflict l l' = conflict l' l"
  by (cases l; cases l') auto

lemma holds_apart:
  assumes "threads_run hash fair js n ts" and "i < length ts" "j < length ts" "i \<noteq> j"
    and "l \<in> held hash (ts ! i)" "l' \<in> held hash (ts ! j)"
  shows "\<not> conflict l l'"
  using assms
proof (induction arbitrary: i j l l' rule: threads_run.induct)
  case threads_start
  then show ?case by (simp add: held_def)
next
  case (threads_step n ts k)
  note k = enabledD [OF threads_step.hyps(2)]
  let ?a = "job_actions hash (th_job (ts ! k)) ! th_pc (ts ! k)"
  have pend: "pending hash (ts ! k) = Some ?a" using k by (simp add: pending_def done_with_def)
  have new: "held hash (advance ts k ! m) = (if m = k then effect (held hash (ts ! k)) ?a else held hash (ts ! m))" if "m < length ts" for m
    using that k held_step by (auto simp: advance_def)
  have got: "\<not> conflict m m'" if "m \<in> effect (held hash (ts ! k)) ?a" "q < length ts" "q \<noteq> k" "m' \<in> held hash (ts ! q)" for m m' q
  proof (cases "m \<in> held hash (ts ! k)")
    case True
    then show ?thesis using threads_step.IH [of k q m m'] k that by auto
  next
    case False
    then have "?a = Acquire m" using that(1) by (cases ?a) auto
    then show ?thesis using threads_step.hyps(2) pend that(2-4) by (auto simp: enabled_def grantable_def list_all_iff)
  qed
  have len: "length (advance ts k) = length ts" by (simp add: advance_def)
  show ?case
    using threads_step.prems threads_step.IH [of i j l l'] got [of l j l'] got [of l' i l] new [of i] new [of j]
    by (auto simp: len conflict_sym [of l l'] split: if_splits)
qed

lemma guards_conflict:
  assumes "excludes t t'"
  shows "\<exists>l \<in> set (acquire hash t). \<exists>l' \<in> set (acquire hash t'). conflict l l'"
  using assms by (cases t; cases t') (auto split: if_splits)

section \<open>Theorems\<close>

text \<open>C9. Two requests whose targets touch - the whole registry and anything but the exporters, the same
  context, or the exporters twice - are never both inside their guarded section, in any interleaving of any
  number of threads.\<close>

theorem writers_excluded:
  assumes "threads_run hash fair js n ts" and "i < length ts" "k < length ts" "i \<noteq> k"
    and "th_job (ts ! i) = Mutate t ok" "th_job (ts ! k) = Mutate t' ok'" and "excludes t t'"
  shows "\<not> (in_section hash (ts ! i) \<and> in_section hash (ts ! k))"
proof -
  obtain l l' where "l \<in> set (acquire hash t)" "l' \<in> set (acquire hash t')" "conflict l l'"
    using guards_conflict [OF assms(7)] by blast
  then show ?thesis using holds_apart [OF assms(1-4), of l l'] assms(5,6) by (auto simp: in_section_def)
qed

text \<open>C10. Lock acquisition cannot deadlock and every request returns: as long as a thread has something left to
  do some thread can go on, whichever way the container lock treats waiting writers, and every schedule
  finishes after exactly as many actions as the threads have.\<close>

theorem locking_completes:
  assumes "threads_run hash fair js n ts"
  shows "n \<le> total_actions hash js \<and> (n = total_actions hash js \<longleftrightarrow> list_all (done_with hash) ts)
    \<and> (list_all (done_with hash) ts \<or> (\<exists>i. enabled hash fair ts i))"
proof -
  note shape = run_shape [OF assms]
  then have "n \<le> total_actions hash js" "n = total_actions hash js \<longleftrightarrow> list_all (done_with hash) ts"
    using pcs_bounded [of hash ts] by auto
  moreover have "list_all (done_with hash) ts \<or> (\<exists>i. enabled hash fair ts i)"
    using some_enabled [of _ ts hash fair] by (fastforce simp: list_all_iff in_set_conv_nth)
  ultimately show ?thesis by blast
qed

theorem writers_excluded_witness:
  "\<not> (in_section (\<lambda>_. 0) \<lparr>th_job = Mutate TGlobal True, th_pc = 1\<rparr> \<and> in_section (\<lambda>_. 0) \<lparr>th_job = Mutate (TContext ''.'') True, th_pc = 0\<rparr>)
    \<and> in_section (\<lambda>_. 0) \<lparr>th_job = Mutate TGlobal True, th_pc = 1\<rparr>"
proof -
  let ?js = "[Mutate TGlobal True, Mutate (TContext ''.'') True]"
  have "threads_run (\<lambda>_. 0) True ?js 0 (map (\<lambda>j. \<lparr>th_job = j, th_pc = 0\<rparr>) ?js)" by (rule threads_start)
  moreover have "enabled (\<lambda>_. 0) True (map (\<lambda>j. \<lparr>th_job = j, th_pc = 0\<rparr>) ?js) 0"
    by (simp add: enabled_def pending_def done_with_def job_actions_def grantable_def held_def upt_rec)
  ultimately have "threads_run (\<lambda>_. 0) True ?js 1 (advance (map (\<lambda>j. \<lparr>th_job = j, th_pc = 0\<rparr>) ?js) 0)"
    using threads_step [of "\<lambda>_. 0" True ?js 0 _ 0] by simp
  from writers_excluded [OF this, of 0 1] show ?thesis
    by (auto simp: advance_def in_section_def held_def job_actions_def)
qed

theorem locking_completes_witness:
  "\<exists>i. enabled (\<lambda>_. 0) True (map (\<lambda>j. \<lparr>th_job = j, th_pc = 0\<rparr>) [Mutate TGlobal True, Mutate (TContext ''.'') False, Progress]) i"
  using locking_completes [OF threads_start [of "\<lambda>_. 0" True "[Mutate TGlobal True, Mutate (TContext ''.'') False, Progress]"]]
  by (simp add: done_with_def job_actions_def)

section \<open>Writes of different contexts\<close>

lemma agree_eq: "agree UNIV a b \<Longrightarrow> a = b"
  by (rule contents_eqI) (auto simp: agree_def)

lemma agree_refl [simp]: "agree S a a"
  by (simp add: agree_def)

lemma agree_sym: "agree S a b \<Longrightarrow> agree S b a"
  by (simp add: agree_def)

lemma agree_trans: "agree S a b \<Longrightarrow> agree S b d \<Longrightarrow> agree S a d"
  by (simp add: agree_def)

lemma agree_mono: "agree S a b \<Longrightarrow> T \<subseteq> S \<Longrightarrow> agree T a b"
  unfolding agree_def by blast

lemma agree_Un: "agree S a b \<Longrightarrow> agree T a b \<Longrightarrow> agree (S \<union> T) a b"
  unfolding agree_def by blast

lemma scope_in_context: "scope_in c sc \<longleftrightarrow> scope_context sc = Some c"
  by (cases sc) auto

lemma local_outside: "write_local c w \<Longrightarrow> agree (- {Some c}) (spec_write w a) a"
  by (cases w) (auto simp: agree_def scope_in_context)

lemma local_inside: "write_local c w \<Longrightarrow> agree {Some c} a b \<Longrightarrow> agree {Some c} (spec_write w a) (spec_write w b)"
  by (cases w) (auto simp: agree_def scope_in_context)

lemma local_ok: "write_local c w \<Longrightarrow> agree {Some c} a b \<Longrightarrow> write_ok_at w a = write_ok_at w b"
  by (cases w) (auto simp: agree_def)

lemma locals_outside: "list_all (write_local c) ws \<Longrightarrow> agree (- {Some c}) (spec_writes ws a) a"
proof (induction ws arbitrary: a)
  case (Cons w ws)
  then have "agree (- {Some c}) (spec_writes ws (spec_write w a)) (spec_write w a)" "agree (- {Some c}) (spec_write w a) a"
    using local_outside by simp_all
  from agree_trans [OF this] show ?case by simp
qed simp

lemma locals_inside:
  "list_all (write_local c) ws \<Longrightarrow> agree {Some c} a b \<Longrightarrow> agree {Some c} (spec_writes ws a) (spec_writes ws b)
    \<and> spec_ok ws a = spec_ok ws b"
proof (induction ws arbitrary: a b)
  case (Cons w ws)
  then show ?case using local_inside [of c w a b] local_ok [of c w a b] by simp
qed simp

lemma spec_writes_commute:
  assumes "list_all (write_local c) ws" "list_all (write_local c') ws'" "c \<noteq> c'"
  shows "spec_writes ws (spec_writes ws' a) = spec_writes ws' (spec_writes ws a)"
proof -
  have one: "agree {Some k} (spec_writes xs (spec_writes ys a)) (spec_writes ys (spec_writes xs a))"
    if k: "list_all (write_local k) xs" "list_all (write_local k') ys" "k \<noteq> k'" for k k' xs ys
  proof -
    have off: "agree {Some k} (spec_writes ys b) b" for b
      by (rule agree_mono [OF locals_outside [OF k(2)]]) (use k(3) in auto)
    have "agree {Some k} (spec_writes xs (spec_writes ys a)) (spec_writes xs a)" using locals_inside [OF k(1) off] by simp
    then show ?thesis by (rule agree_trans [OF _ agree_sym [OF off]])
  qed
  let ?x = "spec_writes ws (spec_writes ws' a)" and ?y = "spec_writes ws' (spec_writes ws a)"
  let ?rest = "- {Some c, Some c'}"
  have "agree ?rest (spec_writes ws b) b" "agree ?rest (spec_writes ws' b) b" for b
    using agree_mono [OF locals_outside [OF assms(1)], of ?rest] agree_mono [OF locals_outside [OF assms(2)], of ?rest] by auto
  note off = this
  have "agree ?rest ?x a" by (rule agree_trans [OF off(1) off(2)])
  moreover have "agree ?rest ?y a" by (rule agree_trans [OF off(2) off(1)])
  ultimately have "agree ?rest ?x ?y" by (rule agree_trans [OF _ agree_sym])
  moreover have "agree ({Some c} \<union> {Some c'}) ?x ?y"
    by (rule agree_Un [OF one [OF assms] agree_sym [OF one [OF assms(2,1) assms(3) [symmetric]]]])
  ultimately have "agree (?rest \<union> ({Some c} \<union> {Some c'})) ?x ?y" by (rule agree_Un)
  moreover have "?rest \<union> ({Some c} \<union> {Some c'}) = UNIV" by auto
  ultimately show ?thesis using agree_eq by simp
qed

lemma spec_ok_frame:
  assumes "list_all (write_local c) ws" "list_all (write_local c') ws'" "c \<noteq> c'"
  shows "spec_ok ws' (spec_writes ws a) = spec_ok ws' a"
proof -
  have "agree {Some c'} (spec_writes ws a) a" by (rule agree_mono [OF locals_outside [OF assms(1)]]) (use assms(3) in auto)
  then show ?thesis using locals_inside [OF assms(2)] by blast
qed

lemma writes_ok_iff:
  assumes "in_sync t d s"
  shows "writes_ok ws s \<longleftrightarrow> list_all write_named ws \<and> spec_ok ws (contents_of t d s)"
proof
  show "writes_ok ws s \<Longrightarrow> list_all write_named ws \<and> spec_ok ws (contents_of t d s)"
    using assms
  proof (induction ws arbitrary: d s)
    case (Cons w ws)
    have w: "write_named w" "ops_ok (write_ops_of w) s" and rest: "writes_ok ws (apply_ops (write_ops_of w) s)"
      using Cons.prems(1) by (auto simp: writes_ok_def writes_ops_def ops_ok_append)
    have "list_all write_named ws \<and> spec_ok ws (spec_write w (contents_of t d s))"
      using Cons.IH [OF rest in_sync_write [OF Cons.prems(2) w]] contents_write [OF Cons.prems(2) w(1)] by simp
    then show ?case using w ops_ok_write [OF Cons.prems(2)] by simp
  qed simp
qed (use spec_writes_ok [OF assms] in blast)

lemma writes_in_turn:
  assumes "in_sync t d s" and "writes_ok ws s" "writes_ok ws' s" and "c \<noteq> c'"
    and "list_all (write_local c) ws" "list_all (write_local c') ws'"
  shows "contents_of t (write_batch (writes_batch t (ws @ ws')) d) (apply_ops (writes_ops (ws @ ws')) s)
    = spec_writes ws' (spec_writes ws (contents_of t d s))"
proof -
  have "writes_ok (ws @ ws') s"
    using assms(2,3) spec_ok_frame [OF assms(5,6,4)] by (simp add: writes_ok_iff [OF assms(1)])
  from contents_writes [OF assms(1) this] show ?thesis by simp
qed

section \<open>Theorems\<close>



end
