(* ===== verification/Http_Text.thy ===== *)
theory Http_Text
  imports Views
begin

text \<open>
  Text from the wire (\<open>src/src/api/mod.rs\<close>, the parsing helpers): percent decoding, which goes through the
  lossy UTF-8 decoding of the standard library and so always gives text, percent encoding of a path segment, the
  segments of a path, the pairs of a query and the typed parameters read from them, with the paging of listings.
  The UTF-8 decoder follows the standard library: a maximal ill-formed prefix is replaced by U+FFFD.
\<close>

section \<open>Text from the wire\<close>

text \<open>\<open>String::from_utf8_lossy\<close>: how many bytes the next sequence takes, and whether it is a character.  A
  sequence that is not is replaced as a whole by U+FFFD.\<close>

definition byte_at :: "bytes \<Rightarrow> nat \<Rightarrow> nat" where
  "byte_at bs i = (if i < length bs then of_char (bs ! i) else 0)"

definition utf8_tail :: "nat \<Rightarrow> bool" where
  "utf8_tail b = (128 \<le> b \<and> b < 192)"

text \<open>The first two bytes of a character of three, and of four, bytes: no overlong form, no surrogate, and nothing
  above U+10FFFF.\<close>

definition utf8_lead3 :: "nat \<Rightarrow> nat \<Rightarrow> bool" where
  "utf8_lead3 a b =
    (a = 0xE0 \<and> 0xA0 \<le> b \<and> b \<le> 0xBF \<or> 0xE1 \<le> a \<and> a \<le> 0xEC \<and> utf8_tail b
     \<or> a = 0xED \<and> 0x80 \<le> b \<and> b \<le> 0x9F \<or> 0xEE \<le> a \<and> a \<le> 0xEF \<and> utf8_tail b)"

definition utf8_lead4 :: "nat \<Rightarrow> nat \<Rightarrow> bool" where
  "utf8_lead4 a b =
    (a = 0xF0 \<and> 0x90 \<le> b \<and> b \<le> 0xBF \<or> 0xF1 \<le> a \<and> a \<le> 0xF3 \<and> utf8_tail b
     \<or> a = 0xF4 \<and> 0x80 \<le> b \<and> b \<le> 0x8F)"

definition utf8_class :: "nat \<Rightarrow> nat \<Rightarrow> nat \<Rightarrow> nat \<Rightarrow> nat \<times> bool" where
  "utf8_class a b c d =
    (if a < 0x80 then (1, True)
     else if 0xC2 \<le> a \<and> a \<le> 0xDF then (if utf8_tail b then (2, True) else (1, False))
     else if utf8_lead3 a b then (if utf8_tail c then (3, True) else (2, False))
     else if utf8_lead4 a b
     then (if utf8_tail c then (if utf8_tail d then (4, True) else (3, False)) else (2, False))
     else (1, False))"

definition utf8_next :: "bytes \<Rightarrow> nat \<times> bool" where
  "utf8_next bs = utf8_class (byte_at bs 0) (byte_at bs 1) (byte_at bs 2) (byte_at bs 3)"

definition REPLACEMENT :: bytes where
  "REPLACEMENT = [CHR 0xEF, CHR 0xBF, CHR 0xBD]"

function from_utf8_lossy :: "bytes \<Rightarrow> string" where
  "from_utf8_lossy bs =
    (if bs = [] then []
     else case utf8_next bs of (n, ok) \<Rightarrow> (if ok then take n bs else REPLACEMENT) @ from_utf8_lossy (drop n bs))"
  by auto

termination
proof (relation "measure length")
  fix bs :: bytes and n ok
  have both: "0 < fst x \<Longrightarrow> 0 < fst y \<Longrightarrow> 0 < fst (if c then x else y)" for x y :: "nat \<times> bool" and c by simp
  have "0 < fst (utf8_next bs)" unfolding utf8_next_def utf8_class_def by (intro both) simp_all
  moreover assume "bs \<noteq> []" and "(n, ok) = utf8_next bs"
  ultimately show "(drop n bs, bs) \<in> measure length" by (cases "utf8_next bs") simp
qed simp

text \<open>\<open>String::from_utf8\<close>: only well-formed bytes are text.\<close>

function utf8_valid :: "bytes \<Rightarrow> bool" where
  "utf8_valid bs =
    (if bs = [] then True
     else if snd (utf8_next bs) then utf8_valid (drop (fst (utf8_next bs)) bs) else False)"
  by auto

termination
proof (relation "measure length")
  fix bs :: bytes
  have both: "0 < fst x \<Longrightarrow> 0 < fst y \<Longrightarrow> 0 < fst (if c then x else y)" for x y :: "nat \<times> bool" and c by simp
  have "0 < fst (utf8_next bs)" unfolding utf8_next_def utf8_class_def by (intro both) simp_all
  moreover assume "bs \<noteq> []"
  ultimately show "(drop (fst (utf8_next bs)) bs, bs) \<in> measure length" by simp
qed simp

definition from_utf8 :: "bytes \<Rightarrow> string option" where
  "from_utf8 bs = (if utf8_valid bs then Some bs else None)"

section \<open>Percent encoding\<close>

definition hex_value :: "char \<Rightarrow> nat option" where
  "hex_value c =
    (let n = of_char c in
     if 48 \<le> n \<and> n \<le> 57 then Some (n - 48)
     else if 97 \<le> n \<and> n \<le> 102 then Some (n - 87)
     else if 65 \<le> n \<and> n \<le> 70 then Some (n - 55)
     else None)"

fun percent_bytes :: "bytes \<Rightarrow> bytes" where
  "percent_bytes [] = []"
| "percent_bytes (c # cs) =
    (if c = CHR ''+'' then CHR '' '' # percent_bytes cs
     else if c = CHR ''%'' then
       (case cs of
          a # b # rest \<Rightarrow> (case (hex_value a, hex_value b) of
              (Some h, Some l) \<Rightarrow> char_of (16 * h + l) # percent_bytes rest
            | _ \<Rightarrow> CHR ''%'' # percent_bytes cs)
        | _ \<Rightarrow> CHR ''%'' # percent_bytes cs)
     else c # percent_bytes cs)"

definition percent_decode :: "string \<Rightarrow> string" where
  "percent_decode s = from_utf8_lossy (percent_bytes s)"

definition hex_upper :: "nat \<Rightarrow> char" where
  "hex_upper n = (if n < 10 then char_of (48 + n) else char_of (55 + n))"

definition percent_escape :: "char \<Rightarrow> string" where
  "percent_escape c = (let n = of_char c :: nat in [CHR ''%'', hex_upper (n div 16), hex_upper (n mod 16)])"

definition percent_encode_segment :: "string \<Rightarrow> string" where
  "percent_encode_segment s =
    concat (map (\<lambda>c. if is_ascii_alphanumeric c \<or> c \<in> set ''-_.~:'' then [c] else percent_escape c) s)"

section \<open>Paths and queries\<close>

fun split_on :: "char \<Rightarrow> string \<Rightarrow> string list" where
  "split_on c [] = [[]]"
| "split_on c (x # xs) = (if x = c then [] # split_on c xs
     else (case split_on c xs of [] \<Rightarrow> [[x]] | p # ps \<Rightarrow> (x # p) # ps))"

definition trim_start_char :: "char \<Rightarrow> string \<Rightarrow> string" where
  "trim_start_char c s = dropWhile (\<lambda>x. x = c) s"

definition trim_end_char :: "char \<Rightarrow> string \<Rightarrow> string" where
  "trim_end_char c s = rev (dropWhile (\<lambda>x. x = c) (rev s))"

definition trim_char :: "char \<Rightarrow> string \<Rightarrow> string" where
  "trim_char c s = trim_end_char c (trim_start_char c s)"

definition path_segments :: "string \<Rightarrow> string list" where
  "path_segments path = split_on (CHR ''/'') (trim_char (CHR ''/'') path)"

definition query_pairs :: "string \<Rightarrow> (string \<times> string) list" where
  "query_pairs q =
    map (\<lambda>kv. let (k, v) = unwrap_or (split_once (CHR ''='') kv) (kv, []) in (percent_decode k, percent_decode v))
      (filter (\<lambda>kv. kv \<noteq> []) (split_on (CHR ''&'') q))"

text \<open>Query parameters: the first of repeated values, or all of them.\<close>

definition params_get :: "(string \<times> string) list \<Rightarrow> string \<Rightarrow> string option" where
  "params_get pairs name = map_of pairs name"

definition params_flag :: "(string \<times> string) list \<Rightarrow> string \<Rightarrow> bool" where
  "params_flag pairs name = is_some_and (params_get pairs name) (\<lambda>v. eq_ignore_ascii_case v ''true'')"

definition params_all :: "(string \<times> string) list \<Rightarrow> string \<Rightarrow> string list" where
  "params_all pairs name = map snd (filter (\<lambda>(k, _). k = name) pairs)"

definition params_int :: "(string \<times> string) list \<Rightarrow> string \<Rightarrow> i64 \<Rightarrow> i64 api_result" where
  "params_int pairs name dflt =
    (case params_get pairs name of
       None \<Rightarrow> Inr dflt
     | Some v \<Rightarrow> ok_or (java_int v) (api_error_new 404 ''HTTP 404 Not Found''))"

definition page_capped :: "(string \<times> string) list \<Rightarrow> 'a list \<Rightarrow> nat \<Rightarrow> nat \<Rightarrow> 'a list api_result" where
  "page_capped pairs items dflt cap =
    and_then (params_int pairs ''offset'' 0) (\<lambda>offset.
    and_then (params_int pairs ''limit'' (-1)) (\<lambda>limit.
    Inr (take (limits_normalize limit dflt cap) (drop (nat (max offset 0)) items))))"

declare from_utf8_lossy.simps [simp del]

declare utf8_valid.simps [simp del]

lemma utf8_next_pos: "0 < fst (utf8_next bs)"
proof -
  have both: "0 < fst x \<Longrightarrow> 0 < fst y \<Longrightarrow> 0 < fst (if c then x else y)" for x y :: "nat \<times> bool" and c by simp
  show ?thesis unfolding utf8_next_def utf8_class_def by (intro both) simp_all
qed

lemma utf8_tail_pos: "utf8_tail b \<Longrightarrow> 0 < b"
  by (simp add: utf8_tail_def)

lemma utf8_lead_pos: "utf8_lead3 a b \<Longrightarrow> 0 < b" "utf8_lead4 a b \<Longrightarrow> 0 < b"
  by (cases "b = 0"; simp add: utf8_lead3_def utf8_lead4_def utf8_tail_def)+

lemma utf8_class_cases:
  assumes "utf8_class a b c d = (n, True)"
  shows "n = 1 \<and> a < 128 \<or> n = 2 \<and> 0 < b \<or> n = 3 \<and> 0 < c \<and> 0 < b \<or> n = 4 \<and> 0 < d \<and> 0 < c \<and> 0 < b"
  using assms unfolding utf8_class_def by (auto split: if_splits dest: utf8_tail_pos utf8_lead_pos)

lemma utf8_class_prefix:
  assumes "utf8_class a b c d = (n, True)"
    and "2 \<le> n \<Longrightarrow> b' = b" and "3 \<le> n \<Longrightarrow> c' = c" and "4 \<le> n \<Longrightarrow> d' = d"
  shows "utf8_class a b' c' d' = (n, True)"
  using assms unfolding utf8_class_def by (auto split: if_splits)

lemma byte_at_pos: "0 < byte_at bs i \<Longrightarrow> i < length bs"
  by (auto simp: byte_at_def split: if_splits)

lemma utf8_next_prefix:
  assumes "utf8_next bs = (n, True)" and ne: "bs \<noteq> []"
  shows "n \<le> length bs" and "utf8_next (take n bs @ r) = (n, True)"
proof -
  have c: "utf8_class (byte_at bs 0) (byte_at bs 1) (byte_at bs 2) (byte_at bs 3) = (n, True)"
    using assms by (simp add: utf8_next_def)
  show len: "n \<le> length bs" using utf8_class_cases [OF c] byte_at_pos [of bs] ne
    by (auto simp: Suc_le_eq numeral_eq_Suc dest!: byte_at_pos)
  have pos: "0 < n" using utf8_class_cases [OF c] by auto
  have same: "byte_at (take n bs @ r) i = byte_at bs i" if "i < n" for i
    using that len by (simp add: byte_at_def nth_append)
  show "utf8_next (take n bs @ r) = (n, True)"
    unfolding utf8_next_def same [OF pos] by (rule utf8_class_prefix [OF c]) (simp_all add: same)
qed

lemma utf8_valid_char:
  assumes "utf8_next bs = (n, True)" and "bs \<noteq> []"
  shows "utf8_valid (take n bs @ r) = utf8_valid r"
proof -
  have "n \<le> length bs" "utf8_next (take n bs @ r) = (n, True)" using utf8_next_prefix [OF assms] by auto
  then show ?thesis using utf8_next_pos [of bs] assms by (subst utf8_valid.simps) auto
qed

lemma replacement_char: "utf8_next REPLACEMENT = (3, True)"
  by (simp add: utf8_next_def utf8_class_def utf8_lead3_def byte_at_def REPLACEMENT_def utf8_tail_def)

lemma utf8_valid_replacement: "utf8_valid (REPLACEMENT @ r) = utf8_valid r"
  using utf8_valid_char [OF replacement_char, of r] by (simp add: REPLACEMENT_def)

lemma from_utf8_lossy_valid: "utf8_valid (from_utf8_lossy bs)"
proof (induction bs rule: from_utf8_lossy.induct)
  case (1 bs)
  show ?case
  proof (cases "bs = []")
    case False
    obtain n ok where n: "utf8_next bs = (n, ok)" by force
    have "utf8_valid (from_utf8_lossy (drop n bs))" using "1.IH" [OF False n [symmetric]] by simp
    then show ?thesis using False n utf8_valid_char [of bs n] utf8_valid_replacement
      by (subst from_utf8_lossy.simps) (cases ok, simp_all)
  qed (simp add: from_utf8_lossy.simps utf8_valid.simps)
qed

lemma from_utf8_lossy_id: "utf8_valid bs \<Longrightarrow> from_utf8_lossy bs = bs"
proof (induction bs rule: utf8_valid.induct)
  case (1 bs)
  show ?case
  proof (cases "bs = []")
    case False
    then have v: "snd (utf8_next bs)" "utf8_valid (drop (fst (utf8_next bs)) bs)"
      using "1.prems" by (simp_all add: utf8_valid.simps [of bs] split: if_splits)
    then show ?thesis using "1.IH" [OF False v] False by (subst from_utf8_lossy.simps) (simp add: case_prod_unfold)
  qed (simp add: from_utf8_lossy.simps)
qed

lemma hex_upper_value: "n < 16 \<Longrightarrow> hex_value (hex_upper n) = Some n"
  by (auto simp: hex_upper_def hex_value_def Let_def of_char_of)

lemma of_char_less: "of_char c < (256 :: nat)"
  by (cases c) (simp add: of_char_def horner_sum_simps)

lemma percent_escape_bytes: "percent_bytes (percent_escape c @ r) = c # percent_bytes r"
proof -
  have "of_char c div 16 < (16 :: nat)" using of_char_less [of c] by (simp add: div_less_iff_less_mult)
  then show ?thesis by (simp add: percent_escape_def Let_def hex_upper_value)
qed

lemma escaped_bytes:
  assumes "\<And>c. keep c \<Longrightarrow> c \<noteq> CHR ''+'' \<and> c \<noteq> CHR ''%''"
  shows "percent_bytes (concat (map (\<lambda>c. if keep c then [c] else percent_escape c) s)) = s"
  by (induction s) (use assms in \<open>auto simp: percent_escape_bytes\<close>)

lemma alnum_plain: "is_ascii_alphanumeric c \<Longrightarrow> c \<noteq> CHR ''+'' \<and> c \<noteq> CHR ''%''"
  by (auto simp: is_ascii_alphanumeric_def)

lemma split_on_nonempty [simp]: "split_on c s \<noteq> []"
  by (induction s) (auto split: list.splits)

lemma split_on_plain: "c \<notin> set p \<Longrightarrow> split_on c p = [p]"
  by (induction p) auto

lemma split_on_append: "c \<notin> set p \<Longrightarrow> split_on c (p @ c # q) = p # split_on c q"
  by (induction p) auto

lemma join_Cons: "ps \<noteq> [] \<Longrightarrow> join sep (p # ps) = p @ sep @ join sep ps"
  by (cases ps) auto

lemma split_on_join:
  "ps \<noteq> [] \<Longrightarrow> \<forall>p\<in>set ps. c \<notin> set p \<Longrightarrow> split_on c (join [c] ps) = ps"
proof (induction ps)
  case (Cons p ps)
  then show ?case by (cases "ps = []") (simp_all add: split_on_plain join_Cons split_on_append)
qed simp

lemma join_hd_last:
  assumes "ps \<noteq> []" "\<forall>p\<in>set ps. p \<noteq> [] \<and> c \<notin> set p"
  shows "join [c] ps \<noteq> []" "hd (join [c] ps) \<noteq> c" "last (join [c] ps) \<noteq> c"
  using assms
proof (induction ps)
  case (Cons p ps)
  { case 1 then show ?case by (cases ps) auto }
  { case 2 then show ?case by (cases p; cases ps) auto }
  { case 3 then show ?case using Cons.IH by (cases "ps = []") (auto simp: join_Cons dest: last_in_set) }
qed simp_all

lemma trim_char_join:
  assumes "ps \<noteq> []" "\<forall>p\<in>set ps. p \<noteq> [] \<and> c \<notin> set p"
  shows "trim_start_char c (c # join [c] ps) = join [c] ps" "trim_end_char c (join [c] ps @ [c]) = join [c] ps"
    "trim_start_char c (join [c] ps) = join [c] ps" "trim_end_char c (join [c] ps) = join [c] ps"
proof -
  note j = join_hd_last [OF assms]
  have d: "dropWhile (\<lambda>x. x = c) (join [c] ps) = join [c] ps" using j by (cases "join [c] ps") auto
  have r: "dropWhile (\<lambda>x. x = c) (rev (join [c] ps)) = rev (join [c] ps)"
    using j by (simp add: dropWhile_eq_self_iff hd_rev)
  show "trim_start_char c (c # join [c] ps) = join [c] ps" "trim_start_char c (join [c] ps) = join [c] ps"
    using d by (simp_all add: trim_start_char_def)
  show "trim_end_char c (join [c] ps @ [c]) = join [c] ps" "trim_end_char c (join [c] ps) = join [c] ps"
    using r by (simp_all add: trim_end_char_def)
qed

lemma path_segments_join:
  assumes "ps \<noteq> []" "\<forall>p\<in>set ps. p \<noteq> [] \<and> CHR ''/'' \<notin> set p"
  shows "path_segments (''/'' @ join ''/'' ps) = ps"
  unfolding path_segments_def trim_char_def using trim_char_join [OF assms] split_on_join [of ps] assms by simp

lemma params_int_error: "params_int pairs name dflt = Inl e \<Longrightarrow> err_code e = 404"
  by (cases "params_get pairs name"; cases "java_int (the (params_get pairs name))")
    (auto simp: params_int_def api_error_new_def)


end
