(* ===== verification/Rewrite.thy ===== *)
theory Rewrite
  imports Http_Text
begin

text \<open>
  Rewriting the request line before routing (\<open>src/src/api/rewrite.rs\<close>): the \<open>/contexts/{context}/...\<close> form
  becomes the context-qualified form, and subjects are replaced by their configured aliases.  The lookup of an
  alias is an argument, as it is in the code.
\<close>

section \<open>Rewriting the request line\<close>

definition strip_suffix_char :: "char \<Rightarrow> string \<Rightarrow> string" where
  "strip_suffix_char c s = (if s \<noteq> [] \<and> last s = c then butlast s else s)"

text \<open>\<open>normalize_context\<close> of \<open>api/rewrite.rs\<close>: the prefix that qualifies a subject.\<close>

definition rw_normalize_context :: "string \<Rightarrow> string + string" where
  "rw_normalize_context ctx =
    (let c = strip_suffix_char (CHR '':'') (unwrap_or (strip_prefix '':'' ctx) ctx) in
     if CHR '':'' \<in> set c then Inl ''Context name cannot contain a colon''
     else let c = (if starts_with c ''.'' then c else ''.'' @ c) in
       Inr (if c = ''.'' then [] else '':'' @ c @ '':''))"

definition rw_qualified :: "string \<Rightarrow> bool" where
  "rw_qualified s = (starts_with s '':.'' \<or> starts_with s '':*:'')"

record filter_state =
  fs_context_path_found :: bool
  fs_context :: string
  fs_config_or_mode_found :: bool
  fs_subject_path_found :: bool
  fs_out :: string
  fs_is_first :: bool

definition filter_start :: filter_state where
  "filter_start = \<lparr>fs_context_path_found = False, fs_context = ''.'', fs_config_or_mode_found = False,
     fs_subject_path_found = False, fs_out = [], fs_is_first = True\<rparr>"

definition filter_segment :: "string \<Rightarrow> filter_state \<Rightarrow> string + filter_state" where
  "filter_segment seg s =
    (if fs_context_path_found s then Inr (s\<lparr>fs_context := seg, fs_context_path_found := False\<rparr>)
     else if seg = ''contexts'' then Inr (s\<lparr>fs_context_path_found := True\<rparr>)
     else
       map_ok (\<lambda>modified.
         let root_config_or_mode = (fs_is_first s \<and> (seg = ''config'' \<or> seg = ''mode'')) in
         s\<lparr>fs_subject_path_found := (seg = ''subjects'' \<or> seg = ''deks'' \<or> root_config_or_mode),
           fs_config_or_mode_found := (root_config_or_mode \<or> fs_config_or_mode_found s),
           fs_out := fs_out s @ modified @ ''/'',
           fs_is_first := (fs_is_first s \<and> seg = [])\<rparr>)
         (if fs_subject_path_found s \<and> \<not> rw_qualified seg
          then map_ok (\<lambda>p. p @ seg) (rw_normalize_context (fs_context s))
          else Inr seg))"

fun filter_segments :: "string list \<Rightarrow> filter_state \<Rightarrow> string + filter_state" where
  "filter_segments [] s = Inr s"
| "filter_segments (seg # segs) s = and_then (filter_segment seg s) (filter_segments segs)"

text \<open>Trailing empty segments go, except the very first.\<close>

fun drop_trailing_empty :: "string list \<Rightarrow> string list" where
  "drop_trailing_empty [] = []"
| "drop_trailing_empty (x # xs) = x # rev (dropWhile (\<lambda>s. s = []) (rev xs))"

definition context_filter_path :: "string \<Rightarrow> string + (string \<times> string)" where
  "context_filter_path path =
    and_then (filter_segments (drop_trailing_empty (split_on (CHR ''/'') path)) filter_start) (\<lambda>s.
    if fs_config_or_mode_found s \<and> fs_subject_path_found s
    then map_ok (\<lambda>nc. (if nc = [] then fs_out s else fs_out s @ nc @ ''/'', fs_context s)) (rw_normalize_context (fs_context s))
    else Inr (if fs_context_path_found s then fs_out s @ ''contexts/'' else fs_out s, fs_context s))"

definition set_param :: "string \<Rightarrow> string list \<Rightarrow> (string \<times> string) list \<Rightarrow> (string \<times> string) list" where
  "set_param name values pairs = filter (\<lambda>(k, _). k \<noteq> name) pairs @ map (\<lambda>v. (name, v)) values"

definition context_filter_query :: "string \<Rightarrow> string \<Rightarrow> (string \<times> string) list \<Rightarrow> string + (string \<times> string) list" where
  "context_filter_query path context pairs =
    (let p = trim_start_char (CHR ''/'') (trim_end_char (CHR ''/'') path) in
     map_ok (\<lambda>prefix.
       if starts_with p ''schemas/ids''
       then let subject = unwrap_or (map_of pairs ''subject'') [] in
         if rw_qualified subject then pairs else set_param ''subject'' [prefix @ subject] pairs
       else if p = ''schemas'' \<or> p = ''subjects'' \<or> starts_with p ''keks''
       then let found = params_all pairs ''subjectPrefix'';
                prefixes = (if found = [] then [[]] else found) in
         set_param ''subjectPrefix'' (map (\<lambda>x. if rw_qualified x then x else prefix @ x) prefixes) pairs
       else pairs) (rw_normalize_context context))"

text \<open>The alias of a subject, qualified with the context of the name it replaces.\<close>

definition alias_replace :: "(string \<Rightarrow> string option api_result) \<Rightarrow> string \<Rightarrow> string \<Rightarrow> string option api_result" where
  "alias_replace alias_lookup raw decoded =
    (if raw = [] then Inr None
     else map_ok (\<lambda>found. case found of
         None \<Rightarrow> None
       | Some alias_name \<Rightarrow>
           if alias_name = [] then None
           else let a = qs_parse alias_name; parent = qs_parse raw in
             Some (qs_qualified (if qs_context a = ''.'' \<and> qs_context parent \<noteq> ''.''
                                 then qs_new (qs_context parent) alias_name else a)))
       (alias_lookup decoded))"

definition encode_segment :: "string \<Rightarrow> string" where
  "encode_segment s =
    concat (map (\<lambda>c. if is_ascii_alphanumeric c \<or> c \<in> set ''-._~:*@!$&()+,;='' \<or> c = CHR 0x27 then [c] else percent_escape c) s)"

definition encode_query_value :: "string \<Rightarrow> string" where
  "encode_query_value s =
    concat (map (\<lambda>c. if is_ascii_alphanumeric c \<or> c \<in> set ''-._~:*'' then [c] else percent_escape c) s)"

fun alias_segments :: "(string \<Rightarrow> string option api_result) \<Rightarrow> bool \<Rightarrow> string list \<Rightarrow> string api_result" where
  "alias_segments alias_lookup subject_path_found [] = Inr []"
| "alias_segments alias_lookup subject_path_found (seg # segs) =
    and_then (if subject_path_found
              then map_ok (\<lambda>r. case r of None \<Rightarrow> seg | Some a \<Rightarrow> encode_segment a)
                (alias_replace alias_lookup seg (percent_decode seg))
              else Inr seg) (\<lambda>m.
    map_ok (\<lambda>out. ''/'' @ m @ out) (alias_segments alias_lookup (seg = ''subjects'' \<or> seg = ''deks'') segs))"

definition alias_filter :: "(string \<Rightarrow> string option api_result) \<Rightarrow> string \<Rightarrow> (string \<times> string) list
    \<Rightarrow> (string \<times> (string \<times> string) list) api_result" where
  "alias_filter alias_lookup path pairs =
    and_then (alias_segments alias_lookup False (filter (\<lambda>s. s \<noteq> []) (split_on (CHR ''/'') path))) (\<lambda>out.
    let out = (if out = [] then ''/'' else out); p = trim_char (CHR ''/'') path in
    if starts_with p ''schemas/ids''
    then let subject = unwrap_or (map_of pairs ''subject'') [] in
      map_ok (\<lambda>r. case r of None \<Rightarrow> (out, pairs) | Some a \<Rightarrow> (out, set_param ''subject'' [a] pairs))
        (alias_replace alias_lookup subject subject)
    else Inr (out, pairs))"

fun contains_double_slash :: "string \<Rightarrow> bool" where
  "contains_double_slash (a # b # cs) = (a = CHR ''/'' \<and> b = CHR ''/'' \<or> contains_double_slash (b # cs))"
| "contains_double_slash _ = False"

definition clean_path :: "string \<Rightarrow> string option" where
  "clean_path path =
    (if \<not> contains_double_slash path \<and> (length path \<le> 1 \<or> last path \<noteq> CHR ''/'') then None
     else Some (''/'' @ join ''/'' (filter (\<lambda>s. s \<noteq> []) (split_on (CHR ''/'') path))))"

definition render_query :: "(string \<times> string) list \<Rightarrow> string option" where
  "render_query pairs = (if pairs = [] then None
     else Some (join ''&'' (map (\<lambda>(k, v). encode_query_value k @ ''='' @ encode_query_value v) pairs)))"

fun bad_request :: "string + 'a \<Rightarrow> 'a api_result" where
  "bad_request (Inl e) = Inl (api_error_new 400 e)"
| "bad_request (Inr x) = Inr x"

definition prematch :: "string \<Rightarrow> string option \<Rightarrow> bool \<Rightarrow> (string \<Rightarrow> string option api_result) \<Rightarrow> string api_result" where
  "prematch raw_path query is_delete_context alias_lookup =
    (let path = unwrap_or (clean_path raw_path) raw_path;
         pairs = (case query of None \<Rightarrow> [] | Some q \<Rightarrow> query_pairs q);
         bare = trim_start_char (CHR ''/'') path;
         contexts_form = (starts_with bare ''contexts/'' \<and> \<not> is_delete_context) in
     and_then (if contexts_form
               then and_then (bad_request (context_filter_path bare)) (\<lambda>(p, ctx).
                 map_ok (\<lambda>ps. (''/'' @ p, ps)) (bad_request (context_filter_query p ctx pairs)))
               else Inr (path, pairs)) (\<lambda>(path, before).
     map_ok (\<lambda>(new_path, after).
       let q = (if contexts_form \<or> before \<noteq> after then render_query after else query) in
       case q of None \<Rightarrow> new_path | Some q \<Rightarrow> new_path @ ''?'' @ q)
       (alias_filter alias_lookup path before)))"

definition plain_segment :: "string \<Rightarrow> bool" where
  "plain_segment seg = (seg \<noteq> [] \<and> CHR ''/'' \<notin> set seg \<and> seg \<notin> {''contexts'', ''subjects'', ''deks''})"

text \<open>C25. Percent decoding always yields well-formed text, whatever bytes a client sends, and it inverts both
  the encoding of a path segment and the encoding of a query value on every well-formed text.\<close>

theorem percent_decode_text:
  "utf8_valid (percent_decode s)
   \<and> (utf8_valid v \<longrightarrow> percent_decode (percent_encode_segment v) = v \<and> percent_decode (encode_query_value v) = v)"
proof -
  have "percent_bytes (percent_encode_segment v) = v" "percent_bytes (encode_query_value v) = v"
    unfolding percent_encode_segment_def encode_query_value_def
    by (rule escaped_bytes; use alnum_plain in auto)+
  then show ?thesis by (simp add: percent_decode_def from_utf8_lossy_id from_utf8_lossy_valid)
qed

lemma encode_segment_plus: "percent_decode (encode_segment ''a+b'') = ''a b''"
  by (simp add: encode_segment_def percent_decode_def is_ascii_alphanumeric_def from_utf8_lossy.simps
      utf8_next_def utf8_class_def byte_at_def)

lemma drop_trailing_empty_id: "last ps \<noteq> [] \<Longrightarrow> drop_trailing_empty ps = ps"
  by (cases ps) (auto simp: dropWhile_eq_self_iff hd_rev rev_swap)

text \<open>Ordinary segments are copied.\<close>

lemma filter_segments_plain:
  assumes "list_all plain_segment segs"
    and "\<not> fs_context_path_found s" "\<not> fs_subject_path_found s" "\<not> fs_is_first s"
  shows "filter_segments segs s = Inr (s\<lparr>fs_out := fs_out s @ concat (map (\<lambda>x. x @ ''/'') segs)\<rparr>)"
  using assms
proof (induction segs arbitrary: s)
  case (Cons x xs)
  then have "filter_segment x s = Inr (s\<lparr>fs_out := fs_out s @ x @ ''/''\<rparr>)"
    by (simp add: filter_segment_def plain_segment_def Let_def)
  then show ?case using Cons by simp
qed simp

lemma concat_join: "ps \<noteq> [] \<Longrightarrow> concat (map (\<lambda>x. x @ sep) ps) = join sep ps @ sep"
  by (induction sep ps rule: join.induct) auto

lemma rw_normalize_context_valid:
  assumes "normalize_context c = Some ctx" "ctx \<noteq> WILDCARD_CONTEXT"
  shows "rw_normalize_context c = Inr (if ctx = DEFAULT_CONTEXT then [] else '':'' @ ctx @ '':'')"
proof (cases "c = [] \<or> c = ''.''")
  case True
  then show ?thesis using assms
    by (auto simp: normalize_context_def rw_normalize_context_def strip_prefix_def starts_with_def strip_suffix_char_def
        DEFAULT_CONTEXT_def)
next
  case False
  let ?n = "if starts_with c ''.'' then c else ''.'' @ c"
  have n: "ctx = ?n" "1 < length ctx" "list_all context_char (drop 1 ctx)"
    using assms False by (auto simp: normalize_context_def context_defs Let_def split: if_splits)
  have "CHR '':'' \<notin> set (drop 1 ctx)" using context_char_not_colon n(3) by blast
  then have colon: "CHR '':'' \<notin> set c" using n(1) by (cases c) (auto simp: starts_with_def split: if_splits)
  then have "strip_suffix_char (CHR '':'') (unwrap_or (strip_prefix '':'' c) c) = c"
    by (cases c) (auto simp: strip_prefix_def starts_with_def strip_suffix_char_def dest: last_in_set)
  then show ?thesis using colon n(1,2) by (auto simp: rw_normalize_context_def Let_def DEFAULT_CONTEXT_def)
qed

lemma rw_prefix_qualify:
  "(if ctx = DEFAULT_CONTEXT then [] else '':'' @ ctx @ '':'') @ s = qualify ctx s"
  by (simp add: qualify_def)

lemma normalize_context_chars:
  assumes "normalize_context c = Some ctx" "ctx \<noteq> WILDCARD_CONTEXT"
  shows "list_all context_char c" "list_all context_char ctx"
  using assms by (auto simp: normalize_context_def context_defs Let_def starts_with_def list_all_iff context_char_def
      split: if_splits dest: in_set_takeD in_set_dropD) (case_tac c; auto)+

lemma context_char_plain:
  "context_char x \<Longrightarrow> x \<noteq> CHR ''/'' \<and> x \<noteq> CHR ''%'' \<and> x \<noteq> CHR ''+'' \<and> of_char x < (128 :: nat)"
  by (auto simp: context_char_def is_ascii_alphanumeric_def Let_def)

lemma percent_bytes_plain:
  "\<forall>x\<in>set p. x \<noteq> CHR ''%'' \<and> x \<noteq> CHR ''+'' \<Longrightarrow> percent_bytes (p @ s) = p @ percent_bytes s"
  by (induction p) auto

lemma from_utf8_lossy_ascii:
  "\<forall>x\<in>set p. of_char x < (128 :: nat) \<Longrightarrow> from_utf8_lossy (p @ s) = p @ from_utf8_lossy s"
proof (induction p)
  case (Cons x p)
  then have "utf8_next (x # p @ s) = (1, True)" by (simp add: utf8_next_def utf8_class_def byte_at_def)
  then show ?case using Cons by (simp add: from_utf8_lossy.simps [of "x # p @ s"])
qed simp

lemma percent_decode_plain:
  assumes "\<forall>x\<in>set p. x \<noteq> CHR ''%'' \<and> x \<noteq> CHR ''+'' \<and> of_char x < (128 :: nat)"
  shows "percent_decode (p @ s) = p @ percent_decode s"
  using assms percent_bytes_plain [of p s] from_utf8_lossy_ascii [of p] by (simp add: percent_decode_def)

lemma percent_decode_qualify:
  assumes "list_all context_char ctx"
  shows "percent_decode (qualify ctx s) = qualify ctx (percent_decode s)"
proof (cases "ctx = DEFAULT_CONTEXT")
  case False
  have "percent_decode (('':'' @ ctx @ '':'') @ s) = ('':'' @ ctx @ '':'') @ percent_decode s"
    by (rule percent_decode_plain) (use assms context_char_plain in \<open>auto simp: list_all_iff\<close>)
  then show ?thesis using False by (simp add: qualify_def)
qed (simp add: qualify_def)

lemma rw_qualified_decode: "rw_qualified s \<Longrightarrow> rw_qualified (percent_decode s)"
proof -
  assume "rw_qualified s"
  then obtain p r where s: "s = p @ r" and p: "p = '':.'' \<or> p = '':*:''"
    by (auto simp: rw_qualified_def starts_with_def) (metis append_take_drop_id)+
  have "percent_decode (p @ r) = p @ percent_decode r" by (rule percent_decode_plain) (use p in auto)
  then show ?thesis using p s by (auto simp: rw_qualified_def starts_with_def)
qed

lemma qs_parse_decoded:
  assumes "normalize_context c = Some ctx" "ctx \<noteq> WILDCARD_CONTEXT" "\<not> rw_qualified (percent_decode s)"
  shows "qs_parse (percent_decode (qualify ctx s)) = qs_new ctx (percent_decode s)"
proof -
  have d: "percent_decode (qualify ctx s) = qualify ctx (percent_decode s)"
    by (rule percent_decode_qualify) (rule normalize_context_chars [OF assms(1,2)])
  show ?thesis
  proof (cases "ctx = DEFAULT_CONTEXT")
    case True
    then show ?thesis using d assms(3) by (simp add: qualify_def qs_parse_plain rw_qualified_def)
  next
    case False
    then show ?thesis using d parse_qualify [OF normalize_context_wf [OF assms(1)]] by simp
  qed
qed

lemma plain_segmentD: "plain_segment x \<Longrightarrow> x \<noteq> [] \<and> CHR ''/'' \<notin> set x"
  by (simp add: plain_segment_def)

lemma contexts_form_filtered:
  assumes c: "normalize_context c = Some ctx" "ctx \<noteq> WILDCARD_CONTEXT" "c \<noteq> []"
    and segs: "list_all plain_segment (s # tl_segs)" and s: "\<not> rw_qualified s"
  shows "context_filter_path (join ''/'' (''contexts'' # c # ''subjects'' # s # tl_segs))
    = Inr (join ''/'' (''subjects'' # qualify ctx s # tl_segs) @ ''/'', c)"
proof -
  let ?ps = "''contexts'' # c # ''subjects'' # s # tl_segs"
  have "CHR ''/'' \<notin> set c" using normalize_context_chars(1) [OF c(1,2)] context_char_plain by (auto simp: list_all_iff)
  then have split: "split_on (CHR ''/'') (join ''/'' ?ps) = ?ps"
    using segs by (intro split_on_join) (auto simp: list_all_iff dest: plain_segmentD)
  have "last ?ps \<noteq> []" using segs plain_segmentD by (auto simp: list_all_iff)
  then have "drop_trailing_empty ?ps = ?ps" by (rule drop_trailing_empty_id)
  moreover have "\<not> fs_config_or_mode_found filter_start" by (simp add: filter_start_def)
  ultimately show ?thesis unfolding context_filter_path_def split
    using segs s rw_normalize_context_valid [OF c(1,2)] rw_prefix_qualify [of ctx s]
    by (simp add: filter_segment_def filter_start_def plain_segment_def Let_def filter_segments_plain
        concat_join [of "''subjects'' # qualify ctx s # tl_segs" "''/''", simplified])
qed

lemma contains_double_slash_append:
  assumes "CHR ''/'' \<notin> set p"
  shows "contains_double_slash (p @ q) = contains_double_slash q"
  using assms
proof (induction p)
  case (Cons x p)
  then show ?case by (cases "p @ q") auto
qed simp

lemma join_no_double_slash:
  "ps \<noteq> [] \<Longrightarrow> \<forall>p\<in>set ps. p \<noteq> [] \<and> CHR ''/'' \<notin> set p \<Longrightarrow> \<not> contains_double_slash (CHR ''/'' # join ''/'' ps)"
proof (induction ps)
  case (Cons p ps)
  obtain x xs where p: "p = x # xs" using Cons.prems by (cases p) auto
  show ?case
  proof (cases "ps = []")
    case True
    then show ?thesis using Cons.prems contains_double_slash_append [of p "[]"] by (auto simp: p)
  next
    case False
    then show ?thesis using Cons contains_double_slash_append [of p "CHR ''/'' # join ''/'' ps"]
      by (auto simp: p join_Cons)
  qed
qed simp

lemma clean_path_join:
  assumes "ps \<noteq> []" "\<forall>p\<in>set ps. p \<noteq> [] \<and> CHR ''/'' \<notin> set p"
  shows "clean_path (CHR ''/'' # join ''/'' ps) = None"
  using join_no_double_slash [OF assms] join_hd_last [OF assms] by (simp add: clean_path_def)

lemma split_on_snoc: "split_on c (s @ [c]) = split_on c s @ [[]]"
  by (induction s) (auto split: list.splits)

lemma alias_segments_none:
  "alias_segments (\<lambda>_. Inr None) found segs = Inr (concat (map (\<lambda>s. ''/'' @ s) segs))"
  by (induction segs arbitrary: found) (auto simp: alias_replace_def)

lemma concat_slash: "ps \<noteq> [] \<Longrightarrow> concat (map (\<lambda>s. sep @ s) ps) = sep @ join sep ps"
  by (induction sep ps rule: join.induct) auto

lemma alias_filter_none:
  assumes ps: "ps \<noteq> []" "\<forall>p\<in>set ps. p \<noteq> [] \<and> CHR ''/'' \<notin> set p"
    and path: "path = ''/'' @ join ''/'' ps @ ''/'' \<or> path = ''/'' @ join ''/'' ps"
  shows "alias_filter (\<lambda>_. Inr None) path pairs = Inr (''/'' @ join ''/'' ps, pairs)"
proof -
  have "filter (\<lambda>s. s \<noteq> []) (split_on (CHR ''/'') path) = filter (\<lambda>s. s \<noteq> []) ps"
    using path split_on_join [OF ps(1), of "CHR ''/''"] ps(2) split_on_snoc [of "CHR ''/''" "join ''/'' ps"] by auto
  then have segs: "filter (\<lambda>s. s \<noteq> []) (split_on (CHR ''/'') path) = ps" using ps(2) by (simp add: filter_id_conv)
  have "join ''/'' ps \<noteq> []" using join_hd_last(1) [OF ps] .
  then show ?thesis using ps(1) unfolding alias_filter_def segs alias_segments_none
    by (auto simp: concat_slash Let_def alias_replace_def split: option.splits)
qed

lemma qualify_segment:
  assumes "normalize_context c = Some ctx" "ctx \<noteq> WILDCARD_CONTEXT" "plain_segment s"
  shows "qualify ctx s \<noteq> [] \<and> CHR ''/'' \<notin> set (qualify ctx s)"
  using assms(3) normalize_context_chars(2) [OF assms(1,2)] context_char_plain
  by (auto simp: qualify_def plain_segment_def list_all_iff)

lemma subject_called_subjects:
  "context_filter_path ''contexts/eu/subjects/subjects/versions'' = Inr (''subjects/:.eu:subjects/:.eu:versions/'', ''eu'')"
proof -
  have n: "rw_normalize_context ''eu'' = Inr '':.eu:''"
    by (simp add: rw_normalize_context_def strip_prefix_def starts_with_def strip_suffix_char_def Let_def)
  have q: "\<not> rw_qualified ''subjects''" "\<not> rw_qualified ''versions''" by (simp_all add: rw_qualified_def starts_with_def)
  have s: "drop_trailing_empty (split_on (CHR ''/'') ''contexts/eu/subjects/subjects/versions'')
    = [''contexts'', ''eu'', ''subjects'', ''subjects'', ''versions'']" by simp
  show ?thesis unfolding context_filter_path_def s by (simp add: filter_segment_def filter_start_def n q Let_def)
qed

theorem percent_decode_text_witness:
  "utf8_valid ''a/b'' \<and> percent_decode (percent_encode_segment ''a/b'') = ''a/b''
   \<and> percent_decode (encode_query_value ''a/b'') = ''a/b''"
proof -
  have v: "utf8_valid (''a/b'')" using from_utf8_lossy_valid [of "''a/b''"] from_utf8_lossy_ascii [of "''a/b''" "[]"]
    by (simp add: from_utf8_lossy.simps [of "[]"])
  then show ?thesis using percent_decode_text [of "[]" "''a/b''"] by blast
qed

end
