(* ===== verification/Authz.thy ===== *)
theory Authz
  imports Rewrite
begin

text \<open>
  Authorization (\<open>src/src/authz.rs\<close>): patterns with stars, principals with global roles and role bindings, what
  a path is about, and the rules that decide; and the filter for listings (\<open>Caller\<close> of \<open>src/src/api/mod.rs\<close>).
  \<open>wild\<close> is the usual meaning of a pattern with stars, against which the matcher of the code is compared.
\<close>

section \<open>Patterns\<close>

datatype role = RoleAdmin | RoleWrite | RoleReadonly

datatype glob = GAny | GLiteral string | GParts "string list" bool bool

definition glob_parse :: "string \<Rightarrow> glob" where
  "glob_parse raw =
    (if raw = ''*'' then GAny
     else if CHR ''*'' \<notin> set raw then GLiteral raw
     else GParts (filter (\<lambda>p. p \<noteq> []) (split_on (CHR ''*'') raw)) (starts_with raw ''*'') (ends_with raw ''*''))"

definition glob_is_any :: "glob \<Rightarrow> bool" where
  "glob_is_any g = (g = GAny)"

text \<open>\<open>str::find\<close>: the position of the first occurrence.\<close>

fun find_sub :: "string \<Rightarrow> string \<Rightarrow> nat option" where
  "find_sub p s = (if starts_with s p then Some 0
     else (case s of [] \<Rightarrow> None | _ # cs \<Rightarrow> map_option Suc (find_sub p cs)))"

text \<open>The walk over the parts: what is left of the text, or \<open>None\<close> where a part is missing.  Only the very
  first part can be anchored.\<close>

fun match_parts :: "bool \<Rightarrow> string list \<Rightarrow> string \<Rightarrow> string option" where
  "match_parts anchored [] rest = Some rest"
| "match_parts anchored (p # ps) rest =
    (if anchored
     then (if starts_with rest p then match_parts False ps (drop (length p) rest) else None)
     else (case find_sub p rest of
         None \<Rightarrow> None
       | Some ix \<Rightarrow> match_parts False ps (drop (ix + length p) rest)))"

fun glob_matches :: "glob \<Rightarrow> string \<Rightarrow> bool" where
  "glob_matches GAny s = True"
| "glob_matches (GLiteral l) s = (l = s)"
| "glob_matches (GParts parts open_start open_end) s =
    (case match_parts (\<not> open_start) parts s of
       None \<Rightarrow> False
     | Some rest \<Rightarrow> open_end \<or> rest = [])"

record pattern =
  pt_context :: glob
  pt_subject :: glob

fun split_colons :: "string \<Rightarrow> (string \<times> string) option" where
  "split_colons (a # b # cs) =
    (if a = CHR '':'' \<and> b = CHR '':'' then Some ([], cs)
     else map_option (\<lambda>(x, y). (a # x, y)) (split_colons (b # cs)))"
| "split_colons _ = None"

definition pattern_parse :: "string \<Rightarrow> string + pattern" where
  "pattern_parse raw =
    (let (ctx, subject) = unwrap_or (split_colons raw) (DEFAULT_CONTEXT, raw) in
     if subject = [] then Inl ''no subject part (did you mean '::*'?)''
     else
       let context =
         (if ctx = [] \<or> ctx = DEFAULT_CONTEXT then GLiteral DEFAULT_CONTEXT
          else if ctx = WILDCARD_CONTEXT then GAny
          else if starts_with ctx ''.'' then glob_parse ctx
          else glob_parse (''.'' @ ctx)) in
       Inr \<lparr>pt_context = context, pt_subject = glob_parse subject\<rparr>)"

definition pattern_matches :: "pattern \<Rightarrow> string \<Rightarrow> string \<Rightarrow> bool" where
  "pattern_matches p ctx subject = (glob_matches (pt_context p) ctx \<and> glob_matches (pt_subject p) subject)"

definition covers_context :: "pattern \<Rightarrow> string \<Rightarrow> bool" where
  "covers_context p ctx = (glob_matches (pt_context p) ctx \<and> glob_is_any (pt_subject p))"

definition touches_context :: "pattern \<Rightarrow> string \<Rightarrow> bool" where
  "touches_context p ctx = glob_matches (pt_context p) ctx"

definition is_everything :: "pattern \<Rightarrow> bool" where
  "is_everything p = (glob_is_any (pt_context p) \<and> glob_is_any (pt_subject p))"

section \<open>Principals\<close>

datatype authz_target = AtSubject qualified_subject | AtContext string | AtListing | AtGlobal

record user_config =
  us_username :: string
  us_password :: string
  us_roles :: "role list"
  us_bindings :: "(role \<times> string list) list"
  us_containers :: "string list"

record principal =
  pr_roles :: "role list"
  pr_bindings :: "(role \<times> pattern list) list"
  pr_containers :: "string list"

definition unrestricted :: principal where
  "unrestricted = \<lparr>pr_roles = [RoleAdmin], pr_bindings = [], pr_containers = []\<rparr>"

definition ok_values :: "('e + 'a) list \<Rightarrow> 'a list" where
  "ok_values xs = List.map_filter (\<lambda>x. case x of Inl _ \<Rightarrow> None | Inr y \<Rightarrow> Some y) xs"

definition from_user :: "user_config \<Rightarrow> principal" where
  "from_user u = \<lparr>pr_roles = us_roles u,
     pr_bindings = map (\<lambda>(role, subjects). (role, ok_values (map pattern_parse subjects))) (us_bindings u),
     pr_containers = us_containers u\<rparr>"

definition may_use :: "principal \<Rightarrow> tenant_id \<Rightarrow> bool" where
  "may_use p container = (pr_containers p = [] \<or> list_ex (\<lambda>c. c = tenant_name container) (pr_containers p))"

definition add_roles :: "(pattern \<Rightarrow> bool) \<Rightarrow> role \<times> pattern list \<Rightarrow> role list \<Rightarrow> role list" where
  "add_roles hit = (\<lambda>(role, patterns) out. if role \<notin> set out \<and> list_ex hit patterns then out @ [role] else out)"

definition roles_for_subject :: "principal \<Rightarrow> qualified_subject \<Rightarrow> role list" where
  "roles_for_subject p q = fold (add_roles (\<lambda>pt. pattern_matches pt (qs_context q) (qs_subject q))) (pr_bindings p) (pr_roles p)"

definition roles_for_context :: "principal \<Rightarrow> string \<Rightarrow> role list" where
  "roles_for_context p ctx = fold (add_roles (\<lambda>pt. covers_context pt ctx)) (pr_bindings p) (pr_roles p)"

definition sees_everything :: "principal \<Rightarrow> bool" where
  "sees_everything p = (pr_roles p \<noteq> [] \<or> pr_bindings p = [])"

definition is_global_admin :: "principal \<Rightarrow> bool" where
  "is_global_admin p = (RoleAdmin \<in> set (pr_roles p) \<or> list_ex (\<lambda>(r, ps). r = RoleAdmin \<and> list_ex is_everything ps) (pr_bindings p))"

definition can_see_subject :: "principal \<Rightarrow> string \<Rightarrow> string \<Rightarrow> bool" where
  "can_see_subject p ctx subject =
    (sees_everything p \<or> list_ex (\<lambda>(_, ps). list_ex (\<lambda>pt. pattern_matches pt ctx subject) ps) (pr_bindings p))"

definition can_see_context :: "principal \<Rightarrow> string \<Rightarrow> bool" where
  "can_see_context p ctx = (sees_everything p \<or> list_ex (\<lambda>(_, ps). list_ex (\<lambda>pt. touches_context pt ctx) ps) (pr_bindings p))"

definition has_any_role :: "principal \<Rightarrow> bool" where
  "has_any_role p = (pr_roles p \<noteq> [] \<or> pr_bindings p \<noteq> [])"

definition has_role_anywhere :: "principal \<Rightarrow> role \<Rightarrow> bool" where
  "has_role_anywhere p role = (role \<in> set (pr_roles p) \<or> list_ex (\<lambda>(r, _). r = role) (pr_bindings p))"

definition is_admin_of :: "principal \<Rightarrow> string \<Rightarrow> string \<Rightarrow> bool" where
  "is_admin_of p ctx subject = (RoleAdmin \<in> set (pr_roles p)
     \<or> list_ex (\<lambda>(r, ps). r = RoleAdmin \<and> list_ex (\<lambda>pt. pattern_matches pt ctx subject) ps) (pr_bindings p))"

section \<open>Requests\<close>

definition subject_only :: "string \<Rightarrow> authz_target" where
  "subject_only raw = AtSubject (qs_parse (percent_decode raw))"

definition subject_or_context :: "string \<Rightarrow> authz_target" where
  "subject_or_context raw =
    (let q = qs_parse (percent_decode raw) in if is_context_only q then AtContext (qs_context q) else AtSubject q)"

definition authz_target_of :: "string \<Rightarrow> authz_target" where
  "authz_target_of path =
    (let segs = path_segments path; n = length segs; seg = (\<lambda>i. if i < n then segs ! i else []) in
     if segs \<in> {[''subjects''], [''schemas''], [''contexts'']} then AtListing
     else if n = 4 \<and> seg 0 = ''schemas'' \<and> seg 1 = ''ids'' \<and> (seg 3 = ''subjects'' \<or> seg 3 = ''versions'') then AtListing
     else if segs = [''metrics''] then AtGlobal
     else if segs = [''admin''] \<or> segs = [''admin'', []]
        \<or> n = 3 \<and> seg 0 = ''admin'' \<and> seg 1 = ''api'' \<and> seg 2 \<in> {''overview'', ''backup'', ''restore''} then AtListing
     else if seg 0 = ''_admin'' then AtListing
     else if n \<ge> 2 \<and> seg 0 = ''subjects'' then subject_only (seg 1)
     else if n \<ge> 3 \<and> seg 0 = ''compatibility'' \<and> seg 1 = ''subjects'' then subject_only (seg 2)
     else if n \<ge> 2 \<and> (seg 0 = ''config'' \<or> seg 0 = ''mode'') then subject_or_context (seg 1)
     else if n \<ge> 2 \<and> seg 0 = ''contexts'' then AtContext (unwrap_or (normalize_context (percent_decode (seg 1))) [])
     else if n \<ge> 4 \<and> seg 0 = ''admin'' \<and> seg 1 = ''api'' \<and> seg 2 = ''subjects'' then subject_only (seg 3)
     else AtGlobal)"

definition is_admin_ui :: "string \<Rightarrow> bool" where
  "is_admin_ui path = (starts_with path ''/admin'' \<or> starts_with path ''/_admin'')"

definition is_whole_process :: "string \<Rightarrow> bool" where
  "is_whole_process path = (is_admin_ui path \<or> path = ''/metrics'')"

definition reveals_exporter_credentials :: "string \<Rightarrow> bool" where
  "reveals_exporter_credentials path =
    (let segs = path_segments path; n = length segs in
     (n = 2 \<and> segs ! 0 = ''exporters'') \<or> (n = 3 \<and> segs ! 0 = ''exporters'' \<and> segs ! 2 = ''config''))"

definition is_lookup_post :: "string \<Rightarrow> bool" where
  "is_lookup_post path =
    (let segs = path_segments path; n = length segs in
     (n = 2 \<and> segs ! 0 = ''subjects'')
     \<or> (n \<ge> 4 \<and> segs ! 0 = ''compatibility'' \<and> segs ! 1 = ''subjects'' \<and> segs ! 3 = ''versions''))"

definition read_only_request :: "string \<Rightarrow> string \<Rightarrow> bool" where
  "read_only_request meth path = (meth \<in> {''GET'', ''HEAD'', ''OPTIONS''} \<or> meth = ''POST'' \<and> is_lookup_post path)"

definition allows :: "role list \<Rightarrow> string \<Rightarrow> string \<Rightarrow> authz_target \<Rightarrow> bool" where
  "allows roles meth path target =
    (if is_whole_process path then RoleAdmin \<in> set roles
     else if RoleAdmin \<in> set roles then True
     else if reveals_exporter_credentials path then False
     else if read_only_request meth path then roles \<noteq> []
     else if RoleWrite \<in> set roles then (case target of AtSubject _ \<Rightarrow> True | _ \<Rightarrow> False)
     else False)"

definition authorized :: "principal \<Rightarrow> string \<Rightarrow> string \<Rightarrow> bool" where
  "authorized p meth path =
    (let target = authz_target_of path in
     case target of
       AtSubject q \<Rightarrow> allows (roles_for_subject p q) meth path target
     | AtContext ctx \<Rightarrow> allows (roles_for_context p ctx) meth path target
     | AtListing \<Rightarrow> if is_admin_ui path then has_role_anywhere p RoleAdmin else has_any_role p
     | AtGlobal \<Rightarrow> allows (pr_roles p) meth path target)"

text \<open>Listings are cut to what the caller may see.\<close>

definition caller_filter :: "principal \<Rightarrow> ('a \<Rightarrow> string) \<Rightarrow> 'a list \<Rightarrow> 'a list" where
  "caller_filter p subject_of items =
    (if sees_everything p then items
     else filter (\<lambda>x. let q = qs_parse (subject_of x) in can_see_subject p (qs_context q) (qs_subject q)) items)"

fun wild :: "string \<Rightarrow> string \<Rightarrow> bool" where
  "wild [] s = (s = [])"
| "wild (c # p) s =
    (if c = CHR ''*'' then list_ex (\<lambda>k. wild p (drop k s)) [0..<Suc (length s)]
     else (case s of [] \<Rightarrow> False | x # xs \<Rightarrow> x = c \<and> wild p xs))"

text \<open>What the stars leave between the parts.\<close>

fun chain :: "string list \<Rightarrow> string \<Rightarrow> bool" where
  "chain [] s = (s = [])"
| "chain (p # ps) s = (\<exists>k. starts_with (drop k s) p
     \<and> (if ps = [] then drop (k + length p) s = [] else chain ps (drop (k + length p) s)))"

text \<open>The roles a caller holds over what a request is about: everywhere, or by a binding that reaches it.\<close>

definition reaches :: "pattern \<Rightarrow> authz_target \<Rightarrow> bool" where
  "reaches pt target = (case target of
      AtSubject q \<Rightarrow> pattern_matches pt (qs_context q) (qs_subject q)
    | AtContext ctx \<Rightarrow> covers_context pt ctx
    | _ \<Rightarrow> False)"

definition granted :: "principal \<Rightarrow> authz_target \<Rightarrow> role \<Rightarrow> bool" where
  "granted p target role = (role \<in> set (pr_roles p)
     \<or> list_ex (\<lambda>(r, pts). r = role \<and> list_ex (\<lambda>pt. reaches pt target) pts) (pr_bindings p))"

definition orders_writer :: principal where
  "orders_writer = \<lparr>pr_roles = [],
     pr_bindings = [(RoleWrite, [\<lparr>pt_context = GLiteral ''.'', pt_subject = GParts [''orders-''] False True\<rparr>])],
     pr_containers = []\<rparr>"

declare find_sub.simps [simp del]

lemma starts_with_Nil [simp]: "starts_with s []"
  by (simp add: starts_with_def)

lemma wild_literal:
  "CHR ''*'' \<notin> set p \<Longrightarrow> wild (p @ q) s = (starts_with s p \<and> wild q (drop (length p) s))"
proof (induction p arbitrary: s)
  case (Cons x p)
  then show ?case by (cases s) (auto simp: starts_with_def)
qed simp

lemma wild_star: "wild (CHR ''*'' # p) s = (\<exists>k. wild p (drop k s))"
proof
  assume "\<exists>k. wild p (drop k s)"
  then obtain k where "wild p (drop k s)" by blast
  then have "wild p (drop (min k (length s)) s)" by (cases "k \<le> length s") (simp_all add: min_def)
  moreover have "min k (length s) \<in> set [0..<Suc (length s)]" by auto
  ultimately show "wild (CHR ''*'' # p) s" unfolding wild.simps list_ex_iff by (auto simp del: upt_Suc)
qed (simp add: list_ex_iff del: upt_Suc, blast)

declare wild.simps(2) [simp del]

lemma wild_chain:
  "ps \<noteq> [] \<Longrightarrow> \<forall>p\<in>set ps. CHR ''*'' \<notin> set p \<Longrightarrow> wild (CHR ''*'' # join ''*'' ps) s = chain ps s"
proof (induction ps arbitrary: s)
  case (Cons p ps)
  show ?case
  proof (cases "ps = []")
    case True
    then show ?thesis using Cons.prems wild_literal [of p "[]"] by (simp add: wild_star le_diff_conv add.commute)
  next
    case False
    have IH: "wild (CHR ''*'' # join ''*'' ps) t = chain ps t" for t using Cons False by simp
    show ?thesis unfolding wild_star [of "join ''*'' (p # ps)"]
      using Cons.prems False wild_literal [of p "CHR ''*'' # join ''*'' ps"] IH by (simp add: join_Cons add.commute)
  qed
qed simp

lemma find_sub_Some: "find_sub p s = Some ix \<Longrightarrow> starts_with (drop ix s) p"
proof (induction s arbitrary: ix)
  case Nil
  then show ?case by (simp add: find_sub.simps [of p "[]"] split: if_splits)
next
  case (Cons x s)
  then show ?case by (auto simp: find_sub.simps [of p "x # s"] split: if_splits)
qed

lemma find_sub_least: "starts_with (drop k s) p \<Longrightarrow> \<exists>ix \<le> k. find_sub p s = Some ix"
proof (induction s arbitrary: k)
  case Nil
  then show ?case by (simp add: find_sub.simps [of p "[]"])
next
  case (Cons x s)
  show ?case
  proof (cases "starts_with (x # s) p")
    case False
    then obtain j where k: "k = Suc j" using Cons.prems by (cases k) auto
    then show ?thesis using Cons.IH [of j] Cons.prems False by (auto simp: find_sub.simps [of p "x # s"])
  qed (auto simp: find_sub.simps [of p "x # s"])
qed

lemma match_parts_sound:
  "ps \<noteq> [] \<Longrightarrow> match_parts False (filter (\<lambda>p. p \<noteq> []) ps) s = Some rest \<Longrightarrow> rest = [] \<or> last ps = [] \<Longrightarrow> chain ps s"
proof (induction ps arbitrary: s)
  case (Cons p ps)
  show ?case
  proof (cases "p = []")
    case True
    then show ?thesis using Cons by (cases "ps = []") (auto intro: exI [of _ "length s"] exI [of _ 0])
  next
    case False
    then obtain ix where ix: "find_sub p s = Some ix"
      and rest: "match_parts False (filter (\<lambda>p. p \<noteq> []) ps) (drop (ix + length p) s) = Some rest"
      using Cons.prems(2) by (auto split: option.splits)
    then show ?thesis using False Cons find_sub_Some [OF ix] by (cases "ps = []") (auto intro!: exI [of _ ix])
  qed
qed simp

lemma chain_later: "chain (p # ps) (drop k s) \<Longrightarrow> chain (p # ps) s"
  by (auto simp: add.assoc add.commute [of _ k] split: if_splits intro: exI [of _ "_ + k"])

lemma match_parts_complete:
  "ps \<noteq> [] \<Longrightarrow> last ps = [] \<Longrightarrow> chain ps s \<Longrightarrow> \<exists>rest. match_parts False (filter (\<lambda>p. p \<noteq> []) ps) s = Some rest"
proof (induction ps arbitrary: s)
  case (Cons p ps)
  show ?case
  proof (cases "ps = []")
    case True
    then show ?thesis using Cons.prems by simp
  next
    case False
    then obtain k where k: "starts_with (drop k s) p" "chain ps (drop (k + length p) s)" using Cons.prems by auto
    show ?thesis
    proof (cases "p = []")
      case True
      obtain p' ps' where ps: "ps = p' # ps'" using False by (cases ps) auto
      then have "chain ps s" using k True chain_later [of p' ps' k s] by simp
      then show ?thesis using Cons.IH [of s] Cons.prems False True by simp
    next
      case nonempty: False
      obtain ix where ix: "ix \<le> k" "find_sub p s = Some ix" using find_sub_least [OF k(1)] by blast
      obtain p' ps' where ps: "ps = p' # ps'" using False by (cases ps) auto
      have "drop (k + length p) s = drop (k - ix) (drop (ix + length p) s)" using ix(1) by simp
      then have "chain ps (drop (ix + length p) s)" using k(2) chain_later [of p' ps' "k - ix" "drop (ix + length p) s"] ps
        by simp
      then show ?thesis using Cons.IH Cons.prems False nonempty ix(2) by simp
    qed
  qed
qed simp

lemma split_on_parts: "\<forall>p\<in>set (split_on c s). c \<notin> set p"
  by (induction s) (auto split: list.splits)

lemma join_split: "join [c] (split_on c s) = s"
proof (induction s)
  case (Cons x s)
  then show ?case by (cases "split_on c s") (auto simp: join_Cons, metis append_Cons join_Cons join.simps(2))
qed simp

lemma split_on_single: "split_on c s = [p] \<Longrightarrow> c \<notin> set s"
  using join_split [of c s] split_on_parts [of c s] by auto

lemma split_on_empty: "split_on c s = [[]] \<Longrightarrow> s = []"
  using join_split [of c s] by simp

lemma split_last: "last (split_on c s) = [] \<longleftrightarrow> s = [] \<or> last s = c"
  by (induction s) (auto split: list.splits dest: split_on_empty)

lemma split_hd: "hd (split_on c s) = [] \<longleftrightarrow> s = [] \<or> hd s = c"
  by (cases s) (auto split: list.splits)

lemma ends_with_char: "ends_with s [c] \<longleftrightarrow> s \<noteq> [] \<and> last s = c"
proof (cases s rule: rev_cases)
  case Nil
  then show ?thesis by (simp add: ends_with_def)
next
  case (snoc t x)
  then show ?thesis by (simp add: ends_with_def)
qed

lemma starts_with_char: "starts_with s [c] \<longleftrightarrow> s \<noteq> [] \<and> hd s = c"
  by (cases s) (auto simp: starts_with_def)

text \<open>A pattern with a star, by the parts its stars separate.\<close>

lemma glob_parts:
  assumes star: "CHR ''*'' \<in> set raw" and any: "raw \<noteq> ''*''"
  defines "ps \<equiv> split_on (CHR ''*'') raw"
  shows "glob_matches (glob_parse raw) s \<longleftrightarrow> starts_with s (hd ps)
    \<and> (\<exists>rest. match_parts False (filter (\<lambda>p. p \<noteq> []) (tl ps)) (drop (length (hd ps)) s) = Some rest
        \<and> (last ps = [] \<or> rest = []))"
proof -
  have ne: "raw \<noteq> []" using star by auto
  have g: "glob_parse raw = GParts (filter (\<lambda>p. p \<noteq> []) ps) (hd ps = []) (last ps = [])"
    using assms ne by (simp add: glob_parse_def ps_def starts_with_char ends_with_char split_last split_hd)
  obtain p qs where ps: "ps = p # qs" unfolding ps_def by (cases "split_on (CHR ''*'') raw") auto
  show ?thesis unfolding g by (cases "p = []") (auto simp: ps split: option.splits)
qed

lemma wild_parts:
  assumes "CHR ''*'' \<in> set raw"
  shows "wild raw s \<longleftrightarrow> starts_with s (hd (split_on (CHR ''*'') raw))
    \<and> chain (tl (split_on (CHR ''*'') raw)) (drop (length (hd (split_on (CHR ''*'') raw))) s)"
proof -
  obtain p qs where ps: "split_on (CHR ''*'') raw = p # qs" by (cases "split_on (CHR ''*'') raw") auto
  then have qs: "qs \<noteq> []" using assms split_on_single [of "CHR ''*''" raw p] by auto
  have raw: "raw = p @ CHR ''*'' # join ''*'' qs"
    using join_split [of "CHR ''*''" raw] join_Cons [OF qs] ps by simp
  have parts: "CHR ''*'' \<notin> set p" "\<forall>p\<in>set qs. CHR ''*'' \<notin> set p" using split_on_parts [of "CHR ''*''" raw] ps by auto
  show ?thesis unfolding ps using wild_literal [OF parts(1)] wild_chain [OF qs parts(2)] by (simp add: raw)
qed

text \<open>C22. A pattern of a role binding matches only what its stars allow: whatever it matches, the wildcard meaning
  of the text matches.  A pattern without a star, and one that ends in a star, matches exactly that.\<close>

theorem glob_matches_sound:
  "(glob_matches (glob_parse raw) s \<longrightarrow> wild raw s)
   \<and> (CHR ''*'' \<notin> set raw \<or> ends_with raw ''*'' \<longrightarrow> glob_matches (glob_parse raw) s = wild raw s)"
proof -
  let ?ps = "split_on (CHR ''*'') raw"
  consider (literal) "CHR ''*'' \<notin> set raw" | (any) "raw = ''*''" | (parts) "CHR ''*'' \<in> set raw" "raw \<noteq> ''*''" by blast
  then show ?thesis
  proof cases
    case literal
    then have "raw \<noteq> ''*''" by auto
    then show ?thesis using literal wild_literal [OF literal, of "[]" s]
      by (auto simp: glob_parse_def starts_with_def)
  next
    case any
    then show ?thesis using wild_star [of "[]" s] by (auto simp: glob_parse_def intro: exI [of _ "length s"])
  next
    case parts
    then have tl: "tl ?ps \<noteq> []" using split_on_single [of "CHR ''*''" raw "hd ?ps"] by (cases ?ps) auto
    then have "last (tl ?ps) = last ?ps" by (cases ?ps) auto
    then show ?thesis using glob_parts [OF parts, of s] wild_parts [OF parts(1), of s] match_parts_sound [OF tl]
        match_parts_complete [OF tl] split_last [of "CHR ''*''" raw] parts(1) by (auto simp: ends_with_char)
  qed
qed

lemma glob_misses: "wild ''a*b'' ''abab'' \<and> \<not> glob_matches (glob_parse ''a*b'') ''abab''"
  by (simp add: wild.simps glob_parse_def starts_with_def ends_with_def find_sub.simps)

lemma add_roles_set:
  "r \<in> set (fold (add_roles hit) bs rs) \<longleftrightarrow> r \<in> set rs \<or> list_ex (\<lambda>(r', pts). r' = r \<and> list_ex hit pts) bs"
proof (induction bs arbitrary: rs)
  case (Cons b bs)
  have "set (add_roles hit b rs) = set rs \<union> (if list_ex hit (snd b) then {fst b} else {})"
    by (cases b) (simp add: add_roles_def insert_absorb)
  then show ?case using Cons [of "add_roles hit b rs"] by (cases b) auto
qed simp

lemma granted_subject: "r \<in> set (roles_for_subject p q) \<longleftrightarrow> granted p (AtSubject q) r"
  by (simp add: roles_for_subject_def add_roles_set granted_def reaches_def)

lemma granted_context: "r \<in> set (roles_for_context p ctx) \<longleftrightarrow> granted p (AtContext ctx) r"
  by (simp add: roles_for_context_def add_roles_set granted_def reaches_def)

lemma granted_global: "r \<in> set (pr_roles p) \<longleftrightarrow> granted p AtGlobal r"
  by (simp add: granted_def reaches_def list_ex_iff)

lemma authorized_roles:
  assumes "authz_target_of path \<noteq> AtListing"
  shows "\<exists>roles. authorized p meth path = allows roles meth path (authz_target_of path)
    \<and> (\<forall>r. r \<in> set roles \<longleftrightarrow> granted p (authz_target_of path) r)"
proof (cases "authz_target_of path")
  case (AtSubject q)
  then show ?thesis by (intro exI [of _ "roles_for_subject p q"]) (simp add: authorized_def granted_subject)
next
  case (AtContext ctx)
  then show ?thesis by (intro exI [of _ "roles_for_context p ctx"]) (simp add: authorized_def granted_context)
next
  case AtGlobal
  then show ?thesis by (intro exI [of _ "pr_roles p"]) (simp add: authorized_def granted_global)
qed (use assms in simp)

lemma authorized_exact:
  assumes "authz_target_of path \<noteq> AtListing"
  shows "authorized p meth path \<longleftrightarrow> granted p (authz_target_of path) RoleAdmin
    \<or> \<not> is_whole_process path \<and> \<not> reveals_exporter_credentials path
      \<and> (if read_only_request meth path then \<exists>r. granted p (authz_target_of path) r
         else granted p (authz_target_of path) RoleWrite \<and> (\<exists>q. authz_target_of path = AtSubject q))"
proof -
  obtain roles where a: "authorized p meth path = allows roles meth path (authz_target_of path)"
    and r: "r \<in> set roles \<longleftrightarrow> granted p (authz_target_of path) r" for r
    using authorized_roles [OF assms] by blast
  have "roles \<noteq> [] \<longleftrightarrow> (\<exists>r. granted p (authz_target_of path) r)" by (cases roles) (auto simp: r [symmetric])
  then show ?thesis unfolding a allows_def r by (cases "authz_target_of path") simp_all
qed


lemma encoded_segment_plain:
  "CHR ''/'' \<notin> set (percent_encode_segment s)" "s \<noteq> [] \<Longrightarrow> percent_encode_segment s \<noteq> []"
proof -
  have h: "hex_upper n \<noteq> CHR ''/''" if "n < 16" for n 
  proof
    assume "hex_upper n = CHR ''/''"
    then have "of_char (hex_upper n) = (47 :: nat)" by simp
    then show False using that by (simp add: hex_upper_def of_char_of split: if_splits)
  qed
  have "CHR ''/'' \<notin> set (percent_escape c)" for c
  proof -
    have "of_char c div 16 < (16 :: nat)" using of_char_less [of c] by (simp add: div_less_iff_less_mult)
    then show ?thesis using h [of "of_char c div 16"] h [of "of_char c mod 16"] by (simp add: percent_escape_def Let_def)
  qed
  then show "CHR ''/'' \<notin> set (percent_encode_segment s)"
    by (auto simp: percent_encode_segment_def is_ascii_alphanumeric_def split: if_splits)
  show "s \<noteq> [] \<Longrightarrow> percent_encode_segment s \<noteq> []"
    by (cases s) (auto simp: percent_encode_segment_def percent_escape_def Let_def)
qed

lemma percent_decode_encoded: "utf8_valid v \<Longrightarrow> percent_decode (percent_encode_segment v) = v"
  unfolding percent_decode_def percent_encode_segment_def
  by (subst escaped_bytes) (use alnum_plain in \<open>auto simp: from_utf8_lossy_id\<close>)

text \<open>C19. A listing shows exactly what the caller may open: a caller who holds a role somewhere sees a subject in
  the listings if and only if the request to read that subject, at its own path, is authorized.\<close>

theorem listing_matches_access:
  assumes "has_any_role p" and "utf8_valid name" "name \<noteq> []"
  shows "name \<in> set (caller_filter p (\<lambda>x. x) items) \<longleftrightarrow>
    name \<in> set items \<and> authorized p ''GET'' (''/subjects/'' @ percent_encode_segment name)"
proof -
  let ?q = "qs_parse name" and ?path = "''/subjects/'' @ percent_encode_segment name"
  have segs: "path_segments ?path = [''subjects'', percent_encode_segment name]"
    using path_segments_join [of "[''subjects'', percent_encode_segment name]"] encoded_segment_plain [of name] assms(3)
    by simp
  have target: "authz_target_of ?path = AtSubject ?q"
    using segs percent_decode_encoded [OF assms(2)] by (simp add: authz_target_of_def Let_def subject_only_def)
  have "\<not> is_whole_process ?path" by (simp add: is_whole_process_def is_admin_ui_def starts_with_def)
  moreover have "\<not> reveals_exporter_credentials ?path" unfolding reveals_exporter_credentials_def segs by simp
  moreover have "read_only_request ''GET'' ?path" by (simp add: read_only_request_def)
  ultimately have "authorized p ''GET'' ?path \<longleftrightarrow> (\<exists>r. granted p (AtSubject ?q) r)"
    using authorized_exact [of ?path p "''GET''"] target by auto
  also have "\<dots> \<longleftrightarrow> can_see_subject p (qs_context ?q) (qs_subject ?q)"
    using assms(1) by (cases "pr_roles p")
      (auto simp: granted_def reaches_def can_see_subject_def sees_everything_def has_any_role_def list_ex_iff)
  finally show ?thesis by (auto simp: caller_filter_def Let_def can_see_subject_def)
qed

lemma authz_target_subjects:
  assumes "\<forall>p\<in>set (s # tl_segs). p \<noteq> [] \<and> CHR ''/'' \<notin> set p"
  shows "authz_target_of (''/'' @ join ''/'' (''subjects'' # s # tl_segs)) = AtSubject (qs_parse (percent_decode s))"
proof -
  have "path_segments (''/'' @ join ''/'' (''subjects'' # s # tl_segs)) = ''subjects'' # s # tl_segs"
    by (rule path_segments_join) (use assms in auto)
  then show ?thesis by (simp add: authz_target_of_def Let_def subject_only_def)
qed



lemma orders_segments:
  "path_segments ''/subjects/orders-1/versions'' = [''subjects'', ''orders-1'', ''versions'']"
  "path_segments ''/config'' = [''config'']"
  by (simp_all add: path_segments_def trim_char_def trim_start_char_def trim_end_char_def)

lemma orders_plain: "percent_decode ''orders-1'' = ''orders-1''"
  using percent_decode_plain [of "''orders-1''" "[]"] by (simp add: percent_decode_def from_utf8_lossy.simps [of "[]"])

lemma orders_targets:
  "authz_target_of ''/subjects/orders-1/versions'' = AtSubject (qs_new ''.'' ''orders-1'')"
  "authz_target_of ''/config'' = AtGlobal"
  unfolding authz_target_of_def orders_segments
  by (simp_all add: Let_def subject_only_def orders_plain qs_parse_plain starts_with_def DEFAULT_CONTEXT_def)


theorem listing_matches_access_witness:
  "authorized orders_writer ''GET'' (''/subjects/'' @ percent_encode_segment ''orders-1'')
   \<and> \<not> authorized orders_writer ''GET'' (''/subjects/'' @ percent_encode_segment ''other'')"
proof -
  have v: "utf8_valid (''orders-1'')" "utf8_valid (''other'')"
    using from_utf8_lossy_valid [of "''orders-1''"] from_utf8_lossy_valid [of "''other''"]
      from_utf8_lossy_ascii [of "''orders-1''" "[]"] from_utf8_lossy_ascii [of "''other''" "[]"]
    by (simp_all add: from_utf8_lossy.simps [of "[]"])
  have r: "has_any_role orders_writer" by (simp add: has_any_role_def orders_writer_def)
  have "caller_filter orders_writer (\<lambda>x. x) [''orders-1'', ''other''] = [''orders-1'']"
    by (simp add: caller_filter_def orders_writer_def sees_everything_def can_see_subject_def qs_parse_plain starts_with_def
        qs_new_def pattern_matches_def DEFAULT_CONTEXT_def)
  then show ?thesis
    using listing_matches_access [OF r v(1), of "[''orders-1'', ''other'']"]
      listing_matches_access [OF r v(2), of "[''orders-1'', ''other'']"] by simp
qed

theorem glob_matches_sound_witness:
  "wild ''orders-*'' ''orders-1'' \<and> glob_matches (glob_parse ''orders-*'') ''orders-1''"
proof -
  have "glob_matches (glob_parse ''orders-*'') ''orders-1''"
    by (simp add: glob_parse_def starts_with_def ends_with_def)
  then show ?thesis using glob_matches_sound [of "''orders-*''" "''orders-1''"] by blast
qed

end
