(* ===== verification/Auth.thy ===== *)
theory Auth
  imports Authz
begin

text \<open>
  Authentication (\<open>src/src/auth.rs\<close>): Basic credentials, the cache of verified credentials, and the middleware
  that admits a request.  Base64, bcrypt and SHA-256 are arguments.  \<open>decision\<close> is the same verdict computed
  from the configuration alone; the cache is shown to change no answer.
\<close>

section \<open>Credentials\<close>

text \<open>The libraries behind it, as arguments: the decoding of base64, the verification and the making of a bcrypt
  hash, and SHA-256.\<close>

record crypto =
  cr_base64 :: "string \<Rightarrow> bytes option"
  cr_verify :: "string \<Rightarrow> string \<Rightarrow> bool option"
  cr_hash :: "string \<Rightarrow> nat \<Rightarrow> string option"
  cr_sha256 :: "bytes \<Rightarrow> bytes"

record auth_config =
  ac_enabled :: bool
  ac_realm :: string
  ac_users :: "user_config list"

record auth =
  au_enabled :: bool
  au_realm :: string
  au_users :: "string \<rightharpoonup> string \<times> principal"
  au_verified :: "bytes list"
  au_dummy_hash :: "string option"

definition DEFAULT_BCRYPT_COST :: nat where
  "DEFAULT_BCRYPT_COST = 12"

definition bcrypt_cost :: "string \<Rightarrow> nat option" where
  "bcrypt_cost stored =
    (case split_on (CHR ''$'') stored of
       _ # scheme # cost # _ \<Rightarrow> if starts_with scheme ''2'' then map_option unat (parse_u32 cost) else None
     | _ \<Rightarrow> None)"

definition max_of :: "nat list \<Rightarrow> nat option" where
  "max_of xs = (if xs = [] then None else Some (fold max xs 0))"

definition dummy_hash_for :: "crypto \<Rightarrow> auth_config \<Rightarrow> string option" where
  "dummy_hash_for cr cfg =
    Option.bind (max_of (List.map_filter (\<lambda>u. bcrypt_cost (us_password u)) (ac_users cfg))) (\<lambda>cost.
    cr_hash cr ''schema-registry-dummy-password'' (min (max DEFAULT_BCRYPT_COST cost) (max 4 cost)))"

definition auth_new :: "crypto \<Rightarrow> auth_config \<Rightarrow> auth" where
  "auth_new cr cfg = \<lparr>au_enabled = ac_enabled cfg, au_realm = ac_realm cfg,
     au_users = map_of (rev (map (\<lambda>u. (us_username u, (us_password u, from_user u))) (ac_users cfg))),
     au_verified = [], au_dummy_hash = dummy_hash_for cr cfg\<rparr>"

definition auth_disabled :: auth where
  "auth_disabled = \<lparr>au_enabled = False, au_realm = [], au_users = Map.empty, au_verified = [], au_dummy_hash = None\<rparr>"

definition decode_basic :: "crypto \<Rightarrow> string \<Rightarrow> (string \<times> string) option" where
  "decode_basic cr header_value =
    Option.bind (split_once (CHR '' '') header_value) (\<lambda>(scheme, encoded).
    if \<not> eq_ignore_ascii_case scheme ''Basic'' then None
    else Option.bind (cr_base64 cr (trim encoded)) (\<lambda>decoded.
      Option.bind (from_utf8 decoded) (split_once (CHR '':''))))"

definition key_part :: "string \<Rightarrow> bytes" where
  "key_part s = u64_to_be (of_nat (length s)) @ s"

definition key_preimage :: "string \<Rightarrow> string \<Rightarrow> string \<Rightarrow> bytes" where
  "key_preimage user password stored = concat (map key_part [user, password, stored])"

definition cache_key :: "crypto \<Rightarrow> string \<Rightarrow> string \<Rightarrow> string \<Rightarrow> bytes" where
  "cache_key cr user password stored = cr_sha256 cr (key_preimage user password stored)"

definition auth_cached :: "crypto \<Rightarrow> auth \<Rightarrow> string \<Rightarrow> principal option" where
  "auth_cached cr a header_value =
    Option.bind (decode_basic cr header_value) (\<lambda>(user, password).
    Option.bind (au_users a user) (\<lambda>(stored, pr).
    if cache_key cr user password stored \<in> set (au_verified a) then Some pr else None))"

definition password_ok :: "crypto \<Rightarrow> string \<Rightarrow> string \<Rightarrow> bool" where
  "password_ok cr password stored =
    (if starts_with stored ''$2a$'' \<or> starts_with stored ''$2b$'' \<or> starts_with stored ''$2y$''
     then unwrap_or (cr_verify cr password stored) False
     else stored = password)"

text \<open>A full cache is emptied before the next key goes in.\<close>

definition remember :: "bytes \<Rightarrow> bytes list \<Rightarrow> bytes list" where
  "remember key verified = List.insert key (if length verified > 10000 then [] else verified)"

definition authenticate :: "crypto \<Rightarrow> auth \<Rightarrow> string \<Rightarrow> auth \<times> principal option" where
  "authenticate cr a header_value =
    (case decode_basic cr header_value of
       None \<Rightarrow> (a, None)
     | Some (user, password) \<Rightarrow>
         (case au_users a user of
            None \<Rightarrow> (a, None)
          | Some (stored, pr) \<Rightarrow>
              let key = cache_key cr user password stored in
              if key \<in> set (au_verified a) then (a, Some pr)
              else if password_ok cr password stored
              then (a\<lparr>au_verified := remember key (au_verified a)\<rparr>, Some pr)
              else (a, None)))"

datatype verdict = Challenge string | Forbidden | Proceed "principal option"

text \<open>The container was decided before; a request outside every container carries none.\<close>

definition middleware :: "crypto \<Rightarrow> auth \<Rightarrow> string option \<Rightarrow> tenant_id option \<Rightarrow> string \<Rightarrow> string \<Rightarrow> auth \<times> verdict" where
  "middleware cr a creds container meth path =
    (if \<not> au_enabled a then (a, Proceed None)
     else case creds of
       None \<Rightarrow> (a, Challenge (au_realm a))
     | Some c \<Rightarrow>
         let (a', who) = (case auth_cached cr a c of Some p \<Rightarrow> (a, Some p) | None \<Rightarrow> authenticate cr a c) in
         (a', case who of
            None \<Rightarrow> Challenge (au_realm a)
          | Some p \<Rightarrow>
              if (case container of None \<Rightarrow> False | Some t \<Rightarrow> \<not> may_use p t) then Forbidden
              else if \<not> authorized p meth path then Forbidden
              else Proceed (Some p)))"

text \<open>A request as the middleware sees it.\<close>

type_synonym auth_request = "string option \<times> tenant_id option \<times> string \<times> string"

definition admit :: "crypto \<Rightarrow> auth_request \<Rightarrow> auth \<Rightarrow> auth" where
  "admit cr = (\<lambda>(creds, container, meth, path) a. fst (middleware cr a creds container meth path))"

text \<open>The same decision without the cache, from the configuration.\<close>

definition credentials_of :: "crypto \<Rightarrow> auth_config \<Rightarrow> string \<Rightarrow> principal option" where
  "credentials_of cr cfg header_value =
    Option.bind (decode_basic cr header_value) (\<lambda>(user, password).
    Option.bind (au_users (auth_new cr cfg) user) (\<lambda>(stored, pr).
    if password_ok cr password stored then Some pr else None))"

definition decision :: "crypto \<Rightarrow> auth_config \<Rightarrow> auth_request \<Rightarrow> verdict" where
  "decision cr cfg = (\<lambda>(creds, container, meth, path).
    if \<not> ac_enabled cfg then Proceed None
    else case Option.bind creds (credentials_of cr cfg) of
      None \<Rightarrow> Challenge (ac_realm cfg)
    | Some p \<Rightarrow>
        if (\<forall>t. container = Some t \<longrightarrow> may_use p t) \<and> authorized p meth path then Proceed (Some p) else Forbidden)"

text \<open>What clients present to configured users in a run of requests.\<close>

definition presented :: "crypto \<Rightarrow> auth_config \<Rightarrow> auth_request list \<Rightarrow> (string \<times> string \<times> string) set" where
  "presented cr cfg rs = {(user, password, stored). \<exists>c container meth path pr. (Some c, container, meth, path) \<in> set rs
     \<and> decode_basic cr c = Some (user, password) \<and> au_users (auth_new cr cfg) user = Some (stored, pr)}"

definition key_of :: "string \<times> string \<times> string \<Rightarrow> bytes" where
  "key_of = (\<lambda>(user, password, stored). key_preimage user password stored)"

definition short :: "string \<times> string \<times> string \<Rightarrow> bool" where
  "short = (\<lambda>(user, password, stored). length user < 2 ^ 64 \<and> length password < 2 ^ 64 \<and> length stored < 2 ^ 64)"

definition cache_ok :: "crypto \<Rightarrow> auth_config \<Rightarrow> auth_request list \<Rightarrow> auth \<Rightarrow> bool" where
  "cache_ok cr cfg rs a = (au_enabled a = ac_enabled cfg \<and> au_realm a = ac_realm cfg
     \<and> au_users a = au_users (auth_new cr cfg) \<and> length (au_verified a) \<le> 10001
     \<and> (\<forall>k\<in>set (au_verified a). \<exists>t\<in>presented cr cfg rs. k = cr_sha256 cr (key_of t) \<and> password_ok cr (fst (snd t)) (snd (snd t))))"

lemma key_part_inj:
  assumes "key_part a @ x = key_part b @ y" "length a < 2 ^ 64" "length b < 2 ^ 64"
  shows "a = b \<and> x = y"
proof -
  have w: "(of_nat (length a) :: u64) = of_nat (length b)" and r: "a @ x = b @ y"
    using assms(1) by (simp_all add: key_part_def)
  have "unat (of_nat (length a) :: u64) = length a" "unat (of_nat (length b) :: u64) = length b"
    using assms(2,3) by (simp_all add: unat_of_nat take_bit_eq_mod)
  then have "length a = length b" using w by metis
  then show ?thesis using r by simp
qed

lemma key_of_inj: "short t \<Longrightarrow> short t' \<Longrightarrow> key_of t = key_of t' \<Longrightarrow> t = t'"
  using key_part_inj [of _ "[]" _ "[]"]
  by (cases t; cases t') (auto simp: key_of_def key_preimage_def short_def dest!: key_part_inj)

text \<open>With keys that do not collide, a key in the cache stands for a password that was checked.\<close>

lemma cached_key:
  assumes ok: "cache_ok cr cfg rs a" and t: "(user, password, stored) \<in> presented cr cfg rs"
    and inj: "inj_on (cr_sha256 cr) (key_of ` presented cr cfg rs)" and short: "\<forall>t\<in>presented cr cfg rs. short t"
    and key: "cache_key cr user password stored \<in> set (au_verified a)"
  shows "password_ok cr password stored"
proof -
  obtain t' where t': "t' \<in> presented cr cfg rs" "cache_key cr user password stored = cr_sha256 cr (key_of t')"
    "password_ok cr (fst (snd t')) (snd (snd t'))" using ok key unfolding cache_ok_def by blast
  have "cr_sha256 cr (key_of (user, password, stored)) = cr_sha256 cr (key_of t')"
    using t'(2) by (simp add: cache_key_def key_of_def)
  then have "key_of (user, password, stored) = key_of t'"
    using inj_onD [OF inj] t t'(1) by blast
  then have "(user, password, stored) = t'" using short t t'(1) key_of_inj by blast
  then show ?thesis using t'(3) by auto
qed

lemma remember_ok:
  "length vs \<le> 10001 \<Longrightarrow> length (remember k vs) \<le> 10001" "set (remember k vs) \<subseteq> insert k (set vs)"
  by (auto simp: remember_def List.insert_def)

text \<open>One request: the answer is that of the configuration, and the cache stays sound.\<close>

lemma credentials_step:
  assumes ok: "cache_ok cr cfg rs a" and c: "(Some c, container, meth, path) \<in> set rs"
    and inj: "inj_on (cr_sha256 cr) (key_of ` presented cr cfg rs)" and short: "\<forall>t\<in>presented cr cfg rs. short t"
    and who: "who = (case auth_cached cr a c of Some p \<Rightarrow> (a, Some p) | None \<Rightarrow> authenticate cr a c)"
  shows "snd who = credentials_of cr cfg c \<and> cache_ok cr cfg rs (fst who)"
proof (cases "decode_basic cr c")
  case None
  then show ?thesis using ok by (simp add: who auth_cached_def authenticate_def credentials_of_def)
next
  case (Some up)
  obtain user password where up: "up = (user, password)" by (cases up)
  have users: "au_users a = au_users (auth_new cr cfg)" using ok by (simp add: cache_ok_def)
  show ?thesis
  proof (cases "au_users a user")
    case None
    then show ?thesis using Some up ok users by (simp add: who auth_cached_def authenticate_def credentials_of_def)
  next
    case (Some sp)
    obtain stored pr where sp: "sp = (stored, pr)" by (cases sp)
    have t: "(user, password, stored) \<in> presented cr cfg rs"
      using \<open>decode_basic cr c = Some up\<close> Some up sp c users by (auto simp: presented_def)
    let ?key = "cache_key cr user password stored"
    have grown: "cache_ok cr cfg rs (a\<lparr>au_verified := remember ?key (au_verified a)\<rparr>)" if "password_ok cr password stored"
    proof -
      have "\<exists>t\<in>presented cr cfg rs. ?key = cr_sha256 cr (key_of t) \<and> password_ok cr (fst (snd t)) (snd (snd t))"
        using t that by (intro bexI [of _ "(user, password, stored)"]) (simp_all add: cache_key_def key_of_def)
      then show ?thesis using ok remember_ok [where k = ?key and vs = "au_verified a"] unfolding cache_ok_def by auto
    qed
    show ?thesis using \<open>decode_basic cr c = Some up\<close> Some up sp ok grown cached_key [OF ok t inj short] users
      by (auto simp: who auth_cached_def authenticate_def credentials_of_def Let_def)
  qed
qed

lemma middleware_step:
  assumes ok: "cache_ok cr cfg rs a" and r: "(creds, container, meth, path) \<in> set rs"
    and inj: "inj_on (cr_sha256 cr) (key_of ` presented cr cfg rs)" and short: "\<forall>t\<in>presented cr cfg rs. short t"
  shows "cache_ok cr cfg rs (fst (middleware cr a creds container meth path))
    \<and> snd (middleware cr a creds container meth path) = decision cr cfg (creds, container, meth, path)"
proof -
  have cfg: "au_enabled a = ac_enabled cfg" "au_realm a = ac_realm cfg" using ok by (simp_all add: cache_ok_def)
  show ?thesis
  proof (cases "ac_enabled cfg \<and> creds \<noteq> None")
    case False
    then show ?thesis using ok cfg by (auto simp: middleware_def decision_def split: option.splits)
  next
    case True
    then obtain c where c: "creds = Some c" by auto
    then have "(Some c, container, meth, path) \<in> set rs" using r by simp
    from credentials_step [OF ok this inj short refl] show ?thesis using True c cfg
      by (auto simp: middleware_def decision_def case_prod_unfold Let_def split: option.splits)
  qed
qed

lemma cache_ok_run:
  assumes "set rs \<subseteq> set all" "inj_on (cr_sha256 cr) (key_of ` presented cr cfg all)" "\<forall>t\<in>presented cr cfg all. short t"
  shows "cache_ok cr cfg all (fold (admit cr) rs (auth_new cr cfg))"
  using assms(1)
proof (induction rs rule: rev_induct)
  case Nil
  then show ?case by (simp add: cache_ok_def auth_new_def)
next
  case (snoc r rs)
  obtain creds container meth path where r: "r = (creds, container, meth, path)" by (cases r) auto
  have ok: "cache_ok cr cfg all (fold (admit cr) rs (auth_new cr cfg))" using snoc by simp
  have "(creds, container, meth, path) \<in> set all" using snoc.prems r by simp
  from middleware_step [OF ok this assms(2,3)] show ?case by (simp add: admit_def r)
qed

text \<open>C17. Whatever was asked before, a request is admitted exactly when the configuration says so: with
  authentication on, when its credentials verify against the configured user, the user may use the container, and
  the role rules allow the request; the cache of verified credentials, which never holds more than 10001 keys,
  changes no answer as long as SHA-256 does not collide on what was presented.\<close>

theorem middleware_exact:
  assumes "inj_on (cr_sha256 cr) (key_of ` presented cr cfg ((creds, container, meth, path) # rs))"
    and "\<forall>t\<in>presented cr cfg ((creds, container, meth, path) # rs). short t"
  shows "snd (middleware cr (fold (admit cr) rs (auth_new cr cfg)) creds container meth path) = decision cr cfg (creds, container, meth, path)
    \<and> length (au_verified (fold (admit cr) rs (auth_new cr cfg))) \<le> 10001"
proof -
  have ok: "cache_ok cr cfg ((creds, container, meth, path) # rs) (fold (admit cr) rs (auth_new cr cfg))"
    using assms(1,2) by (intro cache_ok_run) auto
  from middleware_step [OF ok _ assms(1,2)] ok show ?thesis by (simp add: cache_ok_def)
qed

end
