(* ===== verification/Proxy.thy ===== *)
theory Proxy
  imports Rewrite
begin

text \<open>
  The PROXY protocol (\<open>src/src/proxy_protocol.rs\<close>): the text form of addresses as the standard library reads it,
  the networks whose headers are believed, and the reader of the header.  A connection is the list of chunks the
  socket delivers; the reader is compared with \<open>proxy_spec\<close>, which sees all bytes at once.  The timer is the
  argument \<open>late\<close>.  Loops are functions with a termination proof: each round of \<open>fill\<close> and \<open>read_line\<close> adds to a
  buffer of bounded length.
\<close>

unbundle bit_operations_syntax

section \<open>Addresses\<close>

text \<open>\<open>IpAddr\<close> and its text form as the standard library reads it: a reader takes a prefix of the text or
  nothing.\<close>

datatype ip_addr = V4 "32 word" | V6 "128 word"

definition to_digit :: "nat \<Rightarrow> char \<Rightarrow> nat option" where
  "to_digit radix c = (case hex_value c of Some d \<Rightarrow> if d < radix then Some d else None | None \<Rightarrow> None)"

fun read_digits :: "nat \<Rightarrow> string \<Rightarrow> nat list \<times> string" where
  "read_digits radix [] = ([], [])"
| "read_digits radix (c # cs) =
    (case to_digit radix c of
       Some d \<Rightarrow> (let (ds, rest) = read_digits radix cs in (d # ds, rest))
     | None \<Rightarrow> ([], c # cs))"

definition read_number :: "nat \<Rightarrow> nat \<Rightarrow> bool \<Rightarrow> nat \<Rightarrow> string \<Rightarrow> (nat \<times> string) option" where
  "read_number radix max_digits allow_zero_prefix bound s =
    (let (ds, rest) = read_digits radix s; n = foldl (\<lambda>a d. radix * a + d) 0 ds in
     if length ds > max_digits then None
     else if n \<ge> bound then None
     else if ds = [] then None
     else if \<not> allow_zero_prefix \<and> starts_with s ''0'' \<and> length ds > 1 then None
     else Some (n, rest))"

fun read_given_char :: "char \<Rightarrow> string \<Rightarrow> string option" where
  "read_given_char c (x # xs) = (if x = c then Some xs else None)"
| "read_given_char c [] = None"

definition read_separator :: "char \<Rightarrow> nat \<Rightarrow> (string \<Rightarrow> ('a \<times> string) option) \<Rightarrow> string \<Rightarrow> ('a \<times> string) option" where
  "read_separator sep index inner s =
    (if index > 0 then Option.bind (read_given_char sep s) inner else inner s)"

fun read_octets :: "nat \<Rightarrow> nat \<Rightarrow> string \<Rightarrow> (nat list \<times> string) option" where
  "read_octets 0 index s = Some ([], s)"
| "read_octets (Suc n) index s =
    Option.bind (read_separator (CHR ''.'') index (read_number 10 3 False 256) s) (\<lambda>(x, rest).
    map_option (\<lambda>(xs, rest'). (x # xs, rest')) (read_octets n (Suc index) rest))"

definition read_ipv4_addr :: "string \<Rightarrow> (nat list \<times> string) option" where
  "read_ipv4_addr s = read_octets 4 0 s"

text \<open>Up to \<open>limit\<close> groups of an IPv6 address: the groups read, whether the last two came from a dotted tail, and
  the rest of the text.\<close>

function read_groups :: "nat \<Rightarrow> nat \<Rightarrow> string \<Rightarrow> nat list \<times> bool \<times> string" where
  "read_groups limit i s =
    (if i \<ge> limit then ([], False, s)
     else case (if i < limit - 1 then read_separator (CHR '':'') i read_ipv4_addr s else None) of
       Some (octets, rest) \<Rightarrow>
         ([256 * (octets ! 0) + octets ! 1, 256 * (octets ! 2) + octets ! 3], True, rest)
     | None \<Rightarrow>
         (case read_separator (CHR '':'') i (read_number 16 4 True 65536) s of
            None \<Rightarrow> ([], False, s)
          | Some (g, rest) \<Rightarrow> (let (gs, v4, rest') = read_groups limit (Suc i) rest in (g # gs, v4, rest'))))"
  by auto

termination
  by (relation "measure (\<lambda>(limit, i, s). limit - i)") auto

definition groups_value :: "nat \<Rightarrow> nat list \<Rightarrow> nat" where
  "groups_value base gs = foldl (\<lambda>a g. base * a + g) 0 gs"

definition read_ipv6_addr :: "string \<Rightarrow> (128 word \<times> string) option" where
  "read_ipv6_addr s =
    (let (head, head_ipv4, rest) = read_groups 8 0 s in
     if length head = 8 then Some (of_nat (groups_value 65536 head), rest)
     else if head_ipv4 then None
     else
       Option.bind (read_given_char (CHR '':'') rest) (\<lambda>rest1.
       Option.bind (read_given_char (CHR '':'') rest1) (\<lambda>rest2.
       let (tail, _, rest3) = read_groups (8 - (length head + 1)) 0 rest2;
           zeros = replicate (8 - length head - length tail) 0 in
       Some (of_nat (groups_value 65536 (head @ zeros @ tail)), rest3))))"

definition ip_parse :: "string \<Rightarrow> ip_addr option" where
  "ip_parse s =
    (case (case read_ipv4_addr s of
             Some (octets, rest) \<Rightarrow> Some (V4 (of_nat (groups_value 256 octets)), rest)
           | None \<Rightarrow> map_option (\<lambda>(w, rest). (V6 w, rest)) (read_ipv6_addr s)) of
       Some (ip, []) \<Rightarrow> Some ip
     | _ \<Rightarrow> None)"

definition parse_u16 :: "string \<Rightarrow> 16 word option" where
  "parse_u16 s =
    (let ds = (case s of (CHR ''+'') # cs \<Rightarrow> cs | _ \<Rightarrow> s) in
     if ds = [] \<or> \<not> list_all is_ascii_digit ds then None
     else if digits_value 0 ds < 2 ^ 16 then Some (of_nat (digits_value 0 ds)) else None)"

section \<open>Who is believed\<close>

type_synonym socket_addr = "ip_addr \<times> 16 word"

datatype proxy_version = ProxyOne | ProxyTwo

definition V2_SIGNATURE :: bytes where
  "V2_SIGNATURE = [CHR 0x0D, CHR 0x0A, CHR 0x0D, CHR 0x0A, CHR 0x00, CHR 0x0D, CHR 0x0A] @ ''QUIT'' @ [CHR 0x0A]"

definition V1_PREFIX :: bytes where
  "V1_PREFIX = ''PROXY ''"

definition V1_MAX :: nat where
  "V1_MAX = 108"

record expect =
  ex_on :: bool
  ex_version :: proxy_version

definition proxy_version_parse :: "nat \<Rightarrow> string + proxy_version" where
  "proxy_version_parse v =
    (if v = 1 then Inr ProxyOne else if v = 2 then Inr ProxyTwo
     else Inl (''proxy_version must be 1 or 2, not '' @ show_nat v))"

fun signature :: "proxy_version \<Rightarrow> bytes" where
  "signature ProxyOne = V1_PREFIX"
| "signature ProxyTwo = V2_SIGNATURE"

definition expect_off :: expect where
  "expect_off = \<lparr>ex_on = False, ex_version = ProxyTwo\<rparr>"

definition DEFAULT_TRUSTED :: "string list" where
  "DEFAULT_TRUSTED = [''127.0.0.0/8'', ''10.0.0.0/8'', ''172.16.0.0/12'', ''192.168.0.0/16'', ''169.254.0.0/16'',
     ''::1/128'', ''fc00::/7'', ''fe80::/10'']"

fun is_ipv4 :: "ip_addr \<Rightarrow> bool" where
  "is_ipv4 (V4 _) = True"
| "is_ipv4 (V6 _) = False"

definition cidr_parse :: "string \<Rightarrow> string + (ip_addr \<times> nat)" where
  "cidr_parse c =
    and_then (ok_or (split_once (CHR ''/'') c) ([CHR 0x27] @ c @ [CHR 0x27] @ '' is not a CIDR (address/prefix)'')) (\<lambda>(addr, bits).
    and_then (ok_or (ip_parse addr) ([CHR 0x27] @ c @ [CHR 0x27] @ '': '' @ [CHR 0x27] @ addr @ [CHR 0x27] @ '' is not an address'')) (\<lambda>ip.
    and_then (ok_or (parse_u32 bits) ([CHR 0x27] @ c @ [CHR 0x27] @ '': '' @ [CHR 0x27] @ bits @ [CHR 0x27] @ '' is not a prefix length'')) (\<lambda>n.
    if unat n > (if is_ipv4 ip then 32 else 128)
    then Inl ([CHR 0x27] @ c @ [CHR 0x27] @ '': /'' @ show_u32 n @ '' is too long for ''
      @ (if is_ipv4 ip then ''IPv4'' else ''IPv6''))
    else Inr (ip, unat n))))"

definition trusted_parse :: "string list \<Rightarrow> string + (ip_addr \<times> nat) list" where
  "trusted_parse cidrs = collect_ok cidr_parse cidrs"

fun within_net :: "ip_addr \<Rightarrow> ip_addr \<Rightarrow> nat \<Rightarrow> bool" where
  "within_net (V4 a) (V4 n) bits = (bits = 0 \<or> drop_bit (32 - bits) (a XOR n) = 0)"
| "within_net (V6 a) (V6 n) bits = (bits = 0 \<or> drop_bit (128 - bits) (a XOR n) = 0)"
| "within_net _ _ bits = False"

fun to_canonical :: "ip_addr \<Rightarrow> ip_addr" where
  "to_canonical (V6 w) = (if drop_bit 32 w = 0xFFFF then V4 (ucast w) else V6 w)"
| "to_canonical (V4 w) = V4 w"

definition trusted_contains :: "(ip_addr \<times> nat) list \<Rightarrow> ip_addr \<Rightarrow> bool" where
  "trusted_contains nets ip = list_ex (\<lambda>(net, bits). within_net (to_canonical ip) net bits) nets"

section \<open>Reading the header\<close>

text \<open>A connection delivers its bytes in chunks.  A read of up to \<open>n\<close> bytes takes them from the next chunk; at
  the end it gives nothing.  An error of the socket ends the stream.\<close>

record stream =
  st_chunks :: "bytes list"
  st_broken :: bool

datatype io_error = SocketError | TimedOut | HeaderTooLong | HeaderCutShort | EarlyEof

fun stream_read :: "nat \<Rightarrow> stream \<Rightarrow> io_error + (bytes \<times> stream)" where
  "stream_read n s =
    (case st_chunks s of
       [] \<Rightarrow> if st_broken s then Inl SocketError else Inr ([], s)
     | c # cs \<Rightarrow> Inr (take n c, s\<lparr>st_chunks := (if length c \<le> n then cs else drop n c # cs)\<rparr>))"

text \<open>Read until the buffer holds \<open>want\<close> bytes or the stream ends.\<close>

function fill :: "nat \<Rightarrow> bytes \<Rightarrow> stream \<Rightarrow> io_error + (bytes \<times> stream)" where
  "fill want buf s =
    (if length buf \<ge> want then Inr (buf, s)
     else case stream_read (want - length buf) s of
       Inl e \<Rightarrow> Inl e
     | Inr (got, s') \<Rightarrow> if got = [] then Inr (buf, s') else fill want (buf @ got) s')"
  by auto

termination
  by (relation "measure (\<lambda>(want, buf, s). want - length buf)") (auto simp: neq_Nil_conv)

text \<open>Bytes already read are replayed before the stream is read on.\<close>

record prefixed =
  px_inner :: stream
  px_prefix :: bytes

fun find_crlf :: "bytes \<Rightarrow> nat option" where
  "find_crlf (a # b # rest) =
    (if a = CHR 0x0D \<and> b = CHR 0x0A then Some 0 else map_option Suc (find_crlf (b # rest)))"
| "find_crlf _ = None"

definition is_ascii_whitespace :: "char \<Rightarrow> bool" where
  "is_ascii_whitespace c = (c \<in> {CHR '' '', CHR 0x09, CHR 0x0A, CHR 0x0C, CHR 0x0D})"

fun split_ascii_whitespace :: "string \<Rightarrow> string list" where
  "split_ascii_whitespace [] = []"
| "split_ascii_whitespace (c # cs) =
    (if is_ascii_whitespace c then split_ascii_whitespace cs
     else (case cs of
         [] \<Rightarrow> [[c]]
       | d # _ \<Rightarrow> if is_ascii_whitespace d then [c] # split_ascii_whitespace cs
           else (case split_ascii_whitespace cs of [] \<Rightarrow> [[c]] | w # ws \<Rightarrow> (c # w) # ws)))"

fun parse_v1_parts :: "string list \<Rightarrow> socket_addr option" where
  "parse_v1_parts (proxy # family # src # dst # port # _) =
    (if proxy = ''PROXY'' \<and> (family = ''TCP4'' \<or> family = ''TCP6'')
     then Option.bind (ip_parse src) (\<lambda>ip. map_option (\<lambda>n. (ip, n)) (parse_u16 port))
     else None)"
| "parse_v1_parts _ = None"

definition parse_v1 :: "string \<Rightarrow> socket_addr option" where
  "parse_v1 line = parse_v1_parts (split_ascii_whitespace line)"

function read_line :: "bytes \<Rightarrow> stream \<Rightarrow> io_error + (bytes \<times> stream)" where
  "read_line buf s =
    (if find_crlf buf \<noteq> None then Inr (buf, s)
     else if length buf > V1_MAX then Inl HeaderTooLong
     else case stream_read 1 s of
       Inl e \<Rightarrow> Inl e
     | Inr (got, s') \<Rightarrow> if got = [] then Inl HeaderCutShort else read_line (buf @ [hd got]) s')"
  by auto

termination
  by (relation "measure (\<lambda>(buf, s). Suc V1_MAX - length buf)") auto

definition read_v1 :: "stream \<Rightarrow> bytes \<Rightarrow> socket_addr \<Rightarrow> io_error + (prefixed \<times> socket_addr)" where
  "read_v1 s buf peer =
    map_ok (\<lambda>(buf, s).
      let i = the (find_crlf buf) in
      (\<lparr>px_inner = s, px_prefix = drop (i + 2) buf\<rparr>, unwrap_or (parse_v1 (from_utf8_lossy (take i buf))) peer))
      (read_line buf s)"

definition be16 :: "char \<Rightarrow> char \<Rightarrow> nat" where
  "be16 a b = 256 * of_char a + of_char b"

definition v2_client :: "bytes \<Rightarrow> bytes \<Rightarrow> socket_addr option" where
  "v2_client header body =
    (let ver_cmd = of_char (header ! 12) :: nat; family = of_char (header ! 13) div 16 :: nat in
     if ver_cmd div 16 = 2 \<and> ver_cmd mod 16 = 1
     then (if family = 1 \<and> length body \<ge> 12
           then Some (V4 (of_nat (of_be (take 4 body))), of_nat (be16 (body ! 8) (body ! 9)))
           else if family = 2 \<and> length body \<ge> 36
           then Some (V6 (of_nat (of_be (take 16 body))), of_nat (be16 (body ! 32) (body ! 33)))
           else None)
     else None)"

definition read_v2 :: "stream \<Rightarrow> bytes \<Rightarrow> socket_addr \<Rightarrow> io_error + (prefixed \<times> socket_addr)" where
  "read_v2 s buf peer =
    and_then (fill 16 buf s) (\<lambda>(buf, s).
    if length buf < 16 then Inl HeaderCutShort
    else let len = be16 (buf ! 14) (buf ! 15) in
      and_then (fill len [] s) (\<lambda>(body, s).
      if length body < len then Inl EarlyEof
      else Inr (\<lparr>px_inner = s, px_prefix = []\<rparr>, unwrap_or (v2_client buf body) peer)))"

definition read_header :: "stream \<Rightarrow> socket_addr \<Rightarrow> expect \<Rightarrow> (ip_addr \<times> nat) list \<Rightarrow> io_error + (prefixed \<times> socket_addr)" where
  "read_header s peer ex trusted =
    and_then (fill 12 [] s) (\<lambda>(buf, s).
    let wanted = starts_with buf (signature (ex_version ex));
        other = starts_with buf (case ex_version ex of ProxyOne \<Rightarrow> V2_SIGNATURE | ProxyTwo \<Rightarrow> V1_PREFIX);
        direct = Inr (\<lparr>px_inner = s, px_prefix = buf\<rparr>, peer) in
    if \<not> trusted_contains trusted (fst peer) then direct
    else if other then direct
    else if wanted then (case ex_version ex of ProxyOne \<Rightarrow> read_v1 s buf peer | ProxyTwo \<Rightarrow> read_v2 s buf peer)
    else direct)"

text \<open>\<open>late\<close>: the header did not arrive before the timer.\<close>

definition accept :: "bool \<Rightarrow> stream \<Rightarrow> socket_addr \<Rightarrow> expect \<Rightarrow> (ip_addr \<times> nat) list \<Rightarrow> io_error + (prefixed \<times> socket_addr)" where
  "accept late s peer ex trusted =
    (if \<not> ex_on ex then Inr (\<lparr>px_inner = s, px_prefix = []\<rparr>, peer)
     else if late then Inl TimedOut
     else read_header s peer ex trusted)"

text \<open>\<open>poll_read\<close> of the replaying stream.\<close>

definition prefixed_read :: "nat \<Rightarrow> prefixed \<Rightarrow> io_error + (bytes \<times> prefixed)" where
  "prefixed_read n p =
    (if n = 0 then Inr ([], p)
     else if px_prefix p \<noteq> [] then Inr (take n (px_prefix p), p\<lparr>px_prefix := drop n (px_prefix p)\<rparr>)
     else map_ok (\<lambda>(got, s). (got, p\<lparr>px_inner := s\<rparr>)) (stream_read n (px_inner p)))"

section \<open>What the reader does, on the bytes of the whole connection\<close>

definition ended :: "bool \<Rightarrow> io_error \<Rightarrow> io_error" where
  "ended broken e = (if broken then SocketError else e)"

definition header_v1 :: "bool \<Rightarrow> bytes \<Rightarrow> socket_addr \<Rightarrow> io_error + (bytes \<times> socket_addr)" where
  "header_v1 broken bs peer =
    (case find_crlf (take 109 bs) of
       Some i \<Rightarrow> Inr (drop (i + 2) bs, unwrap_or (parse_v1 (from_utf8_lossy (take i bs))) peer)
     | None \<Rightarrow> Inl (if length bs \<ge> 109 then HeaderTooLong else ended broken HeaderCutShort))"

definition header_v2 :: "bool \<Rightarrow> bytes \<Rightarrow> socket_addr \<Rightarrow> io_error + (bytes \<times> socket_addr)" where
  "header_v2 broken bs peer =
    (if length bs < 16 then Inl (ended broken HeaderCutShort)
     else let n = 16 + be16 (bs ! 14) (bs ! 15) in
       if length bs < n then Inl (ended broken EarlyEof)
       else Inr (drop n bs, unwrap_or (v2_client (take 16 bs) (take (n - 16) (drop 16 bs))) peer))"

definition proxy_spec :: "bool \<Rightarrow> bytes \<Rightarrow> socket_addr \<Rightarrow> expect \<Rightarrow> (ip_addr \<times> nat) list \<Rightarrow> io_error + (bytes \<times> socket_addr)" where
  "proxy_spec broken bs peer ex trusted =
    (if length bs < 12 \<and> broken then Inl SocketError
     else if trusted_contains trusted (fst peer) \<and> starts_with (take 12 bs) (signature (ex_version ex))
     then (case ex_version ex of ProxyOne \<Rightarrow> header_v1 broken bs peer | ProxyTwo \<Rightarrow> header_v2 broken bs peer)
     else Inr (bs, peer))"

definition all_bytes :: "stream \<Rightarrow> bytes" where
  "all_bytes s = concat (st_chunks s)"

definition proper :: "stream \<Rightarrow> bool" where
  "proper s = list_all (\<lambda>c. c \<noteq> []) (st_chunks s)"

text \<open>What a result leaves for whatever comes next.\<close>

definition rest_of :: "prefixed \<Rightarrow> bytes" where
  "rest_of p = px_prefix p @ all_bytes (px_inner p)"

definition sample_connection :: stream where
  "sample_connection = \<lparr>st_chunks = [''PROXY TC'', ''P4 9.8.7.6 10.0.0.2 5 80'' @ [CHR 0x0D], CHR 0x0A # ''GET /''], st_broken = False\<rparr>"

declare read_groups.simps [simp del]

declare stream_read.simps [simp del]

declare fill.simps [simp del]

declare read_line.simps [simp del]

lemma stream_read_cases:
  assumes "proper s" "0 < n"
  obtains (data) got s' where "stream_read n s = Inr (got, s')" "got \<noteq> []" "all_bytes s = got @ all_bytes s'"
      "length got \<le> n" "proper s'" "st_broken s' = st_broken s"
  | (broken) "stream_read n s = Inl SocketError" "all_bytes s = []" "st_broken s"
  | (eof) "stream_read n s = Inr ([], s)" "all_bytes s = []" "\<not> st_broken s"
proof (cases "st_chunks s")
  case Nil
  then show ?thesis using broken eof by (cases "st_broken s") (simp_all add: stream_read.simps all_bytes_def)
next
  case (Cons c cs)
  then show ?thesis using assms
    by (intro data [of "take n c" "s\<lparr>st_chunks := (if length c \<le> n then cs else drop n c # cs)\<rparr>"])
      (auto simp: stream_read.simps all_bytes_def proper_def)
qed

text \<open>Filling a buffer takes exactly the next bytes, however they are cut into chunks.\<close>

lemma fill_bytes:
  assumes "proper s" "length buf \<le> want"
  shows "(length (buf @ all_bytes s) \<ge> want \<longrightarrow> (\<exists>s'. fill want buf s = Inr (take want (buf @ all_bytes s), s')
        \<and> all_bytes s' = drop want (buf @ all_bytes s) \<and> proper s' \<and> st_broken s' = st_broken s))
    \<and> (length (buf @ all_bytes s) < want \<longrightarrow> (if st_broken s then fill want buf s = Inl SocketError
        else (\<exists>s'. fill want buf s = Inr (buf @ all_bytes s, s') \<and> all_bytes s' = [] \<and> proper s' \<and> \<not> st_broken s')))"
  using assms
proof (induction want buf s rule: fill.induct)
  case (1 want buf s)
  show ?case
  proof (cases "length buf \<ge> want")
    case True
    then show ?thesis using "1.prems" by (subst fill.simps) (simp add: fill.simps)
  next
    case False
    then have n: "0 < want - length buf" by simp
    from "1.prems"(1) n show ?thesis
    proof (cases rule: stream_read_cases)
      case (data got s')
      then have "length (buf @ got) \<le> want" using False by simp
      then show ?thesis using "1.IH" [OF False data(1) refl data(2,5)] data False by (auto simp: fill.simps [of want buf s])
    qed (use False "1.prems" in \<open>simp_all add: fill.simps [of want buf s]\<close>)
  qed
qed

lemma find_crlf_append: "find_crlf a = Some i \<Longrightarrow> find_crlf (a @ b) = Some i"
  by (induction a arbitrary: i rule: find_crlf.induct) (auto split: if_splits)

lemma find_crlf_bound: "find_crlf a = Some i \<Longrightarrow> i + 2 \<le> length a"
  by (induction a arbitrary: i rule: find_crlf.induct) (auto split: if_splits)

text \<open>Reading the line: the buffer is always a prefix of what was sent, and the reader stops at the first CRLF.\<close>

lemma read_line_bytes:
  assumes "proper s" "length buf \<le> 109"
  shows "case read_line buf s of
      Inr (line, s') \<Rightarrow> (\<exists>i. find_crlf line = Some i \<and> i + 2 \<le> max 109 (length buf)) \<and> line @ all_bytes s' = buf @ all_bytes s
        \<and> proper s'
    | Inl e \<Rightarrow> find_crlf (take 109 (buf @ all_bytes s)) = None
        \<and> e = (if length (buf @ all_bytes s) \<ge> 109 then HeaderTooLong else ended (st_broken s) HeaderCutShort)"
  using assms
proof (induction buf s rule: read_line.induct)
  case (1 buf s)
  show ?case
  proof (cases "find_crlf buf")
    case (Some i)
    then show ?thesis using "1.prems" find_crlf_bound [OF Some] by (simp add: read_line.simps [of buf s])
  next
    case None
    show ?thesis
    proof (cases "length buf > V1_MAX")
      case True
      then show ?thesis using None "1.prems" by (simp add: read_line.simps [of buf s] V1_MAX_def)
    next
      case False
      have one: "0 < (1 :: nat)" by simp
      from "1.prems"(1) one show ?thesis
      proof (cases rule: stream_read_cases)
        case (data got s')
        then obtain x where got: "got = [x]" by (cases got) auto
        then have "length (buf @ [hd got]) \<le> 109" using False by (simp add: V1_MAX_def)
        moreover have "\<not> find_crlf buf \<noteq> None" using None by simp
        ultimately show ?thesis using "1.IH" [OF _ False data(1) refl data(2,5)] None False data got
          by (auto simp: read_line.simps [of buf s] split: sum.splits prod.splits)
      next
        case broken
        then show ?thesis using None False "1.prems" by (simp add: read_line.simps [of buf s] V1_MAX_def ended_def)
      next
        case eof
        then show ?thesis using None False "1.prems" by (simp add: read_line.simps [of buf s] V1_MAX_def ended_def)
      qed
    qed
  qed
qed

lemma find_crlf_take: "find_crlf a = Some i \<Longrightarrow> find_crlf (take (i + 2) a) = Some i"
  by (induction a arbitrary: i rule: find_crlf.induct) (auto split: if_splits)

lemma read_v1_spec:
  assumes "proper s" "length buf \<le> 109"
  shows "map_ok (\<lambda>(p, client). (rest_of p, client)) (read_v1 s buf peer) = header_v1 (st_broken s) (buf @ all_bytes s) peer"
proof (cases "read_line buf s")
  case (Inl e)
  then show ?thesis using read_line_bytes [OF assms] by (simp add: read_v1_def header_v1_def)
next
  case (Inr r)
  obtain line s' where r: "r = (line, s')" by (cases r)
  from read_line_bytes [OF assms] obtain i where i: "find_crlf line = Some i" "i + 2 \<le> 109"
    and all: "buf @ all_bytes s = line @ all_bytes s'" using assms(2) by (auto simp: Inr r)
  have b: "i + 2 \<le> length line" by (rule find_crlf_bound [OF i(1)])
  have "find_crlf (take 109 (line @ all_bytes s')) = Some i"
  proof -
    have "find_crlf (take (i + 2) line) = Some i" using find_crlf_take [OF i(1)] .
    then have "find_crlf (take (i + 2) line @ drop (i + 2) (take 109 (line @ all_bytes s'))) = Some i"
      by (rule find_crlf_append)
    moreover have "take (i + 2) (take 109 (line @ all_bytes s')) = take (i + 2) line" using i(2) b by (simp add: min_def)
    ultimately show ?thesis by (metis append_take_drop_id)
  qed
  then show ?thesis using Inr r i b by (simp add: read_v1_def header_v1_def all rest_of_def)
qed

lemma read_v2_spec:
  assumes "proper s" "length buf \<le> 16"
  shows "map_ok (\<lambda>(p, client). (rest_of p, client)) (read_v2 s buf peer) = header_v2 (st_broken s) (buf @ all_bytes s) peer"
proof (cases "length (buf @ all_bytes s) < 16")
  case True
  then show ?thesis using fill_bytes [OF assms] by (auto simp: read_v2_def header_v2_def ended_def split: if_splits)
next
  case False
  let ?bs = "buf @ all_bytes s"
  obtain s' where s': "fill 16 buf s = Inr (take 16 ?bs, s')" "all_bytes s' = drop 16 ?bs" "proper s'"
    "st_broken s' = st_broken s" using fill_bytes [OF assms] False by auto
  let ?len = "be16 (?bs ! 14) (?bs ! 15)"
  have hd: "take 16 ?bs ! 14 = ?bs ! 14" "take 16 ?bs ! 15 = ?bs ! 15" by (simp_all del: take_append)
  have len: "length ([] :: bytes) \<le> ?len" by simp
  show ?thesis
  proof (cases "length (all_bytes s') < ?len")
    case True
    then have "length ?bs < 16 + ?len" using s'(2) False by simp
    then show ?thesis using True s' hd False fill_bytes [OF s'(3) len] unfolding read_v2_def header_v2_def
      by (auto simp: ended_def Let_def simp del: append_assoc length_append take_append drop_append split: if_splits)
  next
    case no: False
    then obtain s'' where s'': "fill ?len [] s' = Inr (take ?len (all_bytes s'), s'')"
      "all_bytes s'' = drop ?len (all_bytes s')" using fill_bytes [OF s'(3) len] by auto
    have "16 + ?len \<le> length ?bs" using no s'(2) False by simp
    then show ?thesis unfolding read_v2_def header_v2_def using s' s'' hd False no
      by (simp add: rest_of_def Let_def add.commute del: append_assoc length_append take_append drop_append)
  qed
qed

lemma signatures_apart:
  "starts_with buf V1_PREFIX \<Longrightarrow> \<not> starts_with buf V2_SIGNATURE"
  by (cases buf) (auto simp: starts_with_def V1_PREFIX_def V2_SIGNATURE_def)

lemma read_header_spec:
  assumes "proper s"
  shows "map_ok (\<lambda>(p, client). (rest_of p, client)) (read_header s peer ex trusted)
    = proxy_spec (st_broken s) (all_bytes s) peer ex trusted"
proof (cases "length (all_bytes s) < 12 \<and> st_broken s")
  case True
  then show ?thesis using fill_bytes [OF assms, of "[]" 12] by (simp add: read_header_def proxy_spec_def)
next
  case False
  let ?bs = "all_bytes s"
  have "\<exists>s'. fill 12 [] s = Inr (take 12 ?bs, s') \<and> all_bytes s' = drop 12 ?bs \<and> proper s' \<and> st_broken s' = st_broken s"
    using fill_bytes [OF assms, of "[]" 12] False by (cases "length ?bs < 12") auto
  then obtain s' where s': "fill 12 [] s = Inr (take 12 ?bs, s')" "all_bytes s' = drop 12 ?bs" "proper s'"
    "st_broken s' = st_broken s" by blast
  have all: "take 12 ?bs @ all_bytes s' = ?bs" using s'(2) by simp
  have v1: "map_ok (\<lambda>(p, client). (rest_of p, client)) (read_v1 s' (take 12 ?bs) peer) = header_v1 (st_broken s) ?bs peer"
    using read_v1_spec [OF s'(3), of "take 12 ?bs" peer] all s'(4) by simp
  have v2: "map_ok (\<lambda>(p, client). (rest_of p, client)) (read_v2 s' (take 12 ?bs) peer) = header_v2 (st_broken s) ?bs peer"
    using read_v2_spec [OF s'(3), of "take 12 ?bs" peer] all s'(4) by simp
  have direct: "rest_of \<lparr>px_inner = s', px_prefix = take 12 ?bs\<rparr> = ?bs" using all by (simp add: rest_of_def)
  show ?thesis
  proof (cases "ex_version ex")
    case ProxyOne
    then show ?thesis using s'(1) False v1 direct signatures_apart [of "take 12 ?bs"]
      by (auto simp: read_header_def proxy_spec_def Let_def)
  next
    case ProxyTwo
    then show ?thesis using s'(1) False v2 direct signatures_apart [of "take 12 ?bs"]
      by (auto simp: read_header_def proxy_spec_def Let_def)
  qed
qed

text \<open>C20. However the network cuts a connection into pieces, accepting it gives the same client address and leaves
  the same bytes to read: those after the header when a trusted peer sends a complete header of the configured
  version, and otherwise every byte that was sent, with the socket's own address as the client.  A header line
  without an end within 109 bytes, and a header that is cut short, refuse the connection.\<close>

theorem proxy_header_exact:
  assumes "proper s"
  shows "map_ok (\<lambda>(p, client). (rest_of p, client)) (accept late s peer ex trusted)
    = (if \<not> ex_on ex then Inr (all_bytes s, peer) else if late then Inl TimedOut
       else proxy_spec (st_broken s) (all_bytes s) peer ex trusted)"
  using read_header_spec [OF assms] by (simp add: accept_def rest_of_def)

lemma sample_line: "from_utf8_lossy ''PROXY TCP4 9.8.7.6 10.0.0.2 5 80'' = ''PROXY TCP4 9.8.7.6 10.0.0.2 5 80''"
  using from_utf8_lossy_ascii [of "''PROXY TCP4 9.8.7.6 10.0.0.2 5 80''" "[]"] by (simp add: from_utf8_lossy.simps [of "[]"])

lemma sample_ip: "ip_parse ''9.8.7.6'' = Some (V4 0x09080706)"
proof -
  have four: "(4 :: nat) = Suc (Suc (Suc (Suc 0)))" by simp
  have "read_number 10 3 False 256 ''9.8.7.6'' = Some (9, ''.8.7.6'')" "read_number 10 3 False 256 ''8.7.6'' = Some (8, ''.7.6'')"
    "read_number 10 3 False 256 ''7.6'' = Some (7, ''.6'')" "read_number 10 3 False 256 ''6'' = Some (6, [])"
    by (simp_all add: read_number_def to_digit_def hex_value_def starts_with_def)
  then have "read_octets 4 0 ''9.8.7.6'' = Some ([9, 8, 7, 6], [])"
    unfolding four by (simp add: read_separator_def)
  then show ?thesis by (simp add: ip_parse_def read_ipv4_addr_def groups_value_def)
qed

lemma sample_v1: "parse_v1 ''PROXY TCP4 9.8.7.6 10.0.0.2 5 80'' = Some (V4 0x09080706, 5)"
  by (simp add: parse_v1_def is_ascii_whitespace_def sample_ip parse_u16_def is_ascii_digit_def)

theorem proxy_header_exact_witness:
  "map_ok (\<lambda>(p, client). (rest_of p, client))
     (accept False sample_connection (V4 0x0A000002, 40000) \<lparr>ex_on = True, ex_version = ProxyOne\<rparr> [(V4 0x0A000000, 8)])
   = Inr (''GET /'', (V4 0x09080706, 5))"
proof -
  have p: "proper sample_connection" by (simp add: proper_def sample_connection_def)
  have all: "all_bytes sample_connection = ''PROXY TCP4 9.8.7.6 10.0.0.2 5 80'' @ [CHR 0x0D, CHR 0x0A] @ ''GET /''"
    by (simp add: all_bytes_def sample_connection_def)
  have trust: "trusted_contains [(V4 0x0A000000, 8)] (V4 0x0A000002)" by (simp add: trusted_contains_def)
  have "find_crlf (take 109 (all_bytes sample_connection)) = Some 32" unfolding all by simp
  then have "header_v1 False (all_bytes sample_connection) (V4 0x0A000002, 40000) = Inr (''GET /'', (V4 0x09080706, 5))"
    by (simp add: header_v1_def all sample_line sample_v1)
  moreover have "starts_with (take 12 (all_bytes sample_connection)) V1_PREFIX"
    unfolding all by (simp add: starts_with_def V1_PREFIX_def)
  moreover have "\<not> st_broken sample_connection" by (simp add: sample_connection_def)
  ultimately show ?thesis unfolding proxy_header_exact [OF p] by (simp add: proxy_spec_def trust)
qed

end
