(* ===== verification/Config.thy ===== *)
theory Config
  imports Auth Proxy
begin

text \<open>
  The configuration of the server and its validation at start (\<open>src/src/config.rs\<close>).  The library of host
  patterns is an argument.  Reading the TOML text belongs to other libraries.
\<close>

section \<open>The configuration file\<close>

record proxy_config =
  pc_proxy_on :: bool
  pc_proxy_version :: nat
  pc_trust :: "string list"

record container_config =
  cc_name :: string
  cc_hosts :: "string list"

record server_config =
  sc_default_compatibility :: string
  sc_cluster_id :: "string option"
  sc_sync_writes :: bool
  sc_max_body_bytes :: nat
  sc_normalize :: bool
  sc_limits :: search_limits
  sc_cache_max_entries :: nat
  sc_exporter_poll_seconds :: nat
  sc_log_format :: string
  sc_log_reads :: bool
  sc_proxy :: proxy_config
  sc_auth :: auth_config
  sc_containers :: "container_config list"

definition proxy_config_default :: proxy_config where
  "proxy_config_default = \<lparr>pc_proxy_on = False, pc_proxy_version = 2, pc_trust = DEFAULT_TRUSTED\<rparr>"

definition container_config_default :: container_config where
  "container_config_default = \<lparr>cc_name = DEFAULT_TENANT, cc_hosts = [''*'']\<rparr>"

definition auth_config_default :: auth_config where
  "auth_config_default = \<lparr>ac_enabled = False, ac_realm = ''SchemaRegistry'', ac_users = []\<rparr>"

definition server_config_default :: server_config where
  "server_config_default = \<lparr>sc_default_compatibility = ''BACKWARD'', sc_cluster_id = None, sc_sync_writes = True,
     sc_max_body_bytes = 16 * 1024 * 1024, sc_normalize = True, sc_limits = search_limits_default,
     sc_cache_max_entries = 20000, sc_exporter_poll_seconds = 10, sc_log_format = ''text'', sc_log_reads = False,
     sc_proxy = proxy_config_default, sc_auth = auth_config_default, sc_containers = []\<rparr>"

definition default_roles :: "role list" where
  "default_roles = [RoleReadonly]"

definition proxy_expect :: "proxy_config \<Rightarrow> string + expect" where
  "proxy_expect pc = map_ok (\<lambda>v. \<lparr>ex_on = pc_proxy_on pc, ex_version = v\<rparr>) (proxy_version_parse (pc_proxy_version pc))"

text \<open>A list written as one line or as several.\<close>

definition split_list :: "string \<Rightarrow> string list" where
  "split_list s = filter (\<lambda>p. p \<noteq> []) (map trim (concat (map (split_on (CHR '','')) (split_on (CHR '';'') s))))"

definition one_or_many :: "string + string list \<Rightarrow> string list" where
  "one_or_many v = (case v of Inl s \<Rightarrow> split_list s | Inr ss \<Rightarrow> concat (map split_list ss))"

fun map_err :: "('e \<Rightarrow> 'f) \<Rightarrow> 'e + 'a \<Rightarrow> 'f + 'a" where
  "map_err f (Inl e) = Inl (f e)"
| "map_err f (Inr x) = Inr x"

fun check_all :: "('a \<Rightarrow> string + unit) \<Rightarrow> 'a list \<Rightarrow> string + unit" where
  "check_all f [] = Inr ()"
| "check_all f (x # xs) = and_then (f x) (\<lambda>_. check_all f xs)"

definition fail_if :: "bool \<Rightarrow> string \<Rightarrow> string + unit" where
  "fail_if b msg = (if b then Inl msg else Inr ())"

text \<open>The patterns of hosts belong to another library: \<open>pattern_error\<close> is what it says of a pattern it refuses.\<close>

definition validate_host :: "(string \<Rightarrow> string option) \<Rightarrow> string \<Rightarrow> string \<Rightarrow> string + unit" where
  "validate_host pattern_error name h = (case pattern_error h of
      None \<Rightarrow> Inr ()
    | Some e \<Rightarrow> Inl (''container '' @ quoted name @ '': host pattern '' @ quoted h @ '': '' @ e))"

fun validate_containers :: "(string \<Rightarrow> string option) \<Rightarrow> string list \<Rightarrow> container_config list \<Rightarrow> string + unit" where
  "validate_containers pattern_error names [] = Inr ()"
| "validate_containers pattern_error names (c # cs) =
    and_then (map_err err_message (tenant_parse (cc_name c))) (\<lambda>_.
    and_then (fail_if (cc_name c \<in> set names) (''duplicate host container '' @ quoted (cc_name c))) (\<lambda>_.
    and_then (fail_if (cc_hosts c = []) (''host container '' @ quoted (cc_name c) @ '' has no hosts'')) (\<lambda>_.
    and_then (check_all (validate_host pattern_error (cc_name c)) (cc_hosts c)) (\<lambda>_.
    validate_containers pattern_error (cc_name c # names) cs))))"

definition validate_user_containers :: "container_config list \<Rightarrow> user_config \<Rightarrow> string + unit" where
  "validate_user_containers cs u =
    check_all (\<lambda>c. fail_if (cs \<noteq> [] \<and> c \<notin> set (map cc_name cs))
      (''user '' @ quoted (us_username u) @ '' is bound to unknown host container '' @ quoted c)) (us_containers u)"

definition validate_binding :: "string \<Rightarrow> role \<times> string list \<Rightarrow> string + unit" where
  "validate_binding username b =
    and_then (fail_if (snd b = []) (''user '' @ quoted username @ '': a binding needs at least one subject pattern'')) (\<lambda>_.
    check_all (\<lambda>p. map_ok (\<lambda>_. ()) (map_err (\<lambda>e. ''user '' @ quoted username @ '': subject pattern '' @ quoted p @ '': '' @ e)
      (pattern_parse p))) (snd b))"

fun validate_users :: "string list \<Rightarrow> user_config list \<Rightarrow> string + unit" where
  "validate_users seen [] = Inr ()"
| "validate_users seen (u # us) =
    and_then (fail_if (us_username u = [] \<or> CHR '':'' \<in> set (us_username u)) (''invalid username '' @ quoted (us_username u))) (\<lambda>_.
    and_then (fail_if (us_username u \<in> set seen) (''duplicate user '' @ quoted (us_username u))) (\<lambda>_.
    and_then (check_all (validate_binding (us_username u)) (us_bindings u)) (\<lambda>_.
    and_then (fail_if (us_roles u = [] \<and> us_bindings u = []) (''user '' @ quoted (us_username u) @ '' has no roles and no bindings'')) (\<lambda>_.
    validate_users (us_username u # seen) us))))"

definition config_validate :: "(string \<Rightarrow> string option) \<Rightarrow> server_config \<Rightarrow> string + unit" where
  "config_validate pattern_error cfg =
    and_then (map_err (\<lambda>e. ''[proxy] '' @ e) (proxy_version_parse (pc_proxy_version (sc_proxy cfg)))) (\<lambda>_.
    and_then (map_err (\<lambda>e. ''[proxy] trust: '' @ e) (trusted_parse (pc_trust (sc_proxy cfg)))) (\<lambda>_.
    and_then (fail_if (sc_log_format cfg \<notin> {''text'', ''json''})
      (''log_format must be '' @ quoted ''text'' @ '' or '' @ quoted ''json'' @ '', not '' @ quoted (sc_log_format cfg))) (\<lambda>_.
    and_then (map_err (\<lambda>e. ''default_compatibility: '' @ err_message e) (compat_parse (sc_default_compatibility cfg))) (\<lambda>_.
    and_then (fail_if (ac_enabled (sc_auth cfg) \<and> ac_users (sc_auth cfg) = [])
      (''auth.enabled = true but no ['' @ ''[auth.users]'' @ ''] are configured'')) (\<lambda>_.
    and_then (validate_containers pattern_error [] (sc_containers cfg)) (\<lambda>_.
    and_then (check_all (validate_user_containers (sc_containers cfg)) (ac_users (sc_auth cfg))) (\<lambda>_.
    validate_users [] (ac_users (sc_auth cfg)))))))))"

text \<open>A user the checks accept keeps every pattern of every binding.\<close>

definition user_ok :: "user_config \<Rightarrow> bool" where
  "user_ok u = (us_username u \<noteq> [] \<and> CHR '':'' \<notin> set (us_username u) \<and> has_any_role (from_user u)
     \<and> map (length \<circ> snd) (pr_bindings (from_user u)) = map (length \<circ> snd) (us_bindings u)
     \<and> list_all (\<lambda>(_, pts). pts \<noteq> []) (pr_bindings (from_user u)))"

text \<open>The configuration of the witnesses: one reader and one writer, in the only container.\<close>

definition sample_config :: server_config where
  "sample_config = server_config_default\<lparr>sc_proxy := proxy_config_default\<lparr>pc_trust := []\<rparr>,
     sc_auth := \<lparr>ac_enabled = True, ac_realm = ''r'', ac_users =
       [\<lparr>us_username = ''ann'', us_password = ''pw'', us_roles = [], us_bindings = [(RoleWrite, [''orders-*''])], us_containers = []\<rparr>]\<rparr>\<rparr>"

definition sample_crypto :: crypto where
  "sample_crypto = \<lparr>cr_base64 = (\<lambda>_. Some ''ann:pw''), cr_verify = (\<lambda>_ _. None), cr_hash = (\<lambda>_ _. None), cr_sha256 = (\<lambda>x. x)\<rparr>"

lemma check_all_ok: "check_all f xs = Inr () \<longleftrightarrow> list_all (\<lambda>x. f x = Inr ()) xs"
  by (induction xs) (auto simp: and_then_Inr_iff)

lemma fail_if_ok [simp]: "fail_if b msg = Inr u \<longleftrightarrow> \<not> b"
  by (simp add: fail_if_def)

lemma map_err_ok [simp]: "map_err f r = Inr x \<longleftrightarrow> r = Inr x"
  by (cases r) auto

lemma ok_values_all: "list_all (\<lambda>x. \<exists>y. f x = Inr y) xs \<Longrightarrow> length (ok_values (map f xs)) = length xs"
  by (induction xs) (auto simp: ok_values_def List.map_filter_def)

lemma validate_binding_ok:
  "validate_binding n b = Inr () \<longleftrightarrow> snd b \<noteq> [] \<and> list_all (\<lambda>p. \<exists>y. pattern_parse p = Inr y) (snd b)"
  by (auto simp: validate_binding_def and_then_Inr_iff check_all_ok map_ok_Inr_iff)

lemma bindings_kept:
  assumes "list_all (\<lambda>b. validate_binding n b = Inr ()) bs"
  defines "kept \<equiv> map (\<lambda>(role, subjects). (role, ok_values (map pattern_parse subjects))) bs"
  shows "map (length \<circ> snd) kept = map (length \<circ> snd) bs \<and> list_all (\<lambda>(_, pts). pts \<noteq> []) kept"
  using assms unfolding kept_def
proof (induction bs)
  case (Cons b bs)
  then have "length (ok_values (map pattern_parse (snd b))) = length (snd b)" "snd b \<noteq> []"
    by (simp_all add: validate_binding_ok ok_values_all)
  then have "ok_values (map pattern_parse (snd b)) \<noteq> []" by (metis length_0_conv)
  with Cons show ?case using \<open>length (ok_values (map pattern_parse (snd b))) = length (snd b)\<close> by (cases b) simp
qed simp

lemma validate_users_ok:
  "validate_users seen us = Inr () \<Longrightarrow> list_all user_ok us \<and> distinct (map us_username us)
    \<and> set seen \<inter> set (map us_username us) = {}"
proof (induction us arbitrary: seen)
  case (Cons u us)
  then have u: "us_username u \<noteq> []" "CHR '':'' \<notin> set (us_username u)" "us_username u \<notin> set seen"
    "list_all (\<lambda>b. validate_binding (us_username u) b = Inr ()) (us_bindings u)"
    "\<not> (us_roles u = [] \<and> us_bindings u = [])" "validate_users (us_username u # seen) us = Inr ()"
    by (auto simp: and_then_Inr_iff check_all_ok)
  have "user_ok u" using u bindings_kept [OF u(4)] by (auto simp: user_ok_def from_user_def has_any_role_def)
  then show ?case using Cons.IH [OF u(6)] u(3) by auto
qed simp

lemma validate_containers_ok:
  "validate_containers pe names cs = Inr () \<Longrightarrow> list_all (\<lambda>c. (\<exists>t. tenant_parse (cc_name c) = Inr t) \<and> cc_hosts c \<noteq> []
      \<and> list_all (\<lambda>h. pe h = None) (cc_hosts c)) cs
    \<and> distinct (map cc_name cs) \<and> set names \<inter> set (map cc_name cs) = {}"
proof (induction cs arbitrary: names)
  case (Cons c cs)
  then have c: "\<exists>t. tenant_parse (cc_name c) = Inr t" "cc_name c \<notin> set names" "cc_hosts c \<noteq> []"
    "list_all (\<lambda>h. validate_host pe (cc_name c) h = Inr ()) (cc_hosts c)" "validate_containers pe (cc_name c # names) cs = Inr ()"
    by (auto simp: and_then_Inr_iff check_all_ok)
  have "list_all (\<lambda>h. pe h = None) (cc_hosts c)"
    using c(4) by (auto simp: list_all_iff validate_host_def split: option.splits)
  then show ?case using c Cons.IH [OF c(5)] by auto
qed simp


lemma sample_config_valid: "config_validate (\<lambda>_. None) sample_config = Inr ()"
  by (simp add: config_validate_def sample_config_def server_config_default_def proxy_config_default_def
        proxy_version_parse_def trusted_parse_def compat_parse_def validate_user_containers_def validate_binding_def
        pattern_parse_def fail_if_def to_ascii_uppercase_def ascii_upper_def)


lemma map_of_rev_users:
  assumes "distinct (map f xs)" "x \<in> set xs"
  shows "map_of (rev (map (\<lambda>u. (f u, g u)) xs)) (f x) = Some (g x)"
proof -
  have "distinct (map fst (rev (map (\<lambda>u. (f u, g u)) xs)))" using assms(1) by (simp add: rev_map [symmetric] comp_def)
  moreover have "(f x, g x) \<in> set (rev (map (\<lambda>u. (f u, g u)) xs))" using assms(2) by auto
  ultimately show ?thesis by (rule map_of_is_SomeI)
qed

text \<open>C24. A user of an accepted configuration logs in with the configured password: the name and the password,
  joined by a colon, encoded and sent with the Basic scheme, are recognized as that user and no other.\<close>

theorem configured_user_logs_in:
  assumes "config_validate pe cfg = Inr ()" "u \<in> set (ac_users (sc_auth cfg))"
    and "cr_base64 cr (trim encoded) = Some (us_username u @ '':'' @ password)" "utf8_valid (us_username u @ '':'' @ password)"
    and "password_ok cr password (us_password u)"
  shows "credentials_of cr (sc_auth cfg) (''Basic '' @ encoded) = Some (from_user u)"
proof -
  let ?users = "ac_users (sc_auth cfg)"
  have v: "validate_users [] ?users = Inr ()" using assms(1) unfolding config_validate_def by (auto simp: and_then_Inr_iff)
  have d: "distinct (map us_username ?users)" and c: "CHR '':'' \<notin> set (us_username u)"
    using validate_users_ok [OF v] assms(2) by (auto simp: list_all_iff user_ok_def)
  have "split_once (CHR '' '') (''Basic '' @ encoded) = Some (''Basic'', encoded)" by simp
  moreover have "split_once (CHR '':'') (us_username u @ '':'' @ password) = Some (us_username u, password)"
    using split_once_append [OF c] by simp
  ultimately have "decode_basic cr (''Basic '' @ encoded) = Some (us_username u, password)"
    using assms(3,4) by (simp add: decode_basic_def eq_ignore_ascii_case_def from_utf8_def)
  moreover have "au_users (auth_new cr (sc_auth cfg)) (us_username u) = Some (us_password u, from_user u)"
    using map_of_rev_users [OF d assms(2), of "\<lambda>u. (us_password u, from_user u)"] by (simp add: auth_new_def)
  ultimately show ?thesis using assms(5) by (simp add: credentials_of_def)
qed

lemma sample_utf8: "utf8_valid ''ann:pw''"
  using from_utf8_lossy_valid [of "''ann:pw''"] from_utf8_lossy_ascii [of "''ann:pw''" "[]"]
  by (simp add: from_utf8_lossy.simps [of "[]"])

lemma sample_ann: "ac_users (sc_auth sample_config) = [\<lparr>us_username = ''ann'', us_password = ''pw'', us_roles = [],
    us_bindings = [(RoleWrite, [''orders-*''])], us_containers = []\<rparr>]"
  by (simp add: sample_config_def)

theorem configured_user_logs_in_witness:
  "credentials_of sample_crypto (sc_auth sample_config) ''Basic YW5uOnB3'' = Some (from_user (hd (ac_users (sc_auth sample_config))))"
proof -
  have p: "password_ok sample_crypto ''pw'' ''pw''" by (simp add: password_ok_def starts_with_def)
  show ?thesis
    using configured_user_logs_in [OF sample_config_valid, of "hd (ac_users (sc_auth sample_config))" sample_crypto "''YW5uOnB3''" "''pw''"]
      sample_utf8 p by (simp add: sample_ann) (simp add: sample_crypto_def)
qed

lemma sample_presented: "presented sample_crypto (sc_auth sample_config) rs \<subseteq> {(''ann'', ''pw'', ''pw'')}"
  by (auto simp: presented_def decode_basic_def sample_crypto_def from_utf8_def sample_utf8 auth_new_def sample_ann
      bind_eq_Some_conv split: if_splits)

theorem middleware_exact_witness:
  "snd (middleware sample_crypto
      (fold (admit sample_crypto) [(Some ''Basic YW5uOnB3'', None, ''GET'', ''/subjects'')] (auth_new sample_crypto (sc_auth sample_config)))
      None None ''PUT'' ''/config'') = Challenge ''r''"
proof -
  have "short (''ann'', ''pw'', ''pw'')" by (simp add: short_def)
  then have "\<forall>t\<in>presented sample_crypto (sc_auth sample_config) rs. short t" for rs using sample_presented [of rs] by auto
  moreover have "inj_on (cr_sha256 sample_crypto) S" for S by (simp add: sample_crypto_def)
  moreover have "decision sample_crypto (sc_auth sample_config) (None, None, ''PUT'', ''/config'') = Challenge ''r''"
    by (simp add: decision_def sample_config_def)
  ultimately show ?thesis
    using middleware_exact [of sample_crypto "sc_auth sample_config" None None "''PUT''" "''/config''"] by metis
qed

end
