(* ===== verification/Hosts.thy ===== *)
theory Hosts
  imports Config
begin

text \<open>
  Host containers (\<open>src/src/containers.rs\<close>): the routes from host patterns to containers, and the cluster id of a
  container (\<open>src/src/main.rs\<close>).  The library of host patterns is an argument.
\<close>

section \<open>Which container a host reaches\<close>

text \<open>The library of host patterns, as an argument.\<close>

record 'g globs =
  gl_new :: "string \<Rightarrow> 'g option"
  gl_matches :: "'g \<Rightarrow> string \<Rightarrow> bool"
  gl_as_str :: "'g \<Rightarrow> string"
  gl_escape :: "string \<Rightarrow> string"

definition ascii_lower :: "char \<Rightarrow> char" where
  "ascii_lower c = (let n = of_char c :: nat in if 65 \<le> n \<and> n \<le> 90 then char_of (n + 32) else c)"

definition to_ascii_lowercase :: "string \<Rightarrow> string" where
  "to_ascii_lowercase s = map ascii_lower s"

definition host_pattern :: "'g globs \<Rightarrow> string \<Rightarrow> string" where
  "host_pattern G host = (if starts_with host ''['' \<and> CHR '':'' \<in> set host then gl_escape G host else host)"

fun rsplit_once :: "char \<Rightarrow> string \<Rightarrow> (string \<times> string) option" where
  "rsplit_once c [] = None"
| "rsplit_once c (x # xs) = (case rsplit_once c xs of
      Some (a, b) \<Rightarrow> Some (x # a, b)
    | None \<Rightarrow> if x = c then Some ([], xs) else None)"

definition byte_is :: "string \<Rightarrow> nat \<Rightarrow> char \<Rightarrow> bool" where
  "byte_is s i c = (i < length s \<and> s ! i = c)"

definition without_port :: "string \<Rightarrow> string" where
  "without_port host =
    (let strip = (case rsplit_once (CHR '':'') host of Some (h, _) \<Rightarrow> h | None \<Rightarrow> host) in
     case find_char (CHR '']'') host of
       Some e \<Rightarrow> if byte_is host (e + 1) (CHR '':'') then take (e + 1) host
         else if e = length host - 1 then host else strip
     | None \<Rightarrow> strip)"

definition has_port :: "string \<Rightarrow> bool" where
  "has_port pattern =
    (if starts_with pattern ''[[]''
     then is_some_and (find_sub ''[]]'' pattern) (\<lambda>e. byte_is pattern (e + 3) (CHR '':''))
     else case find_char (CHR '']'') pattern of
       Some e \<Rightarrow> byte_is pattern (e + 1) (CHR '':'')
     | None \<Rightarrow> CHR '':'' \<in> set pattern)"

record ('g, 'r) containers =
  ct_routes :: "('g \<times> tenant_id) list"
  ct_by_name :: "tenant_id \<rightharpoonup> 'r"

definition container_routes :: "'g globs \<Rightarrow> container_config \<Rightarrow> ('g \<times> tenant_id) list" where
  "container_routes G c = (case tenant_parse (cc_name c) of
      Inl _ \<Rightarrow> []
    | Inr name \<Rightarrow> List.map_filter (\<lambda>h. map_option (\<lambda>p. (p, name)) (gl_new G (host_pattern G (to_ascii_lowercase h)))) (cc_hosts c))"

text \<open>The \<open>expect\<close> on the pattern of a lone star would panic where the library refused it.\<close>

definition containers_new :: "'g globs \<Rightarrow> container_config list \<Rightarrow> (tenant_id \<rightharpoonup> 'r) \<Rightarrow> ('g, 'r) containers option" where
  "containers_new G configured registries =
    (let routes = concat (map (container_routes G) configured) in
     if routes = [] then map_option (\<lambda>star. \<lparr>ct_routes = [(star, default_tenant)], ct_by_name = registries\<rparr>) (gl_new G ''*'')
     else Some \<lparr>ct_routes = routes, ct_by_name = registries\<rparr>)"

definition host_matches :: "'g globs \<Rightarrow> string \<Rightarrow> 'g \<Rightarrow> bool" where
  "host_matches G host p =
    (gl_matches G p host \<or> \<not> has_port (gl_as_str G p) \<and> gl_matches G p (without_port host))"

definition route :: "'g globs \<Rightarrow> ('g, 'r) containers \<Rightarrow> string option \<Rightarrow> (tenant_id \<times> 'r) option" where
  "route G ct host =
    (let host = to_ascii_lowercase (unwrap_or host []) in
     Option.bind (List.find (\<lambda>(p, _). host_matches G host p) (ct_routes ct)) (\<lambda>(_, name).
     map_option (\<lambda>r. (name, r)) (ct_by_name ct name)))"

definition no_such_host :: "string option \<Rightarrow> api_error" where
  "no_such_host host = api_error_new 42101 (''No host container is configured for host '' @ quoted (unwrap_or host []))"

text \<open>The cluster id of a container; \<open>uuid\<close> is a fresh random one in hexadecimal.\<close>

fun cluster_id_for :: "string \<Rightarrow> string option \<Rightarrow> string option \<Rightarrow> tenant_id \<Rightarrow> string \<times> bool" where
  "cluster_id_for uuid (Some base) stored name =
    (if tenant_name name = DEFAULT_TENANT then (base, False) else (base @ ''-'' @ tenant_name name, False))"
| "cluster_id_for uuid None (Some i) name = (i, False)"
| "cluster_id_for uuid None None name = (''sr-'' @ take 12 uuid, True)"

definition exact_globs :: "string globs" where
  "exact_globs = \<lparr>gl_new = Some, gl_matches = (\<lambda>p s. p = s), gl_as_str = (\<lambda>p. p), gl_escape = (\<lambda>s. s)\<rparr>"

lemma find_skip: "List.find P xs = None \<Longrightarrow> List.find P (xs @ ys) = List.find P ys"
  by (induction xs) (auto split: if_splits)

lemma rsplit_once_colon: "CHR '':'' \<notin> set port \<Longrightarrow> rsplit_once (CHR '':'') (h @ '':'' @ port) = Some (h, port)"
proof (induction h)
  case Nil
  have "rsplit_once (CHR '':'') port = None" using Nil by (induction port) auto
  then show ?case by simp
qed simp

lemma without_port_plain:
  assumes "CHR '':'' \<notin> set port" "CHR '']'' \<notin> set (h @ port)"
  shows "without_port (h @ '':'' @ port) = h"
proof -
  have "find_char (CHR '']'') (h @ '':'' @ port) = None" using assms(2) by (simp add: find_char_None_iff)
  then show ?thesis using rsplit_once_colon [OF assms(1), of h] by (simp add: without_port_def)
qed

lemma ascii_lower_keeps:
  assumes "x \<in> {CHR '':'', CHR '']''}"
  shows "ascii_lower c = x \<longleftrightarrow> c = x"
proof (cases "65 \<le> (of_char c :: nat) \<and> of_char c \<le> (90 :: nat)")
  case True
  then have "of_char (ascii_lower c) = (of_char c :: nat) + 32" by (simp add: ascii_lower_def of_char_of)
  then have "97 \<le> (of_char (ascii_lower c) :: nat)" using True by simp
  then show ?thesis using True assms by auto
qed (auto simp: ascii_lower_def)

lemma ascii_lower_image: "x \<in> {CHR '':'', CHR '']''} \<Longrightarrow> x \<in> set (to_ascii_lowercase s) \<longleftrightarrow> x \<in> set s"
  using ascii_lower_keeps [of x] by (auto simp: to_ascii_lowercase_def image_iff eq_commute [of x])

text \<open>A request reaches the container of the first route whose pattern takes its host, whatever the case of the
  letters; a pattern that names no port takes its hosts with any port as well.\<close>

theorem route_ignores_port_and_case:
  assumes "CHR '':'' \<notin> set port" "CHR '']'' \<notin> set (h @ port)"
    and "ct_routes ct = before @ (p, name) # after" "\<not> has_port (gl_as_str G p)" "gl_matches G p (to_ascii_lowercase h)"
    and "list_all (\<lambda>(q, _). \<not> host_matches G (to_ascii_lowercase (h @ '':'' @ port)) q) before" "ct_by_name ct name = Some r"
  shows "route G ct (Some (h @ '':'' @ port)) = Some (name, r)"
proof -
  let ?l = to_ascii_lowercase
  have l: "?l (h @ '':'' @ port) = ?l h @ '':'' @ ?l port" by (simp add: to_ascii_lowercase_def ascii_lower_def)
  have "CHR '':'' \<notin> set (?l port)" "CHR '']'' \<notin> set (?l h @ ?l port)"
    using assms(1,2) ascii_lower_image by simp_all
  then have "without_port (?l (h @ '':'' @ port)) = ?l h" unfolding l by (rule without_port_plain)
  then have "host_matches G (?l (h @ '':'' @ port)) p" using assms(4,5) by (simp add: host_matches_def)
  moreover have "List.find (\<lambda>(q, _). host_matches G (?l (h @ '':'' @ port)) q) before = None"
    using assms(6) by (auto simp: find_None_iff list_all_iff)
  ultimately show ?thesis using assms(3,7) by (simp add: route_def find_skip)
qed

lemma cluster_ids_distinct:
  assumes "tenant_name a \<noteq> tenant_name b"
  shows "fst (cluster_id_for u (Some base) s a) \<noteq> fst (cluster_id_for u' (Some base) s' b)"
  using assms by auto

theorem route_ignores_port_and_case_witness:
  "route exact_globs \<lparr>ct_routes = [(''other'', TenantId ''dev''), (''sr'', TenantId ''prod'')], ct_by_name = [TenantId ''prod'' \<mapsto> (7 :: nat)]\<rparr>
     (Some ''SR:8081'') = Some (TenantId ''prod'', 7)"
proof -
  have low: "to_ascii_lowercase ''SR'' = ''sr''" "to_ascii_lowercase ''SR:8081'' = ''sr:8081''"
    by (simp_all add: to_ascii_lowercase_def ascii_lower_def char_of_def bit_Suc_0_iff)
  have "without_port ''sr:8081'' = ''sr''" using without_port_plain [of "''8081''" "''sr''"] by simp
  then have "\<not> host_matches exact_globs ''sr:8081'' ''other''" by (simp add: host_matches_def exact_globs_def)
  then show ?thesis
    using route_ignores_port_and_case [of "''8081''" "''SR''"
        "\<lparr>ct_routes = [(''other'', TenantId ''dev''), (''sr'', TenantId ''prod'')], ct_by_name = [TenantId ''prod'' \<mapsto> (7 :: nat)]\<rparr>"
        "[(''other'', TenantId ''dev'')]" "''sr''" "TenantId ''prod''" "[]" exact_globs 7]
    by (simp add: low) (simp add: exact_globs_def has_port_def starts_with_def)
qed

end
