(* ===== verification/Spec2Isabelle.thy ===== *)
theory Spec2Isabelle
  imports Sample_Run Locks Hosts
begin

text \<open>
  A verification library for the schema registry under \<open>src/src\<close>: a single-node,
  Confluent-compatible registry over RocksDB.

  Parts of the program: names (\<open>context.rs\<close>, \<open>tenant.rs\<close>), wire and stored types (\<open>model.rs\<close>,
  \<open>error.rs\<close>), the mode table (\<open>modegate.rs\<close>), the in-memory read model (\<open>snapshot.rs\<close>), the
  persistent store (\<open>store.rs\<close>), configuration and mode resolution (\<open>registry/resolution.rs\<close>), the
  mutation verbs (\<open>mutations\<close>) and the engine that runs them (\<open>engine.rs\<close>).
\<close>

end
